(* ===== verification/Prelude.thy ===== *)
theory Prelude
  imports Main "HOL-Library.AList" "HOL-Library.List_Lexorder" "HOL-Library.Product_Lexorder"
begin

text \<open>
  Shared vocabulary of the development: Python strings, dictionaries and the few builtins
  (\<^verbatim>\<open>min(key=...)\<close>, \<^verbatim>\<open>str.strip\<close>, \<^verbatim>\<open>str.split\<close>, decimal rendering) that several components
  use, with the lemmas about them.  A Python \<^verbatim>\<open>str\<close> is the list of its code points, because the
  program handles Japanese text and compares, slices and measures strings by code point; the
  order of \<^verbatim>\<open>str\<close> is the lexicographic order of code points.  A \<^verbatim>\<open>dict\<close> is the association list of
  its items in insertion order: assigning to a present key keeps its position.
\<close>

named_theorems key_facts \<open>facts about identifiers and keys\<close>
named_theorems step_facts \<open>what one operation does to the state of a component\<close>

section \<open>Strings\<close>

type_synonym ustr = "nat list"

definition lit :: "string \<Rightarrow> ustr" where
  "lit s = map of_char s"

lemma of_char_nat_inj: "(of_char c :: nat) = of_char d \<longleftrightarrow> c = d"
  by simp

lemma lit_inject [simp]: "lit s = lit t \<longleftrightarrow> s = t"
  unfolding lit_def by (rule inj_map_eq_map) (auto intro: injI)

lemma lit_append: "lit (s @ t) = lit s @ lit t"
  by (simp add: lit_def)

lemma length_lit [simp]: "length (lit s) = length s"
  by (simp add: lit_def)

definition is_space :: "nat \<Rightarrow> bool" where
  "is_space c \<longleftrightarrow> (9 \<le> c \<and> c \<le> 13) \<or> (28 \<le> c \<and> c \<le> 32) \<or> c = 133 \<or> c = 160 \<or> c = 5760
     \<or> (8192 \<le> c \<and> c \<le> 8202) \<or> c = 8232 \<or> c = 8233 \<or> c = 8239 \<or> c = 8287 \<or> c = 12288"

definition strip :: "ustr \<Rightarrow> ustr" where
  "strip s = rev (dropWhile is_space (rev (dropWhile is_space s)))"

definition starts_with :: "ustr \<Rightarrow> ustr \<Rightarrow> bool" where
  "starts_with p s \<longleftrightarrow> take (length p) s = p"

lemma starts_with_iff: "starts_with p s \<longleftrightarrow> (\<exists>r. s = p @ r)"
  unfolding starts_with_def by (metis append_eq_conv_conj append_take_drop_id)

lemma starts_with_append [simp]: "starts_with p (p @ s)"
  by (simp add: starts_with_def)

fun split_on :: "'a \<Rightarrow> 'a list \<Rightarrow> 'a list list" where
  "split_on c [] = [[]]"
| "split_on c (x # xs) =
     (if x = c then [] # split_on c xs
      else (case split_on c xs of [] \<Rightarrow> [[x]] | w # ws \<Rightarrow> (x # w) # ws))"

fun split_space_aux :: "ustr \<Rightarrow> ustr \<Rightarrow> ustr list" where
  "split_space_aux acc [] = (if acc = [] then [] else [rev acc])"
| "split_space_aux acc (x # xs) =
     (if is_space x then (if acc = [] then [] else [rev acc]) @ split_space_aux [] xs
      else split_space_aux (x # acc) xs)"

definition split_space :: "ustr \<Rightarrow> ustr list" where
  "split_space s = split_space_aux [] s"

lemma split_on_not_Nil [simp]: "split_on c xs \<noteq> []"
  by (induction xs) (auto split: list.splits)

lemma split_on_no_sep: "w \<in> set (split_on c xs) \<Longrightarrow> c \<notin> set w"
proof (induction xs arbitrary: w)
  case (Cons x xs)
  then show ?case
    by (cases "split_on c xs") (auto split: if_splits)
qed simp

lemma split_space_aux_words:
  "w \<in> set (split_space_aux acc xs) \<Longrightarrow> \<forall>a \<in> set acc. \<not> is_space a \<Longrightarrow>
     w \<noteq> [] \<and> (\<forall>a \<in> set w. \<not> is_space a)"
proof (induction acc xs arbitrary: w rule: split_space_aux.induct)
  case (2 acc x xs)
  then show ?case by (cases "is_space x") (auto split: if_splits)
qed (auto split: if_splits)

fun dec :: "nat \<Rightarrow> ustr" where
  "dec n = (if n < 10 then [48 + n] else dec (n div 10) @ [48 + n mod 10])"

declare dec.simps [simp del]

lemma dec_digits: "\<forall>c \<in> set (dec n). 48 \<le> c \<and> c \<le> 57"
proof (induction n rule: dec.induct)
  case (1 n)
  show ?case
  proof (cases "n < 10")
    case True
    then show ?thesis by (subst dec.simps) auto
  next
    case False
    then have "\<forall>c \<in> set (dec (n div 10)). 48 \<le> c \<and> c \<le> 57" by (rule "1.IH")
    then show ?thesis by (subst dec.simps) auto
  qed
qed

lemma dec_not_Nil [simp]: "dec n \<noteq> []" "[] \<noteq> dec n"
  by (subst dec.simps, simp)+

lemma dec_inject [simp]: "dec m = dec n \<longleftrightarrow> m = n"
proof (induction m arbitrary: n rule: dec.induct)
  case (1 m)
  have small: "dec k = [48 + k]" if "k < 10" for k using that by (subst dec.simps) simp
  have big: "dec k = dec (k div 10) @ [48 + k mod 10]" if "\<not> k < 10" for k
    using that by (subst dec.simps) simp
  show ?case
  proof (cases "m < 10 \<or> n < 10")
    case True
    then show ?thesis using small [of m] small [of n] big [of m] big [of n]
      by (cases "m < 10"; cases "n < 10") (auto simp: append_eq_Cons_conv Cons_eq_append_conv)
  next
    case False
    then have "dec m = dec n \<longleftrightarrow> dec (m div 10) = dec (n div 10) \<and> m mod 10 = n mod 10"
      using big [of m] big [of n] by simp
    also have "\<dots> \<longleftrightarrow> m div 10 = n div 10 \<and> m mod 10 = n mod 10"
      using False "1.IH" by simp
    also have "\<dots> \<longleftrightarrow> m = n"
      by (metis div_mult_mod_eq)
    finally show ?thesis .
  qed
qed

section \<open>Results\<close>

text \<open>Sequencing of computations that may raise: an error ends the computation.\<close>

definition and_then :: "'e + 'a \<Rightarrow> ('a \<Rightarrow> 'e + 'b) \<Rightarrow> 'e + 'b" where
  "and_then x f = (case x of Inl e \<Rightarrow> Inl e | Inr y \<Rightarrow> f y)"

lemma and_then_simps [simp]: "and_then (Inl e) f = Inl e" "and_then (Inr y) f = f y"
  by (simp_all add: and_then_def)

lemma and_then_Inr: "and_then x f = Inr z \<longleftrightarrow> (\<exists>y. x = Inr y \<and> f y = Inr z)"
  by (cases x) simp_all

text \<open>Raising an error of one kind as an error of another.\<close>

definition raise_as :: "('e \<Rightarrow> 'f) \<Rightarrow> 'e + 'a \<Rightarrow> 'f + 'a" where
  "raise_as c x = (case x of Inl e \<Rightarrow> Inl (c e) | Inr y \<Rightarrow> Inr y)"

lemma raise_as_simps [simp]: "raise_as c (Inl e) = Inl (c e)" "raise_as c (Inr y) = Inr y"
  by (simp_all add: raise_as_def)

lemma raise_as_Inr: "raise_as c x = Inr y \<longleftrightarrow> x = Inr y"
  by (cases x) simp_all

section \<open>Lists\<close>

lemma distinct_singleton: "distinct xs \<Longrightarrow> set xs = {x} \<Longrightarrow> xs = [x]"
  by (cases xs; cases "tl xs") auto

lemma find_SomeD: "find P xs = Some x \<Longrightarrow> x \<in> set xs \<and> P x"
  by (auto simp: find_Some_iff)

section \<open>Choosing a minimum\<close>

text \<open>\<^verbatim>\<open>min(xs, key=f)\<close>: the first element with the least key; an empty list raises.\<close>

fun min_by_aux :: "('a \<Rightarrow> 'b::linorder) \<Rightarrow> 'a \<Rightarrow> 'a list \<Rightarrow> 'a" where
  "min_by_aux f b [] = b"
| "min_by_aux f b (x # xs) = min_by_aux f (if f x < f b then x else b) xs"

definition min_by :: "('a \<Rightarrow> 'b::linorder) \<Rightarrow> 'a list \<Rightarrow> 'a option" where
  "min_by f xs = (case xs of [] \<Rightarrow> None | x # ys \<Rightarrow> Some (min_by_aux f x ys))"

lemma min_by_aux_least: "f (min_by_aux f b xs) \<le> f b \<and> (\<forall>x \<in> set xs. f (min_by_aux f b xs) \<le> f x)"
proof (induction xs arbitrary: b)
  case (Cons x xs)
  show ?case
  proof (cases "f x < f b")
    case True
    with Cons.IH [of x] show ?thesis by auto
  next
    case False
    with Cons.IH [of b] show ?thesis by (auto simp: not_less)
  qed
qed simp

lemma min_by_aux_mem: "min_by_aux f b xs \<in> insert b (set xs)"
proof (induction xs arbitrary: b)
  case (Cons x xs)
  from Cons.IH [of x] Cons.IH [of b] show ?case by auto
qed simp

lemma min_by_None [simp]: "min_by f xs = None \<longleftrightarrow> xs = []"
  by (auto simp: min_by_def split: list.splits)

lemma min_by_mem: "min_by f xs = Some m \<Longrightarrow> m \<in> set xs"
  using min_by_aux_mem by (fastforce simp: min_by_def split: list.splits)

lemma min_by_le: "min_by f xs = Some m \<Longrightarrow> x \<in> set xs \<Longrightarrow> f m \<le> f x"
  using min_by_aux_least by (fastforce simp: min_by_def split: list.splits)

lemma min_by_unique:
  assumes "min_by f xs = Some m" and "x \<in> set xs" and "\<forall>y \<in> set xs. f x \<le> f y"
    and "inj_on f (set xs)"
  shows "m = x"
  using assms min_by_mem [OF assms(1)] min_by_le [OF assms(1,2)]
  by (meson antisym inj_onD)

end
