(* ===== verification/Content.thy ===== *)
theory Content
  imports Prelude
begin

text \<open>
  The study content: \<^verbatim>\<open>models/content.py\<close> (JLPT levels, kana, kanji, vocabulary, ids), \<^verbatim>\<open>text.py\<close>
  (which characters are kanji) and \<^verbatim>\<open>services/kanji_levels.py\<close> (the JLPT level of a kanji, derived
  from the words that use it).
\<close>

section \<open>JLPT levels\<close>

datatype jlpt_level = N1 | N2 | N3 | N4 | N5

fun level_value :: "jlpt_level \<Rightarrow> int" where
  "level_value N1 = 1"
| "level_value N2 = 2"
| "level_value N3 = 3"
| "level_value N4 = 4"
| "level_value N5 = 5"

text \<open>\<^verbatim>\<open>JlptLevel(n)\<close>: the member with that value; any other int raises \<^verbatim>\<open>ValueError\<close>.\<close>

definition level_of_value :: "int \<Rightarrow> jlpt_level option" where
  "level_of_value n =
     (if n = 1 then Some N1 else if n = 2 then Some N2 else if n = 3 then Some N3
      else if n = 4 then Some N4 else if n = 5 then Some N5 else None)"

lemma level_of_value [simp]: "level_of_value (level_value l) = Some l"
  by (cases l) (simp_all add: level_of_value_def)

lemma level_value_inject [simp]: "level_value k = level_value l \<longleftrightarrow> k = l"
  by (cases k; cases l) simp_all

lemma level_value_bounds: "1 \<le> level_value l" "level_value l \<le> 5"
  by (cases l; simp)+

text \<open>\<^verbatim>\<open>JlptLevel\<close> is an \<^verbatim>\<open>IntEnum\<close>: levels compare by value, so the easiest (\<open>N5\<close>) is the greatest.\<close>

instantiation jlpt_level :: linorder
begin

definition less_eq_jlpt_level :: "jlpt_level \<Rightarrow> jlpt_level \<Rightarrow> bool" where
  "k \<le> l \<longleftrightarrow> level_value k \<le> level_value l"

definition less_jlpt_level :: "jlpt_level \<Rightarrow> jlpt_level \<Rightarrow> bool" where
  "k < l \<longleftrightarrow> level_value k < level_value l"

instance
  by standard (auto simp: less_eq_jlpt_level_def less_jlpt_level_def)

end

instantiation jlpt_level :: finite
begin

instance
proof
  have "(UNIV :: jlpt_level set) \<subseteq> {N1, N2, N3, N4, N5}"
    using jlpt_level.exhaust by blast
  then show "finite (UNIV :: jlpt_level set)" by (rule finite_subset) simp
qed

end

lemmas jlpt_level_order = less_eq_jlpt_level_def less_jlpt_level_def

definition level_label :: "jlpt_level \<Rightarrow> ustr" where
  "level_label l = lit ''N'' @ dec (nat (level_value l))"

definition study_order :: "jlpt_level list" where
  "study_order = [N5, N4, N3, N2, N1]"

text \<open>\<^verbatim>\<open>re.compile(r"jlpt_N([1-5])").fullmatch(tag)\<close>, then \<^verbatim>\<open>cls(int(match.group(1)))\<close>.\<close>

definition from_tag :: "ustr \<Rightarrow> jlpt_level option" where
  "from_tag tag =
     (case drop 6 tag of
        [c] \<Rightarrow> if take 6 tag = lit ''jlpt_N'' \<and> 49 \<le> c \<and> c \<le> 53
               then level_of_value (int c - 48) else None
      | _ \<Rightarrow> None)"

lemma level_label_digit: "level_label l = lit ''N'' @ [48 + nat (level_value l)]"
  using level_value_bounds [of l] by (simp add: level_label_def dec.simps)

lemma level_label_inject [simp]: "level_label k = level_label l \<longleftrightarrow> k = l"
  by (cases k; cases l) (simp_all add: level_label_digit)

lemma set_study_order [simp]: "set study_order = UNIV"
proof -
  have "l \<in> set study_order" for l by (cases l) (simp_all add: study_order_def)
  then show ?thesis by blast
qed

lemma distinct_study_order [simp]: "distinct study_order"
  by (simp add: study_order_def)

section \<open>Content models\<close>

datatype kana_script = HIRAGANA | KATAKANA

fun script_value :: "kana_script \<Rightarrow> ustr" where
  "script_value HIRAGANA = lit ''hira''"
| "script_value KATAKANA = lit ''kata''"

datatype kana_kind = BASIC | DAKUTEN | YOUON

record ruby_segment =
  seg_base :: ustr
  seg_reading :: "ustr option"
  seg_highlighted :: bool

record sentence =
  segments :: "ruby_segment list"
  english :: ustr

record kana =
  kana_item_id :: ustr
  kana_script :: kana_script
  kana_char :: ustr
  kana_romaji :: ustr
  kana_kind :: kana_kind
  kana_group :: ustr

record kanji_details =
  meanings :: "ustr list"
  on_readings :: "ustr list"
  kun_readings :: "ustr list"
  stroke_count :: "int option"
  grade :: "int option"
  frequency :: "int option"
  radical :: "int option"

record kanji = kanji_details +
  kanji_item_id :: ustr
  kanji_char :: ustr
  kanji_level :: "jlpt_level option"

record vocab =
  vocab_item_id :: ustr
  expression :: ustr
  reading :: ustr
  reading_segments :: "ruby_segment list"
  meaning :: ustr
  additional_definitions :: ustr
  part_of_speech :: "ustr list"
  tags :: "ustr list"
  vocab_level :: jlpt_level
  vocab_sentence :: "sentence option"

definition usually_kana :: "vocab \<Rightarrow> bool" where
  "usually_kana v \<longleftrightarrow> lit ''usually_kana'' \<in> set (tags v)"

datatype item = KanaItem kana | KanjiItem kanji | VocabItem vocab

record imported_deck =
  deck_vocab :: "vocab list"
  deck_sha256 :: ustr

definition kana_id :: "kana_script \<Rightarrow> ustr \<Rightarrow> ustr" where
  "kana_id script ch = lit ''kana:'' @ script_value script @ lit '':'' @ ch"

definition kanji_id :: "ustr \<Rightarrow> ustr" where
  "kanji_id ch = lit ''kanji:'' @ ch"

definition vocab_id :: "ustr \<Rightarrow> ustr \<Rightarrow> ustr" where
  "vocab_id expr rdg = lit ''vocab:'' @ expr @ lit '':'' @ rdg"

lemma kana_id_inject [simp, key_facts]:
  "kana_id s c = kana_id s' c' \<longleftrightarrow> s = s' \<and> c = c'"
  by (cases s; cases s') (simp_all add: kana_id_def lit_def)

lemma kanji_id_inject [simp, key_facts]: "kanji_id c = kanji_id c' \<longleftrightarrow> c = c'"
  by (simp add: kanji_id_def)

lemma ids_disjoint [simp, key_facts]:
  "kana_id s c \<noteq> kanji_id d" "kana_id s c \<noteq> vocab_id e r" "kanji_id d \<noteq> vocab_id e r"
  "kanji_id d \<noteq> kana_id s c" "vocab_id e r \<noteq> kana_id s c" "vocab_id e r \<noteq> kanji_id d"
  by (simp_all add: kana_id_def kanji_id_def vocab_id_def lit_def)

section \<open>Kanji in a text\<close>

definition is_kanji :: "ustr \<Rightarrow> bool" where
  "is_kanji ch \<longleftrightarrow> length ch = 1 \<and>
     (([0x4E00] \<le> ch \<and> ch \<le> [0x9FFF]) \<or> ([0x3400] \<le> ch \<and> ch \<le> [0x4DBF]))"

definition extract_kanji :: "ustr \<Rightarrow> ustr list" where
  "extract_kanji txt = filter is_kanji (map (\<lambda>c. [c]) txt)"

lemma is_kanji_single: "is_kanji [c] \<longleftrightarrow> (0x4E00 \<le> c \<and> c \<le> 0x9FFF) \<or> (0x3400 \<le> c \<and> c \<le> 0x4DBF)"
  by (auto simp: is_kanji_def)

lemma extract_kanji_append: "extract_kanji (s @ t) = extract_kanji s @ extract_kanji t"
  by (simp add: extract_kanji_def)

section \<open>Levels of kanji, derived from the vocabulary\<close>

definition note_level :: "jlpt_level \<Rightarrow> ustr \<Rightarrow> (ustr \<times> jlpt_level) list \<Rightarrow> (ustr \<times> jlpt_level) list" where
  "note_level lev ch levels =
     (case map_of levels ch of
        None \<Rightarrow> AList.update ch lev levels
      | Some current \<Rightarrow> if current < lev then AList.update ch lev levels else levels)"

fun derive_levels_loop :: "(ustr \<times> jlpt_level) list \<Rightarrow> vocab list \<Rightarrow> (ustr \<times> jlpt_level) list" where
  "derive_levels_loop levels [] = levels"
| "derive_levels_loop levels (v # vs) =
     derive_levels_loop (fold (note_level (vocab_level v)) (extract_kanji (expression v)) levels) vs"

definition derive_kanji_levels :: "vocab list \<Rightarrow> (ustr \<times> jlpt_level) list" where
  "derive_kanji_levels vs = derive_levels_loop [] vs"

definition levels_using :: "vocab list \<Rightarrow> ustr \<Rightarrow> jlpt_level set" where
  "levels_using vs ch = {vocab_level v | v. v \<in> set vs \<and> ch \<in> set (extract_kanji (expression v))}"

lemma note_level_lookup [step_facts]:
  "map_of (note_level l c m) d =
     (if c = d then Some (case map_of m c of None \<Rightarrow> l | Some k \<Rightarrow> max k l) else map_of m d)"
  by (auto simp: note_level_def update_conv' max_def split: option.splits)

lemma note_level_distinct: "distinct (map fst m) \<Longrightarrow> distinct (map fst (note_level l c m))"
  by (auto simp: note_level_def distinct_update split: option.splits)

lemma fold_note_level_lookup:
  "map_of (fold (note_level l) cs m) d =
     (if d \<in> set cs then Some (case map_of m d of None \<Rightarrow> l | Some k \<Rightarrow> max k l) else map_of m d)"
  by (induction cs arbitrary: m) (auto simp: note_level_lookup split: option.splits)

lemma derive_levels_loop_lookup:
  "map_of (derive_levels_loop m vs) d =
     (let ls = levels_using vs d \<union> set_option (map_of m d) in if ls = {} then None else Some (Max ls))"
proof (induction vs arbitrary: m)
  case Nil
  then show ?case by (cases "map_of m d") (simp_all add: levels_using_def)
next
  case (Cons v vs)
  let ?m = "fold (note_level (vocab_level v)) (extract_kanji (expression v)) m"
  have split: "levels_using (v # vs) d =
      (if d \<in> set (extract_kanji (expression v)) then {vocab_level v} else {}) \<union> levels_using vs d"
    by (auto simp: levels_using_def)
  have mx: "Max (insert (max k l) (levels_using vs d)) = max k (Max (insert l (levels_using vs d)))"
    for k l
    by (cases "levels_using vs d = {}") (simp_all add: ac_simps)
  show ?case
    by (cases "map_of m d")
      (auto simp: Cons.IH split fold_note_level_lookup Let_def mx insert_commute Un_commute)
qed

lemma derive_kanji_levels_lookup:
  "map_of (derive_kanji_levels vs) ch =
     (if levels_using vs ch = {} then None else Some (Max (levels_using vs ch)))"
  by (simp add: derive_kanji_levels_def derive_levels_loop_lookup Let_def)

lemma derive_levels_loop_distinct:
  "distinct (map fst m) \<Longrightarrow> distinct (map fst (derive_levels_loop m vs))"
proof (induction vs arbitrary: m)
  case (Cons v vs)
  have "distinct (map fst (fold (note_level l) cs m))" if "distinct (map fst m)" for l cs m
    using that by (induction cs arbitrary: m) (auto intro: note_level_distinct)
  with Cons show ?case by simp
qed simp

lemma derive_kanji_levels_distinct [simp]: "distinct (map fst (derive_kanji_levels vs))"
  by (simp add: derive_kanji_levels_def derive_levels_loop_distinct)

lemma derive_kanji_levels_kanji: "ch \<in> fst ` set (derive_kanji_levels vs) \<Longrightarrow> is_kanji ch"
proof -
  assume "ch \<in> fst ` set (derive_kanji_levels vs)"
  then have "map_of (derive_kanji_levels vs) ch \<noteq> None" by (simp add: map_of_eq_None_iff)
  then show "is_kanji ch"
    by (auto simp: derive_kanji_levels_lookup levels_using_def extract_kanji_def split: if_splits)
qed

end
