(* ===== verification/PyFloat.thy ===== *)
theory PyFloat
  imports Complex_Main Prelude "HOL-Library.Log_Nat"
begin

text \<open>
  Python \<^verbatim>\<open>float\<close> arithmetic.  A float is the rational number it denotes; an operation on floats
  is the exact operation followed by \<open>fl\<close>, rounding to 53 significant bits, ties to even.  The
  exponent range is left unbounded: the values of this program (shares of cards, seconds, days)
  are far from overflow and underflow.  The laws of rounding the components rely on are the locale
  \<open>rounding\<close>, interpreted for \<open>fl\<close>; the properties that compare shares with thresholds use only
  those laws.
\<close>

section \<open>Rounding to 53 bits\<close>

definition round_half_even :: "rat \<Rightarrow> int" where
  "round_half_even x =
     (let f = \<lfloor>x\<rfloor>; d = x - of_int f
      in if d < 1 / 2 then f else if 1 / 2 < d then f + 1 else if even f then f else f + 1)"

definition binexp :: "rat \<Rightarrow> int" where
  "binexp x =
     (case quotient_of x of (n, d) \<Rightarrow>
        let k = bitlen n - bitlen d in if 2 powi k \<le> x then k else k - 1)"

definition fl_pos :: "rat \<Rightarrow> rat" where
  "fl_pos x = (let q = 2 powi (binexp x - 52) in of_int (round_half_even (x / q)) * q)"

definition fl :: "rat \<Rightarrow> rat" where
  "fl x = (if x = 0 then 0 else if 0 < x then fl_pos x else - fl_pos (- x))"

definition is_double :: "rat \<Rightarrow> bool" where
  "is_double x \<longleftrightarrow> fl x = x"

text \<open>\<^verbatim>\<open>a / b\<close> on two ints (\<open>b \<noteq> 0\<close>) is the correctly rounded quotient.\<close>

definition fdiv :: "int \<Rightarrow> int \<Rightarrow> rat" where
  "fdiv a b = fl (of_int a / of_int b)"

lemma round_half_even_int [simp]: "round_half_even (of_int n) = n"
  by (simp add: round_half_even_def Let_def)

lemma round_half_even_bounds: "\<lfloor>x\<rfloor> \<le> round_half_even x" "round_half_even x \<le> \<lfloor>x\<rfloor> + 1"
  by (auto simp: round_half_even_def Let_def)

lemma round_half_even_mono: "x \<le> y \<Longrightarrow> round_half_even x \<le> round_half_even y"
proof -
  assume le: "x \<le> y"
  show ?thesis
  proof (cases "\<lfloor>x\<rfloor> = \<lfloor>y\<rfloor>")
    case True
    with le show ?thesis by (auto simp: round_half_even_def Let_def)
  next
    case False
    with le have "\<lfloor>x\<rfloor> + 1 \<le> \<lfloor>y\<rfloor>" using floor_mono [OF le] by linarith
    then show ?thesis using round_half_even_bounds [of x] round_half_even_bounds [of y] by linarith
  qed
qed

lemma round_half_even_ge: "of_int n \<le> x \<Longrightarrow> n \<le> round_half_even x"
  using round_half_even_mono [of "of_int n" x] by simp

lemma round_half_even_le: "x \<le> of_int n \<Longrightarrow> round_half_even x \<le> n"
  using round_half_even_mono [of x "of_int n"] by simp

lemma bitlen_powi:
  "0 < n \<Longrightarrow> (2::rat) powi (bitlen n - 1) \<le> of_int n \<and> (of_int n :: rat) < 2 powi bitlen n"
proof -
  assume n: "0 < n"
  then have "0 \<le> log 2 (real_of_int n)" by simp
  then have "0 \<le> \<lfloor>log 2 (real_of_int n)\<rfloor>" by simp
  moreover have "bitlen n = \<lfloor>log 2 (real_of_int n)\<rfloor> + 1"
    using n by (simp add: bitlen_def floorlog_def)
  ultimately have "0 < bitlen n" by linarith
  moreover have "2 ^ nat (bitlen n - 1) \<le> n" "n < 2 ^ nat (bitlen n)"
    using bitlen_bounds [OF n] by auto
  then have "(2::rat) ^ nat (bitlen n - 1) \<le> of_int n" "of_int n < (2::rat) ^ nat (bitlen n)"
    by (metis of_int_le_iff of_int_numeral of_int_power, metis of_int_less_iff of_int_numeral of_int_power)
  ultimately show ?thesis by (simp add: power_int_def)
qed

lemma binexp_bounds:
  assumes "0 < x"
  shows "2 powi binexp x \<le> x" "x < 2 powi (binexp x + 1)"
proof -
  obtain n d where q: "quotient_of x = (n, d)" by fastforce
  have d: "0 < d" using q quotient_of_denom_pos by blast
  have x: "x = of_int n / of_int d" using q quotient_of_div by blast
  have n: "0 < n" using assms d x by (simp add: zero_less_divide_iff)
  define k where "k = bitlen n - bitlen d"
  note bn = bitlen_powi [OF n] and bd = bitlen_powi [OF d]
  have pos: "(0::rat) < 2 powi j" for j :: int by simp
  have lo: "2 powi (k - 1) < x"
  proof -
    have "(2::rat) powi (k - 1) * of_int d < 2 powi (k - 1) * 2 powi bitlen d"
      using bd pos by (intro mult_strict_left_mono) simp_all
    also have "\<dots> = 2 powi (bitlen n - 1)"
      by (simp add: power_int_add [symmetric] k_def)
    also have "\<dots> \<le> of_int n" using bn by simp
    finally show ?thesis using d by (simp add: x field_simps)
  qed
  have hi: "x < 2 powi (k + 1)"
  proof -
    have "of_int n < (2::rat) powi bitlen n" using bn by simp
    also have "\<dots> = 2 powi (k + 1) * 2 powi (bitlen d - 1)"
      by (simp add: power_int_add [symmetric] k_def)
    also have "\<dots> \<le> 2 powi (k + 1) * of_int d"
      using bd by (intro mult_left_mono) simp_all
    finally show ?thesis using d by (simp add: x field_simps)
  qed
  have b: "binexp x = (if 2 powi k \<le> x then k else k - 1)"
    using q by (simp add: binexp_def k_def Let_def)
  show "2 powi binexp x \<le> x" "x < 2 powi (binexp x + 1)"
    using lo hi by (auto simp: b)
qed

lemma binexp_unique:
  assumes "2 powi e \<le> x" "x < 2 powi (e + 1)"
  shows "binexp x = e"
proof -
  have x: "0 < x" using assms(1) by (rule less_le_trans [rotated]) simp
  have "\<not> e + 1 \<le> binexp x" "\<not> binexp x + 1 \<le> e"
    using binexp_bounds [OF x] assms power_int_increasing [of "e + 1" "binexp x" "2::rat"]
      power_int_increasing [of "binexp x + 1" e "2::rat"] by auto
  then show ?thesis by linarith
qed

lemma binexp_mono: "0 < x \<Longrightarrow> x \<le> y \<Longrightarrow> binexp x \<le> binexp y"
proof -
  assume x: "0 < x" and xy: "x \<le> y"
  have "2 powi binexp x \<le> y" using binexp_bounds(1) [OF x] xy by simp
  also have "y < 2 powi (binexp y + 1)" using x xy by (intro binexp_bounds) simp
  finally have "(2::rat) powi binexp x < 2 powi (binexp y + 1)" .
  then have "\<not> binexp y + 1 \<le> binexp x"
    using power_int_increasing [of "binexp y + 1" "binexp x" "2::rat"] by auto
  then show ?thesis by simp
qed

lemma scaled_bounds:
  assumes "0 < x"
  shows "2 ^ 52 \<le> round_half_even (x / 2 powi (binexp x - 52))"
    and "round_half_even (x / 2 powi (binexp x - 52)) \<le> 2 ^ 53"
proof -
  let ?q = "(2::rat) powi (binexp x - 52)"
  have q: "0 < ?q" by simp
  have e: "(2::rat) powi binexp x = 2 ^ 52 * ?q" "(2::rat) powi (binexp x + 1) = 2 ^ 53 * ?q"
    by (simp_all add: power_int_diff power_int_add)
  have "of_int (2 ^ 52) \<le> x / ?q" "x / ?q \<le> of_int (2 ^ 53)"
    using binexp_bounds [OF assms] q unfolding e by (simp_all add: pos_le_divide_eq pos_divide_le_eq)
  then show "2 ^ 52 \<le> round_half_even (x / ?q)" "round_half_even (x / ?q) \<le> 2 ^ 53"
    by - (rule round_half_even_ge round_half_even_le, assumption)+
qed

lemma fl_pos_bounds:
  assumes "0 < x"
  shows "2 powi binexp x \<le> fl_pos x" "fl_pos x \<le> 2 powi (binexp x + 1)"
proof -
  let ?q = "(2::rat) powi (binexp x - 52)" and ?m = "round_half_even (x / 2 powi (binexp x - 52))"
  have "(2::rat) ^ 52 \<le> of_int ?m" "of_int ?m \<le> (2::rat) ^ 53"
    using scaled_bounds [OF assms]
    by (metis of_int_le_iff of_int_numeral of_int_power)+
  then have "2 ^ 52 * ?q \<le> of_int ?m * ?q" "of_int ?m * ?q \<le> 2 ^ 53 * ?q"
    by (simp_all add: mult_right_mono)
  then show "2 powi binexp x \<le> fl_pos x" "fl_pos x \<le> 2 powi (binexp x + 1)"
    by (simp_all add: fl_pos_def Let_def power_int_diff power_int_add)
qed

lemma fl_pos_pos: "0 < x \<Longrightarrow> 0 < fl_pos x"
  using fl_pos_bounds(1) [of x] by (rule less_le_trans [rotated]) simp_all

lemma fl_pos_mono:
  assumes "0 < x" "x \<le> y"
  shows "fl_pos x \<le> fl_pos y"
proof (cases "binexp x = binexp y")
  case True
  have "x / 2 powi (binexp y - 52) \<le> y / 2 powi (binexp y - 52)"
    using assms by (intro divide_right_mono) simp_all
  then have "round_half_even (x / 2 powi (binexp y - 52)) \<le> round_half_even (y / 2 powi (binexp y - 52))"
    by (rule round_half_even_mono)
  then have "(of_int (round_half_even (x / 2 powi (binexp y - 52))) :: rat)
      \<le> of_int (round_half_even (y / 2 powi (binexp y - 52)))"
    by (simp only: of_int_le_iff)
  then show ?thesis
    unfolding fl_pos_def Let_def True by (rule mult_right_mono) simp
next
  case False
  with binexp_mono [OF assms] have "binexp x + 1 \<le> binexp y" by simp
  then have "(2::rat) powi (binexp x + 1) \<le> 2 powi binexp y" by (intro power_int_increasing) simp_all
  with fl_pos_bounds(2) [of x] fl_pos_bounds(1) [of y] assms show ?thesis by simp
qed

lemma fl_pos_exact:
  assumes "0 < x" and "x = of_int n * 2 powi (binexp x - 52)"
  shows "fl_pos x = x"
proof -
  have "x / 2 powi (binexp x - 52) = of_int n" using assms(2) by (metis nonzero_mult_div_cancel_right power_int_eq_0_iff zero_neq_numeral)
  then have "fl_pos x = of_int n * 2 powi (binexp x - 52)" by (simp add: fl_pos_def Let_def)
  with assms(2) show ?thesis by simp
qed

lemma fl_pos_idem:
  assumes x: "0 < x"
  shows "fl_pos (fl_pos x) = fl_pos x"
proof -
  let ?e = "binexp x" and ?m = "round_half_even (x / 2 powi (binexp x - 52))"
  have y: "fl_pos x = of_int ?m * 2 powi (?e - 52)" by (simp add: fl_pos_def Let_def)
  show ?thesis
  proof (cases "fl_pos x < 2 powi (?e + 1)")
    case True
    then have "binexp (fl_pos x) = ?e" using fl_pos_bounds [OF x] by (intro binexp_unique)
    with y show ?thesis by (intro fl_pos_exact [where n = ?m] fl_pos_pos x) simp
  next
    case False
    then have eq: "fl_pos x = 2 powi (?e + 1)" using fl_pos_bounds [OF x] by simp
    have "binexp (fl_pos x) = ?e + 1"
      unfolding eq by (rule binexp_unique) (simp_all add: power_int_add)
    then show ?thesis
      by (intro fl_pos_exact [where n = "2 ^ 52"] fl_pos_pos x) (simp_all add: eq power_int_diff power_int_add)
  qed
qed

lemma fl_neg [simp]: "fl (- x) = - fl x"
  by (auto simp: fl_def)

lemma fl_zero [simp]: "fl 0 = 0"
  by (simp add: fl_def)

lemma fl_sign: "0 < x \<Longrightarrow> 0 < fl x" "x < 0 \<Longrightarrow> fl x < 0"
  by (simp_all add: fl_def fl_pos_pos)

lemma fl_mono: "x \<le> y \<Longrightarrow> fl x \<le> fl y"
proof -
  assume xy: "x \<le> y"
  consider "0 < x" | "x \<le> 0" "0 \<le> y" | "y < 0" by linarith
  then show ?thesis
  proof cases
    case 1
    with xy show ?thesis by (simp add: fl_def fl_pos_mono)
  next
    case 2
    then have "fl x \<le> 0" "0 \<le> fl y" using fl_sign(2) [of x] fl_sign(1) [of y] by fastforce+
    then show ?thesis by simp
  next
    case 3
    with xy show ?thesis using fl_pos_mono [of "- y" "- x"] by (simp add: fl_def)
  qed
qed

lemma fl_idem: "fl (fl x) = fl x"
proof -
  consider "x = 0" | "0 < x" | "x < 0" by linarith
  then show ?thesis
  proof cases
    case 2
    then show ?thesis by (simp add: fl_def fl_pos_pos fl_pos_idem)
  next
    case 3
    then show ?thesis using fl_pos_pos [of "- x"] by (simp add: fl_def fl_pos_idem)
  qed simp
qed

lemma is_double_fl [simp]: "is_double (fl x)"
  by (simp add: is_double_def fl_idem)

lemma is_double_nat: "n < 2 ^ 53 \<Longrightarrow> is_double (of_nat n)"
proof (cases "n = 0")
  case False
  assume n: "n < 2 ^ 53"
  let ?x = "of_nat n :: rat" and ?e = "binexp (of_nat n)"
  have x: "0 < ?x" using False by simp
  have "(2::rat) powi ?e < 2 powi 53"
  proof -
    have "?x < 2 ^ 53" using n by (metis of_nat_less_iff of_nat_numeral of_nat_power)
    with binexp_bounds(1) [OF x] show ?thesis by simp
  qed
  then have "\<not> 53 \<le> ?e" using power_int_increasing [of 53 ?e "2::rat"] by auto
  then have "?e \<le> 52" by simp
  then have "(2::rat) powi (52 - ?e) = of_int (2 ^ nat (52 - ?e))" by (simp add: power_int_def)
  then have "of_int (2 ^ nat (52 - ?e)) * (2::rat) powi (?e - 52) = 2 powi (52 - ?e) * 2 powi (?e - 52)"
    by simp
  also have "\<dots> = 1" by (simp add: power_int_add [symmetric])
  finally have "?x = of_int (int n * 2 ^ nat (52 - ?e)) * 2 powi (?e - 52)"
    by (simp add: mult.assoc)
  then have "fl_pos ?x = ?x" by (rule fl_pos_exact [OF x])
  with x show ?thesis by (simp add: is_double_def fl_def)
qed (simp add: is_double_def)

section \<open>The laws of rounding\<close>

locale rounding =
  fixes rnd :: "rat \<Rightarrow> rat"
  assumes rnd_mono: "x \<le> y \<Longrightarrow> rnd x \<le> rnd y"
    and rnd_idem: "rnd (rnd x) = rnd x"
    and rnd_zero: "rnd 0 = 0"
    and rnd_one: "rnd 1 = 1"
begin

lemma at_least: "rnd t = t \<Longrightarrow> t \<le> x \<Longrightarrow> t \<le> rnd x"
  using rnd_mono [of t x] by simp

lemma at_most: "rnd t = t \<Longrightarrow> x \<le> t \<Longrightarrow> rnd x \<le> t"
  using rnd_mono [of x t] by simp

lemma below: "rnd t = t \<Longrightarrow> rnd x < t \<Longrightarrow> x < t"
  using at_least [of t x] by linarith

lemma share_bounds: "0 \<le> a \<Longrightarrow> a \<le> b \<Longrightarrow> 0 < b \<Longrightarrow> 0 \<le> rnd (of_int a / of_int b) \<and> rnd (of_int a / of_int b) \<le> 1"
  using at_least [of 0 "of_int a / of_int b"] at_most [of 1 "of_int a / of_int b"]
  by (simp add: rnd_zero rnd_one)

lemma share_full: "0 < b \<Longrightarrow> rnd (of_int b / of_int b) = 1"
  by (simp add: rnd_one)

lemma share_mono: "a \<le> a' \<Longrightarrow> 0 < b \<Longrightarrow> rnd (of_int a / of_int b) \<le> rnd (of_int a' / of_int b)"
  by (intro rnd_mono divide_right_mono) simp_all

end

interpretation ieee: rounding fl
proof
  show "fl 1 = 1" using is_double_nat [of 1] by (simp add: is_double_def)
qed (simp_all add: fl_mono fl_idem)

lemma fdiv_bounds: "0 \<le> a \<Longrightarrow> a \<le> b \<Longrightarrow> 0 < b \<Longrightarrow> 0 \<le> fdiv a b \<and> fdiv a b \<le> 1"
  unfolding fdiv_def by (rule ieee.share_bounds)

lemma fdiv_full: "0 < b \<Longrightarrow> fdiv b b = 1"
  unfolding fdiv_def by (rule ieee.share_full)

lemma fdiv_mono: "a \<le> a' \<Longrightarrow> 0 < b \<Longrightarrow> fdiv a b \<le> fdiv a' b"
  unfolding fdiv_def by (rule ieee.share_mono)

lemma fdiv_zero [simp]: "fdiv 0 b = 0"
  by (simp add: fdiv_def)

end
