(* ===== verification/PyTime.thy ===== *)
theory PyTime
  imports Main
begin

text \<open>
  The part of Python's \<^verbatim>\<open>datetime\<close> and \<^verbatim>\<open>zoneinfo\<close> the program uses.  An instant is the number of
  microseconds since 0001-01-01T00:00Z; a wall time counts the same way on the local calendar.  A
  naive datetime has only a wall time.  An aware one is modelled by its instant: comparisons,
  differences and \<^verbatim>\<open>astimezone\<close> of aware datetimes depend on nothing else.  A time zone is what
  \<^verbatim>\<open>ZoneInfo\<close> reads from its data file: an initial UTC offset and the instants at which the offset
  changes.  Reading the offset at an instant finds the last change not after it; reading it at a
  wall time with \<^verbatim>\<open>fold=0\<close> uses \<^verbatim>\<open>ZoneInfo\<close>'s wall-clock table, in which a change at \<open>T\<close> from \<open>a\<close> to \<open>b\<close>
  takes effect at \<open>T + max a b\<close> (an ambiguous time is its first occurrence, a skipped time keeps
  the offset from before the gap).  The search is linear where \<^verbatim>\<open>zoneinfo\<close> bisects a sorted table.
  \<^verbatim>\<open>OverflowError\<close> at the ends of the calendar (years 1 and 9999) is not modelled.
\<close>

type_synonym instant = int

datatype datetime = Naive int | Aware instant

definition SECOND :: int where "SECOND = 1000000"
definition HOUR :: int where "HOUR = 3600000000"
definition DAY :: int where "DAY = 86400000000"

lemmas time_units = SECOND_def HOUR_def DAY_def

datatype tz = Tz int "(instant \<times> int) list"

definition UTC :: tz where
  "UTC = Tz 0 []"

fun offset_from :: "int \<Rightarrow> (instant \<times> int) list \<Rightarrow> instant \<Rightarrow> int" where
  "offset_from a [] t = a"
| "offset_from a ((T, b) # xs) t = (if t < T then a else offset_from b xs t)"

fun wall_offset_from :: "int \<Rightarrow> (instant \<times> int) list \<Rightarrow> int \<Rightarrow> int" where
  "wall_offset_from a [] w = a"
| "wall_offset_from a ((T, b) # xs) w = (if w < T + max a b then a else wall_offset_from b xs w)"

text \<open>\<^verbatim>\<open>instant.astimezone(tz)\<close> as a wall time, and the instant of a wall time with \<^verbatim>\<open>fold=0\<close>.\<close>

fun to_wall :: "tz \<Rightarrow> instant \<Rightarrow> int" where
  "to_wall (Tz a xs) t = t + offset_from a xs t"

fun from_wall :: "tz \<Rightarrow> int \<Rightarrow> instant" where
  "from_wall (Tz a xs) w = w - wall_offset_from a xs w"

lemma UTC_wall [simp]: "to_wall UTC t = t" "from_wall UTC w = w"
  by (simp_all add: UTC_def)

section \<open>Ordinary zones\<close>

text \<open>
  A change of offset makes the wall times between \<open>T + min a b\<close> and \<open>T + max a b\<close> ambiguous (the
  clock is set back) or skipped (it is set forward).  A zone is well formed when these intervals do
  not interleave.  A wall time is clear of a change when it is not strictly inside its interval, and
  shown by the clock when moreover it is not the first skipped one.
\<close>

fun separated_from :: "int \<Rightarrow> (instant \<times> int) list \<Rightarrow> bool" where
  "separated_from a [] = True"
| "separated_from a [(T, b)] = True"
| "separated_from a ((T, b) # (T', c) # xs) =
     (T < T' \<and> T + max a b \<le> T' + min b c \<and> separated_from b ((T', c) # xs))"

fun zone_ok :: "tz \<Rightarrow> bool" where
  "zone_ok (Tz a xs) = separated_from a xs"

fun clear_from :: "int \<Rightarrow> (instant \<times> int) list \<Rightarrow> int \<Rightarrow> bool" where
  "clear_from a [] w = True"
| "clear_from a ((T, b) # xs) w = (\<not> (T + min a b < w \<and> w < T + max a b) \<and> clear_from b xs w)"

fun shown_from :: "int \<Rightarrow> (instant \<times> int) list \<Rightarrow> int \<Rightarrow> bool" where
  "shown_from a [] w = True"
| "shown_from a ((T, b) # xs) w = (\<not> (T + a \<le> w \<and> w < T + b) \<and> shown_from b xs w)"

fun clear_wall :: "tz \<Rightarrow> int \<Rightarrow> bool" where
  "clear_wall (Tz a xs) w = clear_from a xs w"

fun shown_wall :: "tz \<Rightarrow> int \<Rightarrow> bool" where
  "shown_wall (Tz a xs) w = shown_from a xs w"

lemma separated_tail: "separated_from a ((T, b) # xs) \<Longrightarrow> separated_from b xs"
  by (cases xs) auto

lemma wall_after_change:
  "separated_from a ((T, b) # xs) \<Longrightarrow> T \<le> t \<Longrightarrow> T + min a b \<le> t + offset_from b xs t"
proof (induction xs arbitrary: a T b)
  case (Cons x xs)
  obtain T' c where x: "x = (T', c)" by fastforce
  show ?case
  proof (cases "t < T'")
    case False
    with Cons.prems x have "T' + min b c \<le> t + offset_from c xs t"
      by (intro Cons.IH) auto
    with False Cons.prems x show ?thesis by auto
  qed (use Cons.prems x in auto)
qed auto

lemma instant_after_change:
  "separated_from a ((T, b) # xs) \<Longrightarrow> T + b \<le> w \<Longrightarrow> T \<le> w - wall_offset_from b xs w"
proof (induction xs arbitrary: a T b)
  case (Cons x xs)
  obtain T' c where x: "x = (T', c)" by fastforce
  show ?case
  proof (cases "w < T' + max b c")
    case False
    with Cons.prems x have "T' \<le> w - wall_offset_from c xs w"
      by (intro Cons.IH) auto
    with False Cons.prems x show ?thesis by auto
  qed (use Cons.prems x in auto)
qed auto

lemma wall_instant_galois_from:
  "separated_from a xs \<Longrightarrow> clear_from a xs w \<Longrightarrow>
     w - wall_offset_from a xs w \<le> t \<longleftrightarrow> w \<le> t + offset_from a xs t"
proof (induction xs arbitrary: a)
  case (Cons x xs)
  obtain T b where x: "x = (T, b)" by fastforce
  have IH: "w - wall_offset_from b xs w \<le> t \<longleftrightarrow> w \<le> t + offset_from b xs t"
    using Cons.prems x separated_tail by (intro Cons.IH) auto
  consider "t < T" "w < T + max a b" | "t < T" "T + max a b \<le> w"
    | "T \<le> t" "w < T + max a b" | "T \<le> t" "T + max a b \<le> w" by linarith
  then show ?case
  proof cases
    case 2
    then have "T \<le> w - wall_offset_from b xs w"
      using Cons.prems x by (intro instant_after_change [of a]) auto
    with 2 x show ?thesis by auto
  next
    case 3
    then have "T + min a b \<le> t + offset_from b xs t"
      using Cons.prems x by (intro wall_after_change) auto
    with 3 Cons.prems x show ?thesis by auto
  qed (use x IH in auto)
qed auto

text \<open>
  For a clear wall time, ``not before that instant'' and ``the clock shows at least that'' are the
  same: the clock cannot pass a clear wall time twice.
\<close>

lemma wall_instant_galois:
  "zone_ok z \<Longrightarrow> clear_wall z w \<Longrightarrow> from_wall z w \<le> t \<longleftrightarrow> w \<le> to_wall z t"
  by (cases z) (simp add: wall_instant_galois_from)

lemma from_wall_mono:
  assumes "zone_ok z" "clear_wall z v" "clear_wall z w" "v \<le> w"
  shows "from_wall z v \<le> from_wall z w"
  using assms wall_instant_galois [of z w "from_wall z w"] wall_instant_galois [of z v "from_wall z w"]
  by simp

lemma to_wall_from_wall_from:
  "separated_from a xs \<Longrightarrow> clear_from a xs w \<Longrightarrow> shown_from a xs w \<Longrightarrow>
     (w - wall_offset_from a xs w) + offset_from a xs (w - wall_offset_from a xs w) = w"
proof (induction xs arbitrary: a)
  case (Cons x xs)
  obtain T b where x: "x = (T, b)" by fastforce
  show ?case
  proof (cases "w < T + max a b")
    case True
    with Cons.prems x show ?thesis by auto
  next
    case False
    then have "T \<le> w - wall_offset_from b xs w"
      using Cons.prems x by (intro instant_after_change [of a]) auto
    moreover have "(w - wall_offset_from b xs w) + offset_from b xs (w - wall_offset_from b xs w) = w"
      using Cons.prems x separated_tail by (intro Cons.IH) auto
    ultimately show ?thesis using False x by simp
  qed
qed auto

lemma to_wall_from_wall: "zone_ok z \<Longrightarrow> clear_wall z w \<Longrightarrow> shown_wall z w \<Longrightarrow> to_wall z (from_wall z w) = w"
  by (cases z) (simp add: to_wall_from_wall_from)

section \<open>Times of day\<close>

text \<open>Whether the daily wall time \<open>h\<close> (microseconds after midnight) is clear of, or shown at, every change.\<close>

fun daily_clear_from :: "int \<Rightarrow> (instant \<times> int) list \<Rightarrow> int \<Rightarrow> bool" where
  "daily_clear_from a [] h = True"
| "daily_clear_from a ((T, b) # xs) h =
     ((T + max a b - 1 - h) div DAY \<le> (T + min a b - h) div DAY \<and> daily_clear_from b xs h)"

fun daily_shown_from :: "int \<Rightarrow> (instant \<times> int) list \<Rightarrow> int \<Rightarrow> bool" where
  "daily_shown_from a [] h = True"
| "daily_shown_from a ((T, b) # xs) h =
     ((b \<le> a \<or> (T + b - 1 - h) div DAY \<le> (T + a - 1 - h) div DAY) \<and> daily_shown_from b xs h)"

fun daily_clear :: "tz \<Rightarrow> int \<Rightarrow> bool" where
  "daily_clear (Tz a xs) h = daily_clear_from a xs h"

fun daily_shown :: "tz \<Rightarrow> int \<Rightarrow> bool" where
  "daily_shown (Tz a xs) h = daily_shown_from a xs h"

lemma DAY_pos [simp]: "0 < DAY" "DAY \<noteq> 0"
  by (simp_all add: DAY_def)

lemma le_div_DAY_iff: "k \<le> x div DAY \<longleftrightarrow> k * DAY \<le> x"
proof
  assume "k \<le> x div DAY"
  then have "k * DAY \<le> x div DAY * DAY" by (simp add: mult_right_mono)
  also have "\<dots> \<le> x" using pos_mod_sign [of DAY x, OF DAY_pos(1)] div_mult_mod_eq [of x DAY] by linarith
  finally show "k * DAY \<le> x" .
next
  assume "k * DAY \<le> x"
  then have "k * DAY div DAY \<le> x div DAY" by (rule zdiv_mono1) simp
  then show "k \<le> x div DAY" by simp
qed

lemma div_DAY_less_iff: "x div DAY < k \<longleftrightarrow> x < k * DAY"
  using le_div_DAY_iff [of k x] by linarith

lemma day_between:
  assumes "(hi - 1 - h) div DAY \<le> (lo - h) div DAY"
  shows "\<not> (lo < k * DAY + h \<and> k * DAY + h < hi)"
proof
  assume k: "lo < k * DAY + h \<and> k * DAY + h < hi"
  have "k \<le> (hi - 1 - h) div DAY" using k by (simp add: le_div_DAY_iff)
  moreover have "(lo - h) div DAY < k" using k by (simp add: div_DAY_less_iff)
  ultimately show False using assms by linarith
qed

lemma daily_clear_wall: "daily_clear z h \<Longrightarrow> clear_wall z (k * DAY + h)"
proof (cases z)
  case (Tz a xs)
  have "daily_clear_from a xs h \<Longrightarrow> clear_from a xs (k * DAY + h)"
    by (induction a xs h rule: daily_clear_from.induct) (simp_all only: clear_from.simps daily_clear_from.simps day_between simp_thms)
  with Tz show "daily_clear z h \<Longrightarrow> clear_wall z (k * DAY + h)" by simp
qed

lemma daily_shown_wall: "daily_shown z h \<Longrightarrow> shown_wall z (k * DAY + h)"
proof (cases z)
  case (Tz a xs)
  have "daily_shown_from a xs h \<Longrightarrow> shown_from a xs (k * DAY + h)"
  proof (induction a xs h rule: daily_shown_from.induct)
    case (2 a T b xs h)
    from 2 day_between [of "T + b" h "T + a - 1" k] show ?case by auto
  qed simp
  with Tz show "daily_shown z h \<Longrightarrow> shown_wall z (k * DAY + h)" by simp
qed

lemma UTC_ordinary [simp]: "zone_ok UTC" "daily_clear UTC h" "daily_shown UTC h"
  by (simp_all add: UTC_def)

end
