(* ===== verification/Review.thy ===== *)
theory Review
  imports Content PyFloat PyTime
begin

text \<open>
  \<^verbatim>\<open>models/review.py\<close>: item types, card directions, grades, scheduling states, card keys, schedules
  and catalogue entries, and the errors of the review engine.
\<close>

datatype item_type = KANA | KANJI | VOCAB

fun type_value :: "item_type \<Rightarrow> ustr" where
  "type_value KANA = lit ''kana''"
| "type_value KANJI = lit ''kanji''"
| "type_value VOCAB = lit ''vocab''"

text \<open>\<^verbatim>\<open>for item_type in ItemType\<close> goes through the members in this order.\<close>

definition item_types :: "item_type list" where
  "item_types = [KANA, KANJI, VOCAB]"

datatype card_direction =
  GLYPH_TO_SOUND | SOUND_TO_GLYPH | KANJI_TO_MEANING | KANJI_TO_READING | MEANING_TO_KANJI
| RECOGNITION | RECALL

fun direction_value :: "card_direction \<Rightarrow> ustr" where
  "direction_value GLYPH_TO_SOUND = lit ''glyph_to_sound''"
| "direction_value SOUND_TO_GLYPH = lit ''sound_to_glyph''"
| "direction_value KANJI_TO_MEANING = lit ''kanji_to_meaning''"
| "direction_value KANJI_TO_READING = lit ''kanji_to_reading''"
| "direction_value MEANING_TO_KANJI = lit ''meaning_to_kanji''"
| "direction_value RECOGNITION = lit ''recognition''"
| "direction_value RECALL = lit ''recall''"

definition card_directions :: "card_direction list" where
  "card_directions =
     [GLYPH_TO_SOUND, SOUND_TO_GLYPH, KANJI_TO_MEANING, KANJI_TO_READING, MEANING_TO_KANJI,
      RECOGNITION, RECALL]"

text \<open>\<^verbatim>\<open>CardDirection(value)\<close>; an unknown value raises \<^verbatim>\<open>ValueError\<close>.\<close>

definition direction_of_value :: "ustr \<Rightarrow> card_direction option" where
  "direction_of_value v = find (\<lambda>d. direction_value d = v) card_directions"

fun directions_by_type :: "item_type \<Rightarrow> card_direction list" where
  "directions_by_type KANA = [GLYPH_TO_SOUND, SOUND_TO_GLYPH]"
| "directions_by_type KANJI = [KANJI_TO_MEANING, KANJI_TO_READING, MEANING_TO_KANJI]"
| "directions_by_type VOCAB = [RECOGNITION, RECALL]"

text \<open>\<^verbatim>\<open>_TYPE_BY_DIRECTION\<close>: the inverse table, built by a comprehension over \<open>directions_by_type\<close>.\<close>

definition type_by_direction :: "(card_direction \<times> item_type) list" where
  "type_by_direction = concat (map (\<lambda>ty. map (\<lambda>d. (d, ty)) (directions_by_type ty)) item_types)"

definition direction_type :: "card_direction \<Rightarrow> item_type" where
  "direction_type d = the (map_of type_by_direction d)"

datatype card_grade = AGAIN | HARD | GOOD | EASY

fun grade_value :: "card_grade \<Rightarrow> int" where
  "grade_value AGAIN = 1"
| "grade_value HARD = 2"
| "grade_value GOOD = 3"
| "grade_value EASY = 4"

definition card_grades :: "card_grade list" where
  "card_grades = [AGAIN, HARD, GOOD, EASY]"

definition grade_of_value :: "int \<Rightarrow> card_grade option" where
  "grade_of_value n = find (\<lambda>g. grade_value g = n) card_grades"

datatype sched_state = NEW | LEARNING | REVIEW | RELEARNING

fun state_value :: "sched_state \<Rightarrow> int" where
  "state_value NEW = 0"
| "state_value LEARNING = 1"
| "state_value REVIEW = 2"
| "state_value RELEARNING = 3"

definition state_of_value :: "int \<Rightarrow> sched_state option" where
  "state_of_value n = find (\<lambda>s. state_value s = n) [NEW, LEARNING, REVIEW, RELEARNING]"

record card_key =
  key_item_id :: ustr
  key_direction :: card_direction

definition key_type :: "card_key \<Rightarrow> item_type" where
  "key_type k = direction_type (key_direction k)"

type_synonym pyfloat = rat

record card_schedule =
  sched_state :: sched_state
  sched_step :: "int option"
  sched_stability :: "pyfloat option"
  sched_difficulty :: "pyfloat option"
  sched_due :: instant
  sched_last_review :: "instant option"

record catalog_entry =
  entry_item_id :: ustr
  entry_type :: item_type
  entry_level :: "jlpt_level option"
  entry_position :: int

text \<open>The review errors the API maps to HTTP statuses; the message carries the key.\<close>

datatype review_error =
  StaleReview card_key | UnknownItem card_key | ContentNotReady ustr

abbreviation card :: "ustr \<Rightarrow> card_direction \<Rightarrow> card_key" where
  "card i d \<equiv> \<lparr>key_item_id = i, key_direction = d\<rparr>"

section \<open>The tables are inverse to each other\<close>

lemma set_card_directions [simp]: "set card_directions = UNIV"
proof -
  have "d \<in> set card_directions" for d by (cases d) (simp_all add: card_directions_def)
  then show ?thesis by blast
qed

lemma set_item_types [simp]: "set item_types = UNIV"
proof -
  have "t \<in> set item_types" for t by (cases t) (simp_all add: item_types_def)
  then show ?thesis by blast
qed

lemma set_card_grades [simp]: "set card_grades = UNIV"
proof -
  have "g \<in> set card_grades" for g by (cases g) (simp_all add: card_grades_def)
  then show ?thesis by blast
qed

lemma distinct_item_types [simp]: "distinct item_types"
  by (simp add: item_types_def)

lemma direction_value_inject [simp, key_facts]: "direction_value d = direction_value e \<longleftrightarrow> d = e"
  by (cases d; cases e) simp_all

lemma state_value_inject [simp]: "state_value s = state_value t \<longleftrightarrow> s = t"
  by (cases s; cases t) simp_all

lemma grade_value_inject [simp]: "grade_value g = grade_value h \<longleftrightarrow> g = h"
  by (cases g; cases h) simp_all

lemma direction_of_value [simp]: "direction_of_value (direction_value d) = Some d"
  by (cases d) (simp_all add: direction_of_value_def card_directions_def)

lemma direction_of_valueD: "direction_of_value v = Some d \<Longrightarrow> v = direction_value d"
  by (auto simp: direction_of_value_def find_Some_iff)

lemma state_of_value [simp]: "state_of_value (state_value s) = Some s"
  by (cases s) (simp_all add: state_of_value_def)

lemma state_of_valueD: "state_of_value n = Some s \<Longrightarrow> n = state_value s"
  by (auto simp: state_of_value_def split: if_splits)

lemma grade_of_value [simp]: "grade_of_value (grade_value g) = Some g"
  by (cases g) (simp_all add: grade_of_value_def card_grades_def)

lemma direction_type_simps [simp]:
  "direction_type GLYPH_TO_SOUND = KANA" "direction_type SOUND_TO_GLYPH = KANA"
  "direction_type KANJI_TO_MEANING = KANJI" "direction_type KANJI_TO_READING = KANJI"
  "direction_type MEANING_TO_KANJI = KANJI"
  "direction_type RECOGNITION = VOCAB" "direction_type RECALL = VOCAB"
  by (simp_all add: direction_type_def type_by_direction_def item_types_def)

lemma in_directions_by_type [simp]: "d \<in> set (directions_by_type t) \<longleftrightarrow> direction_type d = t"
  by (cases d; cases t) simp_all

lemma distinct_directions_by_type [simp]: "distinct (directions_by_type t)"
  by (cases t) simp_all

lemma directions_by_type_not_Nil [simp]: "directions_by_type t \<noteq> []"
  by (cases t) simp_all

lemma card_inject [simp, key_facts]: "card i d = card j e \<longleftrightarrow> i = j \<and> d = e"
  by simp

end
