(* ===== verification/Settings.thy ===== *)
theory Settings
  imports Review
begin

text \<open>
  \<^verbatim>\<open>models/review_settings.py\<close> and \<^verbatim>\<open>services/review_settings.py\<close>: the review settings document, its
  validation and its storage as one JSON text.  The JSON codec is pydantic's and a parameter: the
  decoder yields a document of the declared shape (\<open>None\<close> for malformed JSON, a missing type or a
  forbidden extra field), to which the declared constraints and the gate validator are applied.
\<close>

datatype new_card_policy_name = STRICT_ORDER | MASTERY_UNLOCK | PINNED_LEVELS

datatype review_mode_name = FLIP | TYPED | MULTIPLE_CHOICE

record new_limits =
  limit_kana :: int
  limit_kanji :: int
  limit_vocab :: int

fun limit_for_type :: "new_limits \<Rightarrow> item_type \<Rightarrow> int" where
  "limit_for_type l KANA = limit_kana l"
| "limit_for_type l KANJI = limit_kanji l"
| "limit_for_type l VOCAB = limit_vocab l"

record type_enabled =
  enabled_kana :: bool
  enabled_kanji :: bool
  enabled_vocab :: bool

fun enabled_for_type :: "type_enabled \<Rightarrow> item_type \<Rightarrow> bool" where
  "enabled_for_type e KANA = enabled_kana e"
| "enabled_for_type e KANJI = enabled_kanji e"
| "enabled_for_type e VOCAB = enabled_vocab e"

record kana_gate =
  gate_kanji :: bool
  gate_vocab :: bool
  gate_threshold :: pyfloat

fun gates :: "kana_gate \<Rightarrow> item_type \<Rightarrow> bool" where
  "gates g KANA = False"
| "gates g KANJI = gate_kanji g"
| "gates g VOCAB = gate_vocab g"

record review_settings =
  new_card_policy :: new_card_policy_name
  new_limits :: new_limits
  type_enabled :: type_enabled
  kana_gate :: kana_gate
  target_retention :: pyfloat
  rollover_hour :: int
  active_levels :: "jlpt_level list"
  mastery_threshold :: pyfloat
  kana_mode :: review_mode_name
  kanji_mode :: review_mode_name
  vocab_mode :: review_mode_name

definition default_limits :: new_limits where
  "default_limits = \<lparr>limit_kana = 20, limit_kanji = 15, limit_vocab = 20\<rparr>"

definition default_enabled :: type_enabled where
  "default_enabled = \<lparr>enabled_kana = True, enabled_kanji = True, enabled_vocab = True\<rparr>"

definition default_gate :: kana_gate where
  "default_gate = \<lparr>gate_kanji = False, gate_vocab = False, gate_threshold = fl (80 / 100)\<rparr>"

definition default_settings :: review_settings where
  "default_settings =
     \<lparr>new_card_policy = STRICT_ORDER, new_limits = default_limits, type_enabled = default_enabled,
      kana_gate = default_gate, target_retention = fl (90 / 100), rollover_hour = 4,
      active_levels = [N5], mastery_threshold = fl (80 / 100),
      kana_mode = FLIP, kanji_mode = FLIP, vocab_mode = FLIP\<rparr>"

definition levels :: "review_settings \<Rightarrow> jlpt_level set" where
  "levels s = set (active_levels s)"

fun mode_for :: "review_settings \<Rightarrow> item_type \<Rightarrow> review_mode_name" where
  "mode_for s KANA = kana_mode s"
| "mode_for s KANJI = kanji_mode s"
| "mode_for s VOCAB = vocab_mode s"

section \<open>Validation\<close>

datatype settings_error =
  LimitOutOfRange item_type | GateThresholdOutOfRange | KanaGateNeedsKana | RetentionOutOfRange
| RolloverOutOfRange | NoActiveLevels | MasteryOutOfRange

definition limits_errors :: "new_limits \<Rightarrow> settings_error list" where
  "limits_errors l =
     map LimitOutOfRange (filter (\<lambda>t. \<not> (0 \<le> limit_for_type l t \<and> limit_for_type l t \<le> 10000)) item_types)"

text \<open>\<^verbatim>\<open>_gates_need_kana\<close> runs once the gate's own field is valid.\<close>

definition gates_need_kana :: "type_enabled \<Rightarrow> kana_gate \<Rightarrow> settings_error list" where
  "gates_need_kana enabled gate =
     (if \<not> enabled_kana enabled \<and> (gate_kanji gate \<or> gate_vocab gate) then [KanaGateNeedsKana] else [])"

definition gate_errors :: "type_enabled \<Rightarrow> kana_gate \<Rightarrow> settings_error list" where
  "gate_errors enabled gate =
     (if \<not> (0 \<le> gate_threshold gate \<and> gate_threshold gate \<le> 1) then [GateThresholdOutOfRange]
      else gates_need_kana enabled gate)"

definition settings_errors :: "review_settings \<Rightarrow> settings_error list" where
  "settings_errors s =
     limits_errors (new_limits s)
     @ gate_errors (type_enabled s) (kana_gate s)
     @ (if fl (70 / 100) \<le> target_retention s \<and> target_retention s \<le> fl (99 / 100) then [] else [RetentionOutOfRange])
     @ (if 0 \<le> rollover_hour s \<and> rollover_hour s \<le> 23 then [] else [RolloverOutOfRange])
     @ (if active_levels s = [] then [NoActiveLevels] else [])
     @ (if 0 \<le> mastery_threshold s \<and> mastery_threshold s \<le> 1 then [] else [MasteryOutOfRange])"

definition settings_ok :: "review_settings \<Rightarrow> bool" where
  "settings_ok s \<longleftrightarrow> settings_errors s = []"

lemma settings_okD:
  assumes "settings_ok s"
  shows "0 \<le> limit_for_type (new_limits s) t" "limit_for_type (new_limits s) t \<le> 10000"
    "0 \<le> gate_threshold (kana_gate s)" "gate_threshold (kana_gate s) \<le> 1"
    "0 \<le> rollover_hour s" "rollover_hour s \<le> 23" "active_levels s \<noteq> []"
    "0 \<le> mastery_threshold s" "mastery_threshold s \<le> 1"
    "(\<exists>u. gates (kana_gate s) u) \<Longrightarrow> enabled_kana (type_enabled s)"
proof -
  have "\<forall>u. 0 \<le> limit_for_type (new_limits s) u \<and> limit_for_type (new_limits s) u \<le> 10000"
    using assms by (auto simp: settings_ok_def settings_errors_def limits_errors_def filter_empty_conv)
  then show "0 \<le> limit_for_type (new_limits s) t" "limit_for_type (new_limits s) t \<le> 10000" by auto
  show "enabled_kana (type_enabled s)" if "\<exists>u. gates (kana_gate s) u"
  proof -
    from that have "gate_kanji (kana_gate s) \<or> gate_vocab (kana_gate s)"
      by (metis gates.simps item_type.exhaust)
    then show ?thesis
      using assms by (auto simp: settings_ok_def settings_errors_def gate_errors_def gates_need_kana_def split: if_splits)
  qed
qed (use assms in \<open>auto simp: settings_ok_def settings_errors_def gate_errors_def split: if_splits\<close>)

lemma default_settings_ok [simp]: "settings_ok default_settings"
proof -
  have "fl (70 / 100) \<le> fl (90 / 100)" "fl (90 / 100) \<le> fl (99 / 100)" by (simp_all only: fl_mono)
  moreover have "0 \<le> fl (80 / 100)" "fl (80 / 100) \<le> 1"
    using ieee.at_least [of 0 "80 / 100"] ieee.at_most [of 1 "80 / 100"] by (simp_all add: ieee.rnd_zero ieee.rnd_one)
  ultimately show ?thesis
    by (simp add: settings_ok_def settings_errors_def default_settings_def default_limits_def
        limits_errors_def item_types_def gate_errors_def gates_need_kana_def default_gate_def default_enabled_def)
qed

section \<open>Storage\<close>

definition SETTINGS_KEY :: ustr where
  "SETTINGS_KEY = lit ''review_settings''"

text \<open>\<^verbatim>\<open>load\<close> on the stored text (\<open>None\<close> when never saved); the flag says whether a warning is logged.\<close>

definition load_settings :: "(ustr \<Rightarrow> review_settings option) \<Rightarrow> ustr option \<Rightarrow> review_settings \<times> bool" where
  "load_settings decode raw =
     (case raw of
        None \<Rightarrow> (default_settings, False)
      | Some txt \<Rightarrow>
          (case decode txt of
             None \<Rightarrow> (default_settings, True)
           | Some s \<Rightarrow> if settings_errors s = [] then (s, False) else (default_settings, True)))"

lemma load_settings_ok [simp]: "settings_ok (fst (load_settings decode raw))"
  by (auto simp: load_settings_def settings_ok_def split: option.splits)
    (simp_all flip: settings_ok_def)

lemma load_settings_saved:
  "decode txt = Some s \<Longrightarrow> settings_ok s \<Longrightarrow> load_settings decode (Some txt) = (s, False)"
  by (simp add: load_settings_def settings_ok_def)

end
