(* ===== verification/Policies.thy ===== *)
theory Policies
  imports Settings
begin

text \<open>
  \<^verbatim>\<open>services/new_card_policies.py\<close>: the three ways of choosing which new cards to introduce.  What the
  review session relies on (\<^verbatim>\<open>NewCardPolicy\<close> in \<^verbatim>\<open>services/protocols.py\<close>) is the locale
  \<open>card_policy\<close>, interpreted for the three policies.
\<close>

type_synonym states = "(card_key \<times> sched_state) list"

section \<open>Candidates\<close>

definition rank :: "jlpt_level option \<Rightarrow> int" where
  "rank lev = (case lev of None \<Rightarrow> -1 | Some l \<Rightarrow> int (length (takeWhile (\<lambda>k. k \<noteq> l) study_order)))"

definition study_position :: "catalog_entry \<Rightarrow> int \<times> int" where
  "study_position e = (rank (entry_level e), entry_position e)"

definition entry_keys :: "item_type \<Rightarrow> catalog_entry \<Rightarrow> card_key list" where
  "entry_keys ty e = map (card (entry_item_id e)) (directions_by_type ty)"

definition candidates ::
  "item_type \<Rightarrow> catalog_entry list \<Rightarrow> states \<Rightarrow> (catalog_entry \<Rightarrow> bool) \<Rightarrow> card_key list" where
  "candidates ty catalog states allowed =
     concat (map (\<lambda>e. if \<not> allowed e then []
                      else filter (\<lambda>k. map_of states k = None) (entry_keys ty e))
       (sort_key study_position catalog))"

definition take_limited :: "'a list \<Rightarrow> int option \<Rightarrow> 'a list" where
  "take_limited cs limit = (case limit of None \<Rightarrow> cs | Some n \<Rightarrow> take (nat (max n 0)) cs)"

section \<open>The policies\<close>

definition strict_select ::
  "item_type \<Rightarrow> catalog_entry list \<Rightarrow> states \<Rightarrow> int option \<Rightarrow> card_key list" where
  "strict_select ty catalog states limit = take_limited (candidates ty catalog states (\<lambda>_. True)) limit"

text \<open>The two \<^verbatim>\<open>Counter\<close>s of \<^verbatim>\<open>_unlocked_levels\<close>: all cards and the cards in Review, per level.\<close>

definition count_key :: "states \<Rightarrow> jlpt_level \<Rightarrow> card_key \<Rightarrow>
    (jlpt_level \<Rightarrow> int) \<times> (jlpt_level \<Rightarrow> int) \<Rightarrow> (jlpt_level \<Rightarrow> int) \<times> (jlpt_level \<Rightarrow> int)" where
  "count_key states l k = (\<lambda>(totals, mastered).
     (totals(l := totals l + 1),
      if map_of states k = Some REVIEW then mastered(l := mastered l + 1) else mastered))"

definition count_entry :: "item_type \<Rightarrow> states \<Rightarrow> catalog_entry \<Rightarrow>
    (jlpt_level \<Rightarrow> int) \<times> (jlpt_level \<Rightarrow> int) \<Rightarrow> (jlpt_level \<Rightarrow> int) \<times> (jlpt_level \<Rightarrow> int)" where
  "count_entry ty states e counts =
     (case entry_level e of None \<Rightarrow> counts | Some l \<Rightarrow> fold (count_key states l) (entry_keys ty e) counts)"

definition level_counts ::
  "item_type \<Rightarrow> catalog_entry list \<Rightarrow> states \<Rightarrow> (jlpt_level \<Rightarrow> int) \<times> (jlpt_level \<Rightarrow> int)" where
  "level_counts ty catalog states = fold (count_entry ty states) catalog (\<lambda>_. 0, \<lambda>_. 0)"

fun unlock_loop ::
  "(jlpt_level \<Rightarrow> int) \<Rightarrow> (jlpt_level \<Rightarrow> int) \<Rightarrow> pyfloat \<Rightarrow> jlpt_level list \<Rightarrow> jlpt_level set" where
  "unlock_loop totals mastered threshold [] = {}"
| "unlock_loop totals mastered threshold (l # ls) =
     insert l (if totals l \<noteq> 0 \<and> fdiv (mastered l) (totals l) < threshold then {}
               else unlock_loop totals mastered threshold ls)"

definition unlocked_levels ::
  "pyfloat \<Rightarrow> item_type \<Rightarrow> catalog_entry list \<Rightarrow> states \<Rightarrow> jlpt_level set" where
  "unlocked_levels threshold ty catalog states =
     (case level_counts ty catalog states of (totals, mastered) \<Rightarrow>
        unlock_loop totals mastered threshold study_order)"

definition level_in :: "jlpt_level set \<Rightarrow> catalog_entry \<Rightarrow> bool" where
  "level_in ls e = (case entry_level e of None \<Rightarrow> True | Some l \<Rightarrow> l \<in> ls)"

definition mastery_select ::
  "pyfloat \<Rightarrow> item_type \<Rightarrow> catalog_entry list \<Rightarrow> states \<Rightarrow> int option \<Rightarrow> card_key list" where
  "mastery_select threshold ty catalog states limit =
     take_limited (candidates ty catalog states (level_in (unlocked_levels threshold ty catalog states))) limit"

definition pinned_select ::
  "jlpt_level set \<Rightarrow> item_type \<Rightarrow> catalog_entry list \<Rightarrow> states \<Rightarrow> int option \<Rightarrow> card_key list" where
  "pinned_select pinned ty catalog states limit =
     take_limited (candidates ty catalog states (level_in pinned)) limit"

text \<open>\<^verbatim>\<open>factories.create_new_card_policy\<close>.\<close>

definition create_new_card_policy ::
  "review_settings \<Rightarrow> item_type \<Rightarrow> catalog_entry list \<Rightarrow> states \<Rightarrow> int option \<Rightarrow> card_key list" where
  "create_new_card_policy s =
     (case new_card_policy s of
        STRICT_ORDER \<Rightarrow> strict_select
      | MASTERY_UNLOCK \<Rightarrow> mastery_select (mastery_threshold s)
      | PINNED_LEVELS \<Rightarrow> pinned_select (levels s))"

section \<open>Facts about candidates\<close>

lemma rank_Some: "rank (Some l) = 5 - level_value l"
  by (cases l) (simp_all add: rank_def study_order_def)

lemma rank_None [simp]: "rank None = -1"
  by (simp add: rank_def)

lemma set_candidates:
  "k \<in> set (candidates ty catalog states allowed) \<longleftrightarrow>
     map_of states k = None \<and> (\<exists>e \<in> set catalog. allowed e \<and> k \<in> set (entry_keys ty e))"
  by (auto simp: candidates_def)

lemma in_entry_keys: "k \<in> set (entry_keys ty e) \<longleftrightarrow> key_item_id k = entry_item_id e \<and> key_type k = ty"
proof
  assume "k \<in> set (entry_keys ty e)"
  then show "key_item_id k = entry_item_id e \<and> key_type k = ty"
    by (auto simp: entry_keys_def key_type_def)
next
  assume k: "key_item_id k = entry_item_id e \<and> key_type k = ty"
  then have "key_direction k \<in> set (directions_by_type ty)" by (simp add: key_type_def)
  moreover have "k = card (entry_item_id e) (key_direction k)" using k by (cases k) simp
  ultimately show "k \<in> set (entry_keys ty e)" unfolding entry_keys_def by (metis image_eqI list.set_map)
qed

lemma distinct_entry_keys: "distinct (entry_keys ty e)"
  by (cases ty) (simp_all add: entry_keys_def)

lemma length_entry_keys: "length (entry_keys ty e) = length (directions_by_type ty)"
  by (simp add: entry_keys_def)

lemma distinct_candidates:
  assumes "distinct (map entry_item_id catalog)"
  shows "distinct (candidates ty catalog states allowed)"
proof -
  let ?f = "\<lambda>e. if \<not> allowed e then [] else filter (\<lambda>k. map_of states k = None) (entry_keys ty e)"
  have "distinct (concat (map ?f es))" if "distinct (map entry_item_id es)" for es
    using that
  proof (induction es)
    case (Cons e es)
    have "set (?f e) \<inter> set (concat (map ?f es)) = {}"
      using Cons.prems by (auto simp: in_entry_keys) (metis image_eqI)+
    with Cons distinct_entry_keys [of ty e] show ?case by (auto split: if_splits)
  qed simp
  moreover have "distinct (map entry_item_id (sort_key study_position catalog))"
    using assms by (simp add: distinct_map)
  ultimately show ?thesis unfolding candidates_def by blast
qed

text \<open>The entries the candidates come from, one per candidate, are in study order.\<close>

lemma candidates_in_order:
  "\<exists>es. map entry_item_id es = map key_item_id (candidates ty catalog states allowed)
     \<and> sorted (map study_position es) \<and> set es \<subseteq> {e \<in> set catalog. allowed e}"
proof -
  let ?keys = "\<lambda>e. if \<not> allowed e then [] else filter (\<lambda>k. map_of states k = None) (entry_keys ty e)"
  let ?es = "\<lambda>cs. concat (map (\<lambda>e. map (\<lambda>_. e) (?keys e)) cs)"
  have item: "map (\<lambda>_. entry_item_id e) (?keys e) = map key_item_id (?keys e)" for e
    by (rule map_cong [OF refl]) (auto simp: in_entry_keys split: if_splits)
  have ids: "map entry_item_id (?es cs) = map key_item_id (concat (map ?keys cs))" for cs
  proof (induction cs)
    case (Cons e cs)
    have "map entry_item_id (?es (e # cs)) = map (\<lambda>_. entry_item_id e) (?keys e) @ map entry_item_id (?es cs)"
      by (simp add: comp_def)
    also have "\<dots> = map key_item_id (?keys e) @ map key_item_id (concat (map ?keys cs))"
      by (simp only: item Cons.IH)
    finally show ?case by simp
  qed simp
  have mem: "set (?es cs) \<subseteq> {e \<in> set cs. allowed e}" for cs
    by (auto split: if_splits)
  have "sorted (map study_position (?es cs))" if "sorted (map study_position cs)" for cs
    using that
  proof (induction cs)
    case (Cons e cs)
    have const: "sorted (map study_position (map (\<lambda>_. e) ks))" for ks :: "card_key list"
      by (induction ks) auto
    have "study_position e \<le> study_position f" if "f \<in> set (?es cs)" for f
      using that mem [of cs] Cons.prems by auto
    with Cons const [of "?keys e"] show ?case
      by (simp add: sorted_append del: map_map)
  qed simp
  then have "sorted (map study_position (?es (sort_key study_position catalog)))" by simp
  with ids [of "sort_key study_position catalog"] mem [of "sort_key study_position catalog"]
  show ?thesis unfolding candidates_def by (intro exI [of _ "?es (sort_key study_position catalog)"]) simp
qed

lemma take_limited_prefix: "take_limited cs (Some n) = take (nat n) cs"
  by (simp add: take_limited_def max_def)

lemma set_take_limited: "set (take_limited cs limit) \<subseteq> set cs"
  by (auto simp: take_limited_def dest: in_set_takeD split: option.splits)

lemma take_limited_take: "\<exists>n. take_limited cs limit = take n cs"
  by (cases limit) (auto simp: take_limited_def intro: exI [of _ "length cs"])

section \<open>What every policy promises\<close>

locale card_policy =
  fixes select :: "item_type \<Rightarrow> catalog_entry list \<Rightarrow> states \<Rightarrow> int option \<Rightarrow> card_key list"
  assumes select_new: "k \<in> set (select ty catalog states limit) \<Longrightarrow> map_of states k = None"
    and select_catalog: "k \<in> set (select ty catalog states limit) \<Longrightarrow>
      key_type k = ty \<and> (\<exists>e \<in> set catalog. key_item_id k = entry_item_id e)"
    and select_limit: "select ty catalog states (Some n) = take (nat n) (select ty catalog states None)"
    and select_distinct: "distinct (map entry_item_id catalog) \<Longrightarrow> distinct (select ty catalog states limit)"
    and select_order: "\<exists>es. map entry_item_id es = map key_item_id (select ty catalog states limit)
      \<and> sorted (map study_position es) \<and> set es \<subseteq> set catalog"
begin

lemma select_length: "int (length (select ty catalog states (Some n))) \<le> max 0 n"
  by (auto simp: select_limit)

lemma select_zero: "n \<le> 0 \<Longrightarrow> select ty catalog states (Some n) = []"
  by (simp add: select_limit)

lemma introduced_not_selected: "k \<notin> set (select ty catalog ((k, s) # states) limit)"
  using select_new [of k ty catalog "(k, s) # states" limit] by auto

lemma select_prefix:
  "m \<le> n \<Longrightarrow> select ty catalog states (Some m) = take (nat m) (select ty catalog states (Some n))"
  by (simp add: select_limit min_def)

lemma select_empty_catalog: "select ty [] states limit = []"
  using select_catalog by (metis all_not_in_conv empty_set ex_in_conv set_empty2)

end

text \<open>Taking a prefix of the candidates keeps every promise, whatever entries are allowed.\<close>

lemma policy_of_candidates:
  assumes "\<And>ty catalog states limit.
    select ty catalog states limit = take_limited (candidates ty catalog states (allowed ty catalog states)) limit"
  shows "card_policy select"
proof
  fix ty catalog states limit k n
  let ?cs = "candidates ty catalog states (allowed ty catalog states)"
  show "map_of states k = None" if "k \<in> set (select ty catalog states limit)"
    using that set_take_limited [of ?cs limit] by (auto simp: assms set_candidates)
  show "key_type k = ty \<and> (\<exists>e \<in> set catalog. key_item_id k = entry_item_id e)"
    if "k \<in> set (select ty catalog states limit)"
  proof -
    from that have "k \<in> set ?cs" using set_take_limited [of ?cs limit] by (auto simp: assms)
    then show ?thesis by (auto simp: set_candidates in_entry_keys)
  qed
  show "select ty catalog states (Some n) = take (nat n) (select ty catalog states None)"
    by (simp add: assms take_limited_prefix) (simp add: take_limited_def)
  show "distinct (select ty catalog states limit)" if "distinct (map entry_item_id catalog)"
    using distinct_candidates [OF that] take_limited_take [of ?cs limit] by (auto simp: assms)
  obtain es where es: "map entry_item_id es = map key_item_id ?cs" "sorted (map study_position es)"
      "set es \<subseteq> {e \<in> set catalog. allowed ty catalog states e}"
    using candidates_in_order by blast
  obtain m where m: "take_limited ?cs limit = take m ?cs" using take_limited_take by blast
  have "sorted (map study_position (take m es))"
    using es(2) by (metis sorted_wrt_take take_map)
  moreover have "map entry_item_id (take m es) = map key_item_id (take m ?cs)"
    using es(1) by (simp flip: take_map)
  moreover have "set (take m es) \<subseteq> set catalog" using es(3) by (auto dest: in_set_takeD)
  ultimately show "\<exists>es. map entry_item_id es = map key_item_id (select ty catalog states limit)
      \<and> sorted (map study_position es) \<and> set es \<subseteq> set catalog"
    unfolding assms m by blast
qed

interpretation strict: card_policy strict_select
  by (rule policy_of_candidates [where allowed = "\<lambda>_ _ _ _. True"]) (simp add: strict_select_def)

interpretation mastery: card_policy "mastery_select threshold" for threshold
  by (rule policy_of_candidates [where allowed = "\<lambda>ty cat sts. level_in (unlocked_levels threshold ty cat sts)"])
    (simp add: mastery_select_def)

interpretation pinned: card_policy "pinned_select ls" for ls
  by (rule policy_of_candidates [where allowed = "\<lambda>_ _ _. level_in ls"]) (simp add: pinned_select_def)

interpretation chosen: card_policy "create_new_card_policy s" for s
  by (cases "new_card_policy s")
    (simp_all add: create_new_card_policy_def strict.card_policy_axioms
      mastery.card_policy_axioms pinned.card_policy_axioms)

section \<open>Which levels are unlocked\<close>

definition level_entries :: "jlpt_level \<Rightarrow> catalog_entry list \<Rightarrow> catalog_entry list" where
  "level_entries l catalog = filter (\<lambda>e. entry_level e = Some l) catalog"

definition level_keys :: "item_type \<Rightarrow> jlpt_level \<Rightarrow> catalog_entry list \<Rightarrow> card_key list" where
  "level_keys ty l catalog = concat (map (entry_keys ty) (level_entries l catalog))"

definition in_review :: "states \<Rightarrow> card_key list \<Rightarrow> int" where
  "in_review states ks = int (length (filter (\<lambda>k. map_of states k = Some REVIEW) ks))"

lemma fold_count_key:
  "fold (count_key states l) ks (t, m) =
     (t(l := t l + int (length ks)), m(l := m l + in_review states ks))"
  by (induction ks arbitrary: t m) (auto simp: count_key_def in_review_def)

lemma fold_count_entry:
  "fold (count_entry ty states) catalog (t, m) =
     (\<lambda>l. t l + int (length (level_keys ty l catalog)),
      \<lambda>l. m l + in_review states (level_keys ty l catalog))"
proof (induction catalog arbitrary: t m)
  case (Cons e catalog)
  then show ?case
    by (cases "entry_level e")
      (auto simp: count_entry_def fold_count_key level_keys_def level_entries_def in_review_def fun_eq_iff)
qed (simp add: level_keys_def level_entries_def in_review_def)

lemma level_counts_eq:
  "level_counts ty catalog states =
     (\<lambda>l. int (length (level_keys ty l catalog)), \<lambda>l. in_review states (level_keys ty l catalog))"
  by (simp add: level_counts_def fold_count_entry)

definition level_mastered :: "pyfloat \<Rightarrow> item_type \<Rightarrow> catalog_entry list \<Rightarrow> states \<Rightarrow> jlpt_level \<Rightarrow> bool" where
  "level_mastered threshold ty catalog states l \<longleftrightarrow>
     (let ks = level_keys ty l catalog in
      ks = [] \<or> threshold \<le> fdiv (in_review states ks) (int (length ks)))"

lemma unlock_loop_iff:
  "distinct ls \<Longrightarrow> l \<in> unlock_loop t m threshold ls \<longleftrightarrow>
     l \<in> set ls \<and> (\<forall>k \<in> set (takeWhile (\<lambda>k. k \<noteq> l) ls). t k = 0 \<or> threshold \<le> fdiv (m k) (t k))"
  by (induction ls) auto

lemma takeWhile_study_order: "set (takeWhile (\<lambda>k. k \<noteq> l) study_order) = {k. l < k}"
proof -
  have "k \<in> set (takeWhile (\<lambda>k. k \<noteq> l) study_order) \<longleftrightarrow> l < k" for k
    by (cases l; cases k) (simp_all add: study_order_def less_jlpt_level_def)
  then show ?thesis by blast
qed

text \<open>A level is unlocked when every easier level is mastered (or has no cards).\<close>

lemma unlocked_levels_iff:
  "l \<in> unlocked_levels threshold ty catalog states \<longleftrightarrow>
     (\<forall>k. l < k \<longrightarrow> level_mastered threshold ty catalog states k)"
  by (auto simp: unlocked_levels_def level_counts_eq unlock_loop_iff takeWhile_study_order
      level_mastered_def Let_def)

lemma unlocked_levels_easier:
  "l \<in> unlocked_levels threshold ty catalog states \<Longrightarrow> l \<le> k \<Longrightarrow> k \<in> unlocked_levels threshold ty catalog states"
  by (auto simp: unlocked_levels_iff)

lemma in_review_bounds: "0 \<le> in_review states ks" "in_review states ks \<le> int (length ks)"
  by (simp_all add: in_review_def)

lemma level_mastered_all_in_review:
  "threshold \<le> 1 \<Longrightarrow> \<forall>k \<in> set (level_keys ty l catalog). map_of states k = Some REVIEW \<Longrightarrow>
     level_mastered threshold ty catalog states l"
  by (cases "level_keys ty l catalog = []")
    (auto simp: level_mastered_def Let_def in_review_def fdiv_full)

end
