(* ===== verification/Availability.thy ===== *)
theory Availability
  imports Policies
begin

text \<open>
  \<^verbatim>\<open>services/type_availability.py\<close>: which item types may introduce new cards.  The loop that measures
  the kana share at most once is modelled as it is written; \<open>type_availability_of\<close> is its closed form.
\<close>

datatype block_reason = DISABLED | WAITING_FOR_KANA

record availability =
  allowed :: bool
  reason :: "block_reason option"
  gate_share :: "pyfloat option"

definition OPEN :: availability where
  "OPEN = \<lparr>allowed = True, reason = None, gate_share = None\<rparr>"

definition kana_share :: "catalog_entry list \<Rightarrow> states \<Rightarrow> pyfloat option" where
  "kana_share kana_entries states =
     (let totals = int (length kana_entries) * int (length (directions_by_type KANA)) in
      if totals = 0 then None
      else let learned = sum_list (concat (map (\<lambda>e. map (\<lambda>d.
                 if map_of states (card (entry_item_id e) d) = Some REVIEW then 1 else 0)
               (directions_by_type KANA)) kana_entries))
           in Some (fdiv learned totals))"

fun availability_loop ::
  "review_settings \<Rightarrow> catalog_entry list \<Rightarrow> states \<Rightarrow> pyfloat option \<Rightarrow> bool \<Rightarrow> item_type list
     \<Rightarrow> (item_type \<times> availability) list" where
  "availability_loop s kana_entries states share measured [] = []"
| "availability_loop s kana_entries states share measured (ty # tys) =
     (if \<not> enabled_for_type (type_enabled s) ty then
        (ty, \<lparr>allowed = False, reason = Some DISABLED, gate_share = None\<rparr>)
          # availability_loop s kana_entries states share measured tys
      else if \<not> gates (kana_gate s) ty then
        (ty, OPEN) # availability_loop s kana_entries states share measured tys
      else
        let share = (if measured then share else kana_share kana_entries states) in
        (ty,
         case share of
           None \<Rightarrow> \<lparr>allowed = True, reason = None, gate_share = None\<rparr>
         | Some v \<Rightarrow>
             if gate_threshold (kana_gate s) \<le> v
             then \<lparr>allowed = True, reason = None, gate_share = Some v\<rparr>
             else \<lparr>allowed = False, reason = Some WAITING_FOR_KANA, gate_share = Some v\<rparr>)
          # availability_loop s kana_entries states share True tys)"

definition type_availability ::
  "review_settings \<Rightarrow> catalog_entry list \<Rightarrow> states \<Rightarrow> (item_type \<times> availability) list" where
  "type_availability s kana_entries states = availability_loop s kana_entries states None False item_types"

section \<open>Closed forms\<close>

definition kana_keys :: "catalog_entry list \<Rightarrow> card_key list" where
  "kana_keys kana_entries = concat (map (entry_keys KANA) kana_entries)"

lemma learned_eq:
  "sum_list (concat (map (\<lambda>e. map (\<lambda>d.
       if map_of states (card (entry_item_id e) d) = Some REVIEW then 1 else 0)
     (directions_by_type KANA)) es)) = in_review states (kana_keys es)"
  by (induction es) (auto simp: in_review_def kana_keys_def entry_keys_def)

lemma length_kana_keys: "length (kana_keys es) = 2 * length es"
  by (induction es) (simp_all add: kana_keys_def entry_keys_def)

lemma kana_share_eq:
  "kana_share es states =
     (if es = [] then None else Some (fdiv (in_review states (kana_keys es)) (int (length (kana_keys es)))))"
  unfolding kana_share_def learned_eq by (simp add: length_kana_keys Let_def mult.commute)

definition availability_of ::
  "review_settings \<Rightarrow> catalog_entry list \<Rightarrow> states \<Rightarrow> item_type \<Rightarrow> availability" where
  "availability_of s kana_entries states ty =
     (if \<not> enabled_for_type (type_enabled s) ty
      then \<lparr>allowed = False, reason = Some DISABLED, gate_share = None\<rparr>
      else if \<not> gates (kana_gate s) ty then OPEN
      else let share = kana_share kana_entries states;
               ok = (case share of None \<Rightarrow> True | Some v \<Rightarrow> gate_threshold (kana_gate s) \<le> v)
           in \<lparr>allowed = ok, reason = (if ok then None else Some WAITING_FOR_KANA), gate_share = share\<rparr>)"

lemma availability_loop_eq:
  "(measured \<Longrightarrow> share = kana_share es states) \<Longrightarrow>
     availability_loop s es states share measured tys = map (\<lambda>ty. (ty, availability_of s es states ty)) tys"
proof (induction tys arbitrary: share measured)
  case (Cons ty tys)
  let ?share = "if measured then share else kana_share es states"
  have share: "?share = kana_share es states" using Cons.prems by simp
  have "availability_loop s es states ?share True tys = map (\<lambda>ty. (ty, availability_of s es states ty)) tys"
    using Cons.IH [of True ?share] share by simp
  moreover have "availability_loop s es states share measured tys = map (\<lambda>ty. (ty, availability_of s es states ty)) tys"
    using Cons.IH Cons.prems by blast
  ultimately show ?case
    unfolding availability_loop.simps Let_def share
    by (auto simp: availability_of_def Let_def split: option.splits)
qed simp

lemma type_availability_eq:
  "type_availability s es states = map (\<lambda>ty. (ty, availability_of s es states ty)) item_types"
  unfolding type_availability_def by (rule availability_loop_eq) simp

lemma type_availability_of [simp]:
  "map_of (type_availability s es states) ty = Some (availability_of s es states ty)"
  by (cases ty) (simp_all add: type_availability_eq item_types_def)

lemma allowed_iff:
  "allowed (availability_of s es states ty) \<longleftrightarrow>
     enabled_for_type (type_enabled s) ty
     \<and> (gates (kana_gate s) ty \<longrightarrow> (\<forall>v. kana_share es states = Some v \<longrightarrow> gate_threshold (kana_gate s) \<le> v))"
  by (auto simp: availability_of_def OPEN_def Let_def split: option.splits)

lemma kana_share_all_in_review:
  "\<forall>k \<in> set (kana_keys es). map_of states k = Some REVIEW \<Longrightarrow> kana_share es states = Some v \<Longrightarrow> v = 1"
proof -
  assume all: "\<forall>k \<in> set (kana_keys es). map_of states k = Some REVIEW" and v: "kana_share es states = Some v"
  have "filter (\<lambda>k. map_of states k = Some REVIEW) (kana_keys es) = kana_keys es"
    using all by (simp add: filter_id_conv)
  then have "in_review states (kana_keys es) = int (length (kana_keys es))" by (simp add: in_review_def)
  with v show "v = 1"
    by (cases "es = []") (auto simp: kana_share_eq length_kana_keys fdiv_full)
qed

text \<open>Learning more kana never closes a gate.\<close>

lemma kana_share_mono:
  assumes "\<And>k. map_of sts k = Some REVIEW \<Longrightarrow> map_of sts' k = Some REVIEW"
    and "kana_share es sts = Some v" and "kana_share es sts' = Some v'"
  shows "v \<le> v'"
proof -
  have "length (filter (\<lambda>k. map_of sts k = Some REVIEW) ks) \<le> length (filter (\<lambda>k. map_of sts' k = Some REVIEW) ks)"
    for ks using assms(1) by (induction ks) auto
  then have "in_review sts (kana_keys es) \<le> in_review sts' (kana_keys es)" by (simp add: in_review_def)
  with assms(2,3) show ?thesis
    by (cases "es = []") (auto simp: kana_share_eq length_kana_keys fdiv_mono)
qed

end
