(* ===== verification/StudyDay.thy ===== *)
theory StudyDay
  imports Prelude PyTime
begin

text \<open>
  \<^verbatim>\<open>services/study_day.py\<close>: the study day that contains an instant, as a half-open window of
  instants that starts and ends at the rollover hour of the local clock, its calendar date (as a
  day number) and the choice of the time zone.  The main lemma is \<open>in_window_iff\<close>: in an ordinary
  zone an instant lies in a window exactly when the local clock shows a time between the two
  rollovers, so the windows tile the time line.
\<close>

datatype day_error = NaiveNow | HourOutOfRange

definition study_day_window :: "datetime \<Rightarrow> int \<Rightarrow> tz \<Rightarrow> day_error + (instant \<times> instant)" where
  "study_day_window now rollover_hour z =
     (case now of
        Naive _ \<Rightarrow> Inl NaiveNow
      | Aware t \<Rightarrow>
          if \<not> (0 \<le> rollover_hour \<and> rollover_hour \<le> 23) then Inl HourOutOfRange
          else let local = to_wall z t;
                   start = local div DAY * DAY + rollover_hour * HOUR;
                   start = (if local < start then start - DAY else start);
                   end = start + DAY
               in Inr (from_wall z start, from_wall z end))"

definition study_date :: "datetime \<Rightarrow> int \<Rightarrow> tz \<Rightarrow> day_error + int" where
  "study_date now rollover_hour z =
     (case study_day_window now rollover_hour z of
        Inl e \<Rightarrow> Inl e
      | Inr (start, _) \<Rightarrow> Inr (to_wall z start div DAY))"

text \<open>
  \<^verbatim>\<open>resolve_timezone\<close>: \<open>zoneinfo\<close> is the system's zone database (\<open>None\<close> for an unknown or malformed
  name), \<open>env_TZ\<close> the environment variable.  The second component is the warning logged.
\<close>

datatype tz_warning = NoWarning | TimezoneNotSet | TimezoneUnknown ustr

definition resolve_timezone :: "(ustr \<Rightarrow> tz option) \<Rightarrow> ustr option \<Rightarrow> ustr option \<Rightarrow> tz \<times> tz_warning" where
  "resolve_timezone zoneinfo env_TZ name =
     (let chosen = (case name of
                      None \<Rightarrow> (case env_TZ of None \<Rightarrow> [] | Some v \<Rightarrow> v)
                    | Some n \<Rightarrow> n)
      in if chosen = [] then (UTC, TimezoneNotSet)
         else (case zoneinfo chosen of
                 Some z \<Rightarrow> (z, NoWarning)
               | None \<Rightarrow> (UTC, TimezoneUnknown chosen)))"

section \<open>The index of a study day\<close>

definition study_index :: "int \<Rightarrow> tz \<Rightarrow> instant \<Rightarrow> int" where
  "study_index r z t = (to_wall z t - r * HOUR) div DAY"

definition day_start :: "int \<Rightarrow> tz \<Rightarrow> int \<Rightarrow> instant" where
  "day_start r z k = from_wall z (k * DAY + r * HOUR)"

text \<open>An ordinary zone for a rollover hour: no rollover falls strictly inside a change of offset.\<close>

definition rollover_ok :: "int \<Rightarrow> tz \<Rightarrow> bool" where
  "rollover_ok r z \<longleftrightarrow> 0 \<le> r \<and> r \<le> 23 \<and> zone_ok z \<and> daily_clear z (r * HOUR)"

lemma hour_in_day: "0 \<le> r \<Longrightarrow> r \<le> 23 \<Longrightarrow> 0 \<le> r * HOUR \<and> r * HOUR < DAY"
  by (simp add: time_units)

lemma div_shift:
  fixes w h :: int
  assumes "0 \<le> h" "h < DAY"
  shows "(w - h) div DAY = (if w < w div DAY * DAY + h then w div DAY - 1 else w div DAY)"
proof -
  let ?q = "w div DAY"
  have q: "?q * DAY \<le> w" "w < (?q + 1) * DAY"
    using le_div_DAY_iff [of ?q w] div_DAY_less_iff [of w "?q + 1"] by simp_all
  have div_eq: "x div DAY = k" if "k * DAY \<le> x" "x < (k + 1) * DAY" for x k
    using that le_div_DAY_iff [of k x] div_DAY_less_iff [of x "k + 1"] by linarith
  show ?thesis
  proof (cases "w < ?q * DAY + h")
    case True
    then have "(w - h) div DAY = ?q - 1"
      using q assms by (intro div_eq) (auto simp: algebra_simps)
    with True show ?thesis by simp
  next
    case False
    then have "(w - h) div DAY = ?q"
      using q assms by (intro div_eq) (auto simp: algebra_simps)
    with False show ?thesis by simp
  qed
qed

lemma study_day_window_eq:
  assumes "0 \<le> r" "r \<le> 23"
  shows "study_day_window (Aware t) r z =
    Inr (day_start r z (study_index r z t), day_start r z (study_index r z t + 1))"
  using div_shift [of "r * HOUR" "to_wall z t"] hour_in_day [OF assms] assms
  by (simp add: study_day_window_def study_index_def day_start_def Let_def algebra_simps)

lemma day_start_le:
  assumes "rollover_ok r z"
  shows "day_start r z k \<le> t \<longleftrightarrow> k \<le> study_index r z t"
proof -
  have "day_start r z k \<le> t \<longleftrightarrow> k * DAY + r * HOUR \<le> to_wall z t"
    using assms daily_clear_wall [of z "r * HOUR" k]
    by (simp add: day_start_def rollover_ok_def wall_instant_galois)
  also have "\<dots> \<longleftrightarrow> k \<le> study_index r z t"
    by (simp add: study_index_def le_div_DAY_iff algebra_simps)
  finally show ?thesis .
qed

lemma in_window_iff:
  assumes "rollover_ok r z"
  shows "day_start r z k \<le> t \<and> t < day_start r z (k + 1) \<longleftrightarrow> study_index r z t = k"
  using day_start_le [OF assms, of k t] day_start_le [OF assms, of "k + 1" t] by linarith

lemma day_start_mono:
  assumes "rollover_ok r z" "j \<le> k"
  shows "day_start r z j \<le> day_start r z k"
  using day_start_le [OF assms(1), of k "day_start r z k"] day_start_le [OF assms(1), of j "day_start r z k"]
    assms(2) by simp

lemma study_index_day_start:
  assumes "rollover_ok r z" "daily_shown z (r * HOUR)"
  shows "study_index r z (day_start r z k) = k"
proof -
  have "to_wall z (day_start r z k) = k * DAY + r * HOUR"
    using assms daily_clear_wall [of z "r * HOUR" k] daily_shown_wall [of z "r * HOUR" k]
    by (simp add: day_start_def rollover_ok_def to_wall_from_wall)
  then show ?thesis by (simp add: study_index_def)
qed

lemma study_date_index:
  assumes "rollover_ok r z" "daily_shown z (r * HOUR)"
  shows "study_date (Aware t) r z = Inr (study_index r z t)"
proof -
  have "to_wall z (day_start r z k) div DAY = k" for k
  proof -
    have "to_wall z (day_start r z k) = k * DAY + r * HOUR"
      using assms daily_clear_wall [of z "r * HOUR" k] daily_shown_wall [of z "r * HOUR" k]
      by (simp add: day_start_def rollover_ok_def to_wall_from_wall)
    then show ?thesis using assms(1) hour_in_day [of r] by (simp add: rollover_ok_def)
  qed
  then show ?thesis
    using assms(1) by (simp add: study_date_def study_day_window_eq rollover_ok_def)
qed

lemma rollover_ok_UTC: "0 \<le> r \<Longrightarrow> r \<le> 23 \<Longrightarrow> rollover_ok r UTC"
  by (simp add: rollover_ok_def)

end
