(* ===== verification/AnswerKey.thy ===== *)
theory AnswerKey
  imports Review
begin

text \<open>\<^verbatim>\<open>services/answer_key.py\<close>: the strings that count as correct answers to a card.\<close>

definition ROMAJI_VARIANTS :: "(ustr \<times> ustr list) list" where
  "ROMAJI_VARIANTS = map (\<lambda>(k, v). (lit k, [lit v]))
     [(''shi'', ''si''), (''chi'', ''ti''), (''tsu'', ''tu''), (''fu'', ''hu''), (''ji'', ''zi''),
      (''zu'', ''du''), (''sha'', ''sya''), (''shu'', ''syu''), (''sho'', ''syo''),
      (''cha'', ''tya''), (''chu'', ''tyu''), (''cho'', ''tyo''),
      (''ja'', ''zya''), (''ju'', ''zyu''), (''jo'', ''zyo'')]"

text \<open>\<^verbatim>\<open>_HOMOPHONE_KANA\<close>: the hiragana ji (U+3058), di (U+3062), zu (U+305A) and du (U+3065).\<close>

definition HOMOPHONE_KANA :: "(ustr \<times> ustr list) list" where
  "HOMOPHONE_KANA =
     [([0x3058], [[0x3062]]), ([0x3062], [[0x3058]]), ([0x305A], [[0x3065]]), ([0x3065], [[0x305A]])]"

definition table_get :: "(ustr \<times> ustr list) list \<Rightarrow> ustr \<Rightarrow> ustr list" where
  "table_get table k = (case map_of table k of None \<Rightarrow> [] | Some v \<Rightarrow> v)"

definition kana_answers :: "card_direction \<Rightarrow> kana \<Rightarrow> ustr list" where
  "kana_answers d k =
     (if d = GLYPH_TO_SOUND then kana_romaji k # table_get ROMAJI_VARIANTS (kana_romaji k)
      else kana_char k # table_get HOMOPHONE_KANA (kana_char k))"

definition kanji_answers :: "card_direction \<Rightarrow> kanji \<Rightarrow> ustr list" where
  "kanji_answers d k =
     (if d = KANJI_TO_MEANING then meanings k
      else if d = KANJI_TO_READING then on_readings k @ kun_readings k
      else [kanji_char k])"

definition vocab_answers :: "card_direction \<Rightarrow> vocab \<Rightarrow> ustr list" where
  "vocab_answers d v =
     (if d = RECOGNITION
      then meaning v # (if additional_definitions v \<noteq> [] then [additional_definitions v] else [])
      else [expression v])"

fun accepted_answers_for :: "card_direction \<Rightarrow> item \<Rightarrow> ustr list" where
  "accepted_answers_for d (KanaItem k) = kana_answers d k"
| "accepted_answers_for d (KanjiItem k) = kanji_answers d k"
| "accepted_answers_for d (VocabItem v) = vocab_answers d v"

lemma accepted_answers_empty:
  "accepted_answers_for d it = [] \<longleftrightarrow>
     (\<exists>k. it = KanjiItem k \<and> (d = KANJI_TO_MEANING \<and> meanings k = []
        \<or> d = KANJI_TO_READING \<and> on_readings k = [] \<and> kun_readings k = []))"
  by (cases it) (auto simp: kana_answers_def kanji_answers_def vocab_answers_def)

lemma homophone_symmetric: "b \<in> set (table_get HOMOPHONE_KANA a) \<Longrightarrow> a \<in> set (table_get HOMOPHONE_KANA b)"
  by (auto simp: table_get_def HOMOPHONE_KANA_def split: if_splits)

end
