(* ===== verification/ContentRepo.thy ===== *)
theory ContentRepo
  imports Review
begin

text \<open>
  \<^verbatim>\<open>services/content_repository.py\<close> (the tables of \<^verbatim>\<open>content.db\<close>, the atomic writer, the queries),
  \<^verbatim>\<open>services/content_catalog.py\<close>, \<^verbatim>\<open>services/content_access.py\<close> and \<^verbatim>\<open>context.py\<close>'s
  \<^verbatim>\<open>refresh_content_repo\<close>.  A table is the list of its rows in rowid order.  The \<^verbatim>\<open>data\<close> column holds
  the model itself (its JSON codec is pydantic's) and the \<^verbatim>\<open>level\<close> column the level
  (\<^verbatim>\<open>int(level)\<close>, read back by \<^verbatim>\<open>JlptLevel\<close>: \<open>level_of_value (level_value l) = Some l\<close>).
\<close>

section \<open>Tables\<close>

record content_db =
  meta_rows :: "(ustr \<times> ustr) list"
  kana_rows :: "(ustr \<times> ustr \<times> kana) list"
  kanji_rows :: "(ustr \<times> jlpt_level option \<times> kanji) list"
  vocab_rows :: "(ustr \<times> jlpt_level \<times> vocab) list"

definition CONTENT_SCHEMA_VERSION :: ustr where
  "CONTENT_SCHEMA_VERSION = lit ''2''"

text \<open>\<^verbatim>\<open>executemany("INSERT ...")\<close> into a table with a primary key: the first duplicate raises.\<close>

fun insert_rows :: "('r \<Rightarrow> ustr) \<Rightarrow> 'r list \<Rightarrow> 'r list \<Rightarrow> ustr + 'r list" where
  "insert_rows key table [] = Inr table"
| "insert_rows key table (r # rs) =
     (if key r \<in> set (map key table) then Inl (key r) else insert_rows key (table @ [r]) rs)"

definition build_tables ::
  "kana list \<Rightarrow> kanji list \<Rightarrow> vocab list \<Rightarrow> (ustr \<times> ustr) list \<Rightarrow> ustr + content_db" where
  "build_tables kanas kanjis vocabs meta =
     (case insert_rows fst [] meta of Inl e \<Rightarrow> Inl e | Inr mrows \<Rightarrow>
      case insert_rows fst [] (map (\<lambda>k. (kana_item_id k, script_value (kana_script k), k)) kanas) of
        Inl e \<Rightarrow> Inl e | Inr krows \<Rightarrow>
      case insert_rows fst [] (map (\<lambda>k. (kanji_item_id k, kanji_level k, k)) kanjis) of
        Inl e \<Rightarrow> Inl e | Inr jrows \<Rightarrow>
      case insert_rows fst [] (map (\<lambda>v. (vocab_item_id v, vocab_level v, v)) vocabs) of
        Inl e \<Rightarrow> Inl e | Inr vrows \<Rightarrow>
      Inr \<lparr>meta_rows = mrows, kana_rows = krows, kanji_rows = jrows, vocab_rows = vrows\<rparr>)"

section \<open>Writing atomically\<close>

text \<open>The outcome of one \<^verbatim>\<open>os.replace\<close>; only \<^verbatim>\<open>PermissionError\<close> is retried.\<close>

datatype replace_outcome = Replaced | PermissionDenied | ReplaceFailed

datatype write_error = DuplicateId ustr | SqlFault | MkdirFault | ReplacePermission | ReplaceFault

definition REPLACE_ATTEMPTS :: nat where
  "REPLACE_ATTEMPTS = 5"

text \<open>
  \<^verbatim>\<open>for attempt in range(1, _REPLACE_ATTEMPTS + 1)\<close>; the second component is the time slept, in
  units of \<^verbatim>\<open>_REPLACE_DELAY_SECONDS\<close>.  \<open>outcomes n\<close> is what attempt \<open>n\<close> meets.
\<close>

fun replace_loop :: "(nat \<Rightarrow> replace_outcome) \<Rightarrow> nat list \<Rightarrow> nat \<Rightarrow> (write_error + unit) \<times> nat" where
  "replace_loop outcomes [] slept = (Inr (), slept)"
| "replace_loop outcomes (attempt # rest) slept =
     (case outcomes attempt of
        Replaced \<Rightarrow> (Inr (), slept)
      | PermissionDenied \<Rightarrow>
          if attempt = REPLACE_ATTEMPTS then (Inl ReplacePermission, slept)
          else replace_loop outcomes rest (slept + attempt)
      | ReplaceFailed \<Rightarrow> (Inl ReplaceFault, slept))"

definition replace_with_retry :: "(nat \<Rightarrow> replace_outcome) \<Rightarrow> (write_error + unit) \<times> nat" where
  "replace_with_retry outcomes = replace_loop outcomes [1..<REPLACE_ATTEMPTS + 1] 0"

text \<open>The files the writer touches: the target database and its own temporary file.\<close>

record content_files =
  target_db :: "content_db option"
  tmp_db :: "content_db option"

text \<open>
  \<^verbatim>\<open>ContentWriter.write\<close>.  The environment decides whether the folder can be created, whether
  SQLite fails for a reason of its own while filling the temporary file (\<open>sql_ok\<close>) and how each
  move goes.  A failure while filling leaves a partial temporary file, which is then unlinked.
\<close>

definition write_content ::
  "bool \<Rightarrow> bool \<Rightarrow> (nat \<Rightarrow> replace_outcome) \<Rightarrow> kana list \<Rightarrow> kanji list \<Rightarrow> vocab list
     \<Rightarrow> (ustr \<times> ustr) list \<Rightarrow> content_files \<Rightarrow> (write_error + unit) \<times> content_files" where
  "write_content mkdir_ok sql_ok outcomes kanas kanjis vocabs meta fs =
     (if \<not> mkdir_ok then (Inl MkdirFault, fs)
      else case (if sql_ok then build_tables kanas kanjis vocabs meta else Inl []) of
        Inl e \<Rightarrow> (Inl (if sql_ok then DuplicateId e else SqlFault), fs\<lparr>tmp_db := None\<rparr>)
      | Inr db \<Rightarrow>
          let fs = fs\<lparr>tmp_db := Some db\<rparr> in
          (case fst (replace_with_retry outcomes) of
             Inr _ \<Rightarrow> (Inr (), fs\<lparr>target_db := tmp_db fs, tmp_db := None\<rparr>)
           | Inl e \<Rightarrow> (Inl e, fs\<lparr>tmp_db := None\<rparr>)))"

text \<open>
  \<^verbatim>\<open>remove_stale_temp_files\<close>: the names of the folder in scan order and which unlinks succeed.  The
  pattern is \<^verbatim>\<open>\.[0-9a-f]{32}\.tmp$\<close>, where \<^verbatim>\<open>$\<close> also matches before a final newline.
\<close>

definition is_hex :: "nat \<Rightarrow> bool" where
  "is_hex c \<longleftrightarrow> (48 \<le> c \<and> c \<le> 57) \<or> (97 \<le> c \<and> c \<le> 102)"

definition temp_suffix_at_end :: "ustr \<Rightarrow> bool" where
  "temp_suffix_at_end name \<longleftrightarrow>
     37 \<le> length name \<and>
     (let suffix = drop (length name - 37) name in
        hd suffix = 46 \<and> list_all is_hex (take 32 (tl suffix)) \<and> drop 33 suffix = lit ''.tmp'')"

definition temp_suffix :: "ustr \<Rightarrow> bool" where
  "temp_suffix name \<longleftrightarrow>
     temp_suffix_at_end name \<or> (name \<noteq> [] \<and> last name = 10 \<and> temp_suffix_at_end (butlast name))"

definition is_stale_temp :: "ustr \<Rightarrow> ustr \<Rightarrow> bool" where
  "is_stale_temp target name \<longleftrightarrow> starts_with (target @ lit ''.'') name \<and> temp_suffix name"

fun remove_stale_temp_files :: "ustr \<Rightarrow> (ustr \<Rightarrow> bool) \<Rightarrow> ustr list \<Rightarrow> ustr list \<times> int" where
  "remove_stale_temp_files target unlink_ok [] = ([], 0)"
| "remove_stale_temp_files target unlink_ok (name # names) =
     (case remove_stale_temp_files target unlink_ok names of (left, removed) \<Rightarrow>
        if \<not> is_stale_temp target name then (name # left, removed)
        else if \<not> unlink_ok name then (name # left, removed)
        else (left, removed + 1))"

section \<open>Queries\<close>

definition counts :: "content_db \<Rightarrow> int \<times> int \<times> int" where
  "counts db = (int (length (kana_rows db)), int (length (kanji_rows db)), int (length (vocab_rows db)))"

text \<open>\<^verbatim>\<open>level_counts\<close>: vocabulary and kanji per level (every level present, N5 first), unleveled kanji.\<close>

record repo_level_counts =
  vocab_by_level :: "(ustr \<times> int) list"
  kanji_by_level :: "(ustr \<times> int) list"
  unleveled_kanji :: int

definition repo_counts_by_level :: "content_db \<Rightarrow> repo_level_counts" where
  "repo_counts_by_level db =
     \<lparr>vocab_by_level = map (\<lambda>l. (level_label l,
          int (length (filter (\<lambda>(_, lev, _). lev = l) (vocab_rows db))))) study_order,
      kanji_by_level = map (\<lambda>l. (level_label l,
          int (length (filter (\<lambda>(_, lev, _). lev = Some l) (kanji_rows db))))) study_order,
      unleveled_kanji = int (length (filter (\<lambda>(_, lev, _). lev = None) (kanji_rows db)))\<rparr>"

definition schema_verified :: "content_db \<Rightarrow> bool" where
  "schema_verified db \<longleftrightarrow> map_of (meta_rows db) (lit ''schema_version'') = Some CONTENT_SCHEMA_VERSION"

definition list_kana :: "kana_script option \<Rightarrow> content_db \<Rightarrow> kana list" where
  "list_kana script db =
     (case script of
        None \<Rightarrow> map (\<lambda>(_, _, k). k) (kana_rows db)
      | Some s \<Rightarrow> map (\<lambda>(_, _, k). k) (filter (\<lambda>(_, sc, _). sc = script_value s) (kana_rows db)))"

text \<open>\<^verbatim>\<open>list_kanji\<close>; asking for a level and for the unleveled rows raises \<^verbatim>\<open>ValueError\<close> (\<open>None\<close>).\<close>

definition list_kanji :: "jlpt_level option \<Rightarrow> bool \<Rightarrow> content_db \<Rightarrow> kanji list option" where
  "list_kanji level unleveled db =
     (if level \<noteq> None \<and> unleveled then None
      else Some (map (\<lambda>(_, _, k). k)
        (if unleveled then filter (\<lambda>(_, lev, _). lev = None) (kanji_rows db)
         else case level of
                None \<Rightarrow> kanji_rows db
              | Some l \<Rightarrow> filter (\<lambda>(_, lev, _). lev = Some l) (kanji_rows db))))"

definition list_vocab :: "jlpt_level option \<Rightarrow> content_db \<Rightarrow> vocab list" where
  "list_vocab level db =
     (case level of
        None \<Rightarrow> map (\<lambda>(_, _, v). v) (vocab_rows db)
      | Some l \<Rightarrow> map (\<lambda>(_, _, v). v) (filter (\<lambda>(_, lev, _). lev = l) (vocab_rows db)))"

definition get_row :: "(ustr \<times> 'l \<times> 'a) list \<Rightarrow> ustr \<Rightarrow> 'a option" where
  "get_row rows item_id = map_option (\<lambda>(_, _, x). x) (find (\<lambda>(i, _, _). i = item_id) rows)"

fun get_item :: "content_db \<Rightarrow> item_type \<Rightarrow> ustr \<Rightarrow> item option" where
  "get_item db KANA i = map_option KanaItem (get_row (kana_rows db) i)"
| "get_item db KANJI i = map_option KanjiItem (get_row (kanji_rows db) i)"
| "get_item db VOCAB i = map_option VocabItem (get_row (vocab_rows db) i)"

fun catalog :: "content_db \<Rightarrow> item_type \<Rightarrow> (ustr \<times> jlpt_level option) list" where
  "catalog db KANA = map (\<lambda>(i, _, _). (i, None)) (kana_rows db)"
| "catalog db KANJI = map (\<lambda>(i, lev, _). (i, lev)) (filter (\<lambda>(_, lev, _). lev \<noteq> None) (kanji_rows db))"
| "catalog db VOCAB = map (\<lambda>(i, lev, _). (i, Some lev)) (vocab_rows db)"

text \<open>\<^verbatim>\<open>ContentCatalog.entries\<close>.\<close>

definition catalog_entries :: "content_db \<Rightarrow> item_type \<Rightarrow> catalog_entry list" where
  "catalog_entries db ty =
     map (\<lambda>(position, item_id, level).
            \<lparr>entry_item_id = item_id, entry_type = ty, entry_level = level, entry_position = int position\<rparr>)
       (enumerate 0 (catalog db ty))"

section \<open>Access through the gate\<close>

text \<open>
  A repository object is a handle (its identity) on a file; \<^verbatim>\<open>verify_schema\<close> on it finds the
  schema right or wrong, or cannot read the file.
\<close>

datatype content_file = Readable content_db | Unreadable

record content_repo =
  repo_handle :: nat
  repo_file :: content_file

record app_context =
  ctx_repo :: "content_repo option"
  next_handle :: nat

definition refresh_content_repo :: "content_file option \<Rightarrow> app_context \<Rightarrow> app_context" where
  "refresh_content_repo found ctx =
     (case found of
        None \<Rightarrow> ctx\<lparr>ctx_repo := None\<rparr>
      | Some f \<Rightarrow> ctx\<lparr>ctx_repo := Some \<lparr>repo_handle = next_handle ctx, repo_file = f\<rparr>,
                      next_handle := next_handle ctx + 1\<rparr>)"

datatype not_ready = NotBuilt | WrongSchema | CannotRead

fun verify_file :: "content_file \<Rightarrow> not_ready option" where
  "verify_file Unreadable = Some CannotRead"
| "verify_file (Readable db) = (if schema_verified db then None else Some WrongSchema)"

text \<open>\<^verbatim>\<open>ContentGate.repository\<close>: the result and the new \<^verbatim>\<open>_verified\<close>.\<close>

definition gate_repository ::
  "app_context \<Rightarrow> nat option \<Rightarrow> (not_ready + content_repo) \<times> nat option" where
  "gate_repository ctx verified =
     (case ctx_repo ctx of
        None \<Rightarrow> (Inl NotBuilt, verified)
      | Some repo \<Rightarrow>
          if verified \<noteq> Some (repo_handle repo) then
            (case verify_file (repo_file repo) of
               Some e \<Rightarrow> (Inl e, verified)
             | None \<Rightarrow> (Inr repo, Some (repo_handle repo)))
          else (Inr repo, verified))"

section \<open>Facts\<close>

lemma insert_rows_iff:
  "distinct (map key table) \<Longrightarrow> insert_rows key table rs = Inr out \<longleftrightarrow>
     distinct (map key (table @ rs)) \<and> out = table @ rs"
proof (induction rs arbitrary: table)
  case (Cons r rs)
  then show ?case by (cases "key r \<in> set (map key table)") auto
qed auto

lemma insert_rows_Nil: "insert_rows key [] rs = Inr out \<longleftrightarrow> distinct (map key rs) \<and> out = rs"
  by (simp add: insert_rows_iff)

lemma insert_rows_ok: "distinct (map key rs) \<Longrightarrow> insert_rows key [] rs = Inr rs"
  by (simp add: insert_rows_Nil)

lemma insert_rows_fails: "\<not> distinct (map key rs) \<Longrightarrow> \<exists>e. insert_rows key [] rs = Inl e"
  using insert_rows_Nil by (metis obj_sumE)

lemma build_tables_iff:
  "build_tables kanas kanjis vocabs meta = Inr db \<longleftrightarrow>
     distinct (map fst meta) \<and> distinct (map kana_item_id kanas) \<and> distinct (map kanji_item_id kanjis)
     \<and> distinct (map vocab_item_id vocabs)
     \<and> db = \<lparr>meta_rows = meta,
             kana_rows = map (\<lambda>k. (kana_item_id k, script_value (kana_script k), k)) kanas,
             kanji_rows = map (\<lambda>k. (kanji_item_id k, kanji_level k, k)) kanjis,
             vocab_rows = map (\<lambda>v. (vocab_item_id v, vocab_level v, v)) vocabs\<rparr>"
proof -
  define K where "K = map (\<lambda>k. (kana_item_id k, script_value (kana_script k), k)) kanas"
  define J where "J = map (\<lambda>k. (kanji_item_id k, kanji_level k, k)) kanjis"
  define V where "V = map (\<lambda>v. (vocab_item_id v, vocab_level v, v)) vocabs"
  have keys: "map fst K = map kana_item_id kanas" "map fst J = map kanji_item_id kanjis"
    "map fst V = map vocab_item_id vocabs"
    by (simp_all add: K_def J_def V_def)
  have "build_tables kanas kanjis vocabs meta = Inr db \<longleftrightarrow>
     distinct (map fst meta) \<and> distinct (map fst K) \<and> distinct (map fst J) \<and> distinct (map fst V)
     \<and> db = \<lparr>meta_rows = meta, kana_rows = K, kanji_rows = J, vocab_rows = V\<rparr>"
    unfolding build_tables_def K_def [symmetric] J_def [symmetric] V_def [symmetric]
    by (auto simp: insert_rows_Nil insert_rows_ok split: sum.splits)
  then show ?thesis unfolding keys unfolding K_def J_def V_def .
qed

definition retries_succeed :: "(nat \<Rightarrow> replace_outcome) \<Rightarrow> bool" where
  "retries_succeed outcomes \<longleftrightarrow>
     (\<exists>n \<in> {1..REPLACE_ATTEMPTS}. outcomes n = Replaced \<and> (\<forall>m \<in> {1..<n}. outcomes m = PermissionDenied))"

lemma attempts_list: "[1..<REPLACE_ATTEMPTS + 1] = [1, 2, 3, 4, 5]"
  by (simp add: REPLACE_ATTEMPTS_def upt_rec)

lemma retries_succeed_unfold:
  "retries_succeed outcomes \<longleftrightarrow>
     outcomes 1 = Replaced \<or> outcomes 1 = PermissionDenied \<and> (outcomes 2 = Replaced
     \<or> outcomes 2 = PermissionDenied \<and> (outcomes 3 = Replaced \<or> outcomes 3 = PermissionDenied \<and>
       (outcomes 4 = Replaced \<or> outcomes 4 = PermissionDenied \<and> outcomes 5 = Replaced)))"
proof -
  have five: "{1..REPLACE_ATTEMPTS} = {1, 2, 3, 4, 5}" by (auto simp: REPLACE_ATTEMPTS_def)
  have "{1..<1} = ({} :: nat set)" "{1..<2} = {1 :: nat}" "{1..<3} = {1, 2 :: nat}" "{1..<4} = {1, 2, 3 :: nat}"
    "{1..<5} = {1, 2, 3, 4 :: nat}" by auto
  then show ?thesis unfolding retries_succeed_def five by auto
qed

lemma replace_with_retry_ok: "(\<exists>u. fst (replace_with_retry outcomes) = Inr u) \<longleftrightarrow> retries_succeed outcomes"
  unfolding replace_with_retry_def attempts_list retries_succeed_unfold
  by (auto simp: REPLACE_ATTEMPTS_def split: replace_outcome.splits)

lemma replace_with_retry_slept: "snd (replace_with_retry outcomes) \<le> 10"
  unfolding replace_with_retry_def attempts_list
  by (auto simp: REPLACE_ATTEMPTS_def split: replace_outcome.splits)

end
