(* ===== verification/Distractors.thy ===== *)
theory Distractors
  imports AnswerKey ContentRepo Settings "HOL-Library.Multiset"
begin

text \<open>
  \<^verbatim>\<open>services/distractors.py\<close>: the options of a multiple-choice card.  \<^verbatim>\<open>random.Random\<close> is a state and
  \<open>below\<close>, which draws a number under a bound (\<^verbatim>\<open>_randbelow\<close>); \<^verbatim>\<open>Random.shuffle\<close> is the library's
  loop over it.
\<close>

section \<open>Shuffling\<close>

definition swap_at :: "nat \<Rightarrow> nat \<Rightarrow> 'a list \<Rightarrow> 'a list" where
  "swap_at i j xs = xs[i := xs ! j, j := xs ! i]"

text \<open>\<^verbatim>\<open>for i in reversed(range(1, len(x))): j = randbelow(i + 1); x[i], x[j] = x[j], x[i]\<close>\<close>

fun shuffle_from :: "('r \<Rightarrow> nat \<Rightarrow> nat \<times> 'r) \<Rightarrow> nat \<Rightarrow> 'a list \<Rightarrow> 'r \<Rightarrow> 'a list \<times> 'r" where
  "shuffle_from below 0 xs r = (xs, r)"
| "shuffle_from below (Suc i) xs r =
     (case below r (Suc i + 1) of (j, r') \<Rightarrow> shuffle_from below i (swap_at (Suc i) j xs) r')"

definition shuffle_list :: "('r \<Rightarrow> nat \<Rightarrow> nat \<times> 'r) \<Rightarrow> 'a list \<Rightarrow> 'r \<Rightarrow> 'a list \<times> 'r" where
  "shuffle_list below xs r = shuffle_from below (length xs - 1) xs r"

text \<open>What \<^verbatim>\<open>_randbelow\<close> documents: a number below its bound.\<close>

definition draws_below :: "('r \<Rightarrow> nat \<Rightarrow> nat \<times> 'r) \<Rightarrow> bool" where
  "draws_below below \<longleftrightarrow> (\<forall>r n. 0 < n \<longrightarrow> fst (below r n) < n)"

section \<open>The pool\<close>

definition WANTED :: nat where
  "WANTED = 3"

definition item_level :: "item \<Rightarrow> jlpt_level option" where
  "item_level it = (case it of KanaItem _ \<Rightarrow> None | KanjiItem k \<Rightarrow> kanji_level k | VocabItem v \<Rightarrow> Some (vocab_level v))"

definition item_script :: "item \<Rightarrow> kana_script option" where
  "item_script it = (case it of KanaItem k \<Rightarrow> Some (kana_script k) | _ \<Rightarrow> None)"

definition is_active :: "jlpt_level set \<Rightarrow> catalog_entry \<Rightarrow> bool" where
  "is_active active e = (case entry_level e of None \<Rightarrow> True | Some l \<Rightarrow> l \<in> active)"

definition same_level_band :: "ustr \<Rightarrow> jlpt_level option \<Rightarrow> catalog_entry list \<Rightarrow> catalog_entry list" where
  "same_level_band excluded lev es = filter (\<lambda>e. entry_item_id e \<noteq> excluded \<and> entry_level e = lev) es"

definition active_band :: "ustr \<Rightarrow> jlpt_level option \<Rightarrow> jlpt_level set \<Rightarrow> catalog_entry list \<Rightarrow> catalog_entry list" where
  "active_band excluded lev active es =
     filter (\<lambda>e. entry_item_id e \<noteq> excluded \<and> entry_level e \<noteq> lev \<and> is_active active e) es"

definition rest_band :: "ustr \<Rightarrow> jlpt_level option \<Rightarrow> jlpt_level set \<Rightarrow> catalog_entry list \<Rightarrow> catalog_entry list" where
  "rest_band excluded lev active es =
     filter (\<lambda>e. entry_item_id e \<noteq> excluded \<and> entry_level e \<noteq> lev \<and> \<not> is_active active e) es"

definition ranked_pool ::
  "('r \<Rightarrow> nat \<Rightarrow> nat \<times> 'r) \<Rightarrow> catalog_entry list \<Rightarrow> ustr \<Rightarrow> jlpt_level option \<Rightarrow> jlpt_level set \<Rightarrow> 'r
     \<Rightarrow> catalog_entry list \<times> 'r" where
  "ranked_pool below es excluded lev active r =
     (case shuffle_list below (same_level_band excluded lev es) r of (same, r) \<Rightarrow>
      case shuffle_list below (active_band excluded lev active es) r of (act, r) \<Rightarrow>
      case shuffle_list below (rest_band excluded lev active es) r of (rest, r) \<Rightarrow>
      (same @ act @ rest, r))"

section \<open>Choosing\<close>

text \<open>The first accepted answer of an entry that can be offered for a card of this script.\<close>

definition offered :: "content_db \<Rightarrow> card_direction \<Rightarrow> kana_script option \<Rightarrow> catalog_entry \<Rightarrow> ustr option" where
  "offered db d script e =
     (case get_item db (entry_type e) (entry_item_id e) of
        None \<Rightarrow> None
      | Some candidate \<Rightarrow>
          if item_script candidate \<noteq> script then None
          else (case accepted_answers_for d candidate of [] \<Rightarrow> None | a # _ \<Rightarrow> Some a))"

fun pick_distractors :: "(catalog_entry \<Rightarrow> ustr option) \<Rightarrow> catalog_entry list \<Rightarrow> ustr list \<Rightarrow> ustr list \<Rightarrow> ustr list" where
  "pick_distractors offer [] seen ds = ds"
| "pick_distractors offer (e # es) seen ds =
     (if WANTED \<le> length ds then ds
      else case offer e of
        None \<Rightarrow> pick_distractors offer es seen ds
      | Some a \<Rightarrow> if a \<in> set seen then pick_distractors offer es seen ds
                  else pick_distractors offer es (a # seen) (ds @ [a]))"

text \<open>\<^verbatim>\<open>choices_for\<close>; \<open>None\<close> is the \<^verbatim>\<open>IndexError\<close> on an item without an accepted answer.\<close>

definition choices_for ::
  "('r \<Rightarrow> nat \<Rightarrow> nat \<times> 'r) \<Rightarrow> card_key \<Rightarrow> item \<Rightarrow> review_settings \<Rightarrow> content_db \<Rightarrow> 'r \<Rightarrow> ustr list option" where
  "choices_for below k it s db r =
     (case accepted_answers_for (key_direction k) it of
        [] \<Rightarrow> None
      | correct # _ \<Rightarrow>
          case ranked_pool below (catalog_entries db (key_type k)) (key_item_id k) (item_level it) (levels s) r of
            (pool, r) \<Rightarrow>
              let distractors = pick_distractors (offered db (key_direction k) (item_script it)) pool [correct] []
              in Some (fst (shuffle_list below (correct # distractors) r)))"

section \<open>Facts\<close>

lemma length_swap_at [simp]: "length (swap_at i j xs) = length xs"
  by (simp add: swap_at_def)

lemma mset_swap_at: "i < length xs \<Longrightarrow> j < length xs \<Longrightarrow> mset (swap_at i j xs) = mset xs"
  by (simp add: swap_at_def mset_swap)

lemma mset_shuffle_from:
  "draws_below below \<Longrightarrow> i < length xs \<Longrightarrow> mset (fst (shuffle_from below i xs r)) = mset xs"
proof (induction i arbitrary: xs r)
  case (Suc i)
  obtain j r' where j: "below r (Suc i + 1) = (j, r')" by fastforce
  then have "j < Suc i + 1" using Suc.prems(1) unfolding draws_below_def by (metis fst_conv zero_less_Suc Suc_eq_plus1)
  then have "mset (swap_at (Suc i) j xs) = mset xs" using Suc.prems by (intro mset_swap_at) auto
  moreover have "mset (fst (shuffle_from below i (swap_at (Suc i) j xs) r')) = mset (swap_at (Suc i) j xs)"
    using Suc.prems by (intro Suc.IH) auto
  ultimately show ?case using j by simp
qed simp

lemma mset_shuffle: "draws_below below \<Longrightarrow> mset (fst (shuffle_list below xs r)) = mset xs"
  by (cases xs) (simp_all add: shuffle_list_def mset_shuffle_from)

lemma set_shuffle: "draws_below below \<Longrightarrow> set (fst (shuffle_list below xs r)) = set xs"
  by (rule mset_eq_setD, rule mset_shuffle)

lemma ranked_pool_bands:
  assumes "draws_below below"
  obtains same act rest r' where "ranked_pool below es excluded lev active r = (same @ act @ rest, r')"
    "mset same = mset (same_level_band excluded lev es)" "mset act = mset (active_band excluded lev active es)"
    "mset rest = mset (rest_band excluded lev active es)"
  using mset_shuffle [OF assms] unfolding ranked_pool_def
  by (metis (no_types, lifting) case_prod_beta)

lemma set_ranked_pool:
  assumes "draws_below below"
  shows "set (fst (ranked_pool below es excluded lev active r)) = {e \<in> set es. entry_item_id e \<noteq> excluded}"
proof -
  obtain same act rest r' where *: "ranked_pool below es excluded lev active r = (same @ act @ rest, r')"
    "mset same = mset (same_level_band excluded lev es)" "mset act = mset (active_band excluded lev active es)"
    "mset rest = mset (rest_band excluded lev active es)"
    by (rule ranked_pool_bands [OF assms])
  then have "set same = set (same_level_band excluded lev es)" "set act = set (active_band excluded lev active es)"
    "set rest = set (rest_band excluded lev active es)"
    by (metis mset_eq_setD)+
  then show ?thesis using * by (auto simp: same_level_band_def active_band_def rest_band_def)
qed

definition answers_of :: "(catalog_entry \<Rightarrow> ustr option) \<Rightarrow> catalog_entry list \<Rightarrow> ustr set" where
  "answers_of offer es = {a. \<exists>e \<in> set es. offer e = Some a}"

lemma pick_distractors_spec:
  assumes "distinct ds" and "set ds \<subseteq> set seen" and "c \<in> set seen" and "c \<notin> set ds" and "set seen = insert c (set ds)"
    and "length ds \<le> WANTED"
  shows "let out = pick_distractors offer es seen ds in
     distinct out \<and> c \<notin> set out \<and> length out \<le> WANTED \<and> set out \<subseteq> set ds \<union> answers_of offer es
     \<and> (length out < WANTED \<longrightarrow> answers_of offer es \<subseteq> insert c (set out)) \<and> set ds \<subseteq> set out"
  using assms
proof (induction offer es seen ds rule: pick_distractors.induct)
  case (1 offer seen ds)
  then show ?case by (simp add: answers_of_def)
next
  case (2 offer e es seen ds)
  show ?case
  proof (cases "WANTED \<le> length ds")
    case True
    then show ?thesis using 2 by simp
  next
    case short: False
    have cons: "answers_of offer (e # es) = set_option (offer e) \<union> answers_of offer es"
      by (auto simp: answers_of_def)
    show ?thesis
    proof (cases "offer e")
      case None
      then show ?thesis using 2 short by (simp add: cons Let_def)
    next
      case (Some a)
      show ?thesis
      proof (cases "a \<in> set seen")
        case True
        then show ?thesis using 2 short Some by (auto simp: cons Let_def)
      next
        case False
        then have "let out = pick_distractors offer es (a # seen) (ds @ [a]) in
           distinct out \<and> c \<notin> set out \<and> length out \<le> WANTED \<and> set out \<subseteq> set (ds @ [a]) \<union> answers_of offer es
           \<and> (length out < WANTED \<longrightarrow> answers_of offer es \<subseteq> insert c (set out)) \<and> set (ds @ [a]) \<subseteq> set out"
          using short Some "2.prems" by (intro "2.IH"(3)) auto
        then show ?thesis using short Some False by (auto simp: cons Let_def)
      qed
    qed
  qed
qed

lemma pick_distractors_from_correct:
  "let out = pick_distractors offer es [c] [] in
     distinct (c # out) \<and> length out \<le> WANTED \<and> set out \<subseteq> answers_of offer es
     \<and> (length out < WANTED \<longrightarrow> answers_of offer es \<subseteq> insert c (set out))"
  using pick_distractors_spec [of "[]" "[c]" c offer es] by (simp add: Let_def)

text \<open>Everything that could be offered for a card, its own item apart.\<close>

definition offerable :: "content_db \<Rightarrow> card_key \<Rightarrow> item \<Rightarrow> ustr set" where
  "offerable db k it = answers_of (offered db (key_direction k) (item_script it))
     (filter (\<lambda>e. entry_item_id e \<noteq> key_item_id k) (catalog_entries db (key_type k)))"

lemma choices_for_spec:
  assumes below: "draws_below below" and choices: "choices_for below k it s db r = Some cs"
  shows "\<exists>correct ds. correct = hd (accepted_answers_for (key_direction k) it) \<and> accepted_answers_for (key_direction k) it \<noteq> []
     \<and> mset cs = mset (correct # ds) \<and> distinct (correct # ds) \<and> length ds \<le> WANTED \<and> set ds \<subseteq> offerable db k it
     \<and> (length ds < WANTED \<longrightarrow> offerable db k it \<subseteq> insert correct (set ds))"
proof -
  obtain correct others where ans: "accepted_answers_for (key_direction k) it = correct # others"
    using choices by (auto simp: choices_for_def split: list.splits)
  obtain pool r' where pool: "ranked_pool below (catalog_entries db (key_type k)) (key_item_id k) (item_level it) (levels s) r
      = (pool, r')" by fastforce
  let ?offer = "offered db (key_direction k) (item_script it)"
  define ds where "ds = pick_distractors ?offer pool [correct] []"
  have cs: "cs = fst (shuffle_list below (correct # ds) r')"
    using choices by (simp add: choices_for_def ans pool ds_def)
  have "set pool = {e \<in> set (catalog_entries db (key_type k)). entry_item_id e \<noteq> key_item_id k}"
    using set_ranked_pool [OF below, of "catalog_entries db (key_type k)" "key_item_id k" "item_level it" "levels s" r]
    by (simp add: pool)
  then have "answers_of ?offer pool = offerable db k it" by (simp add: answers_of_def offerable_def)
  then show ?thesis
    using pick_distractors_from_correct [of ?offer pool correct] ans mset_shuffle [OF below, of "correct # ds" r']
    by (intro exI [of _ correct] exI [of _ ds]) (simp add: Let_def ds_def [symmetric] cs)
qed

end
