(* ===== verification/Timestamps.thy ===== *)
theory Timestamps
  imports PyTime Prelude "HOL-Library.Monad_Syntax"
begin

text \<open>
  \<^verbatim>\<open>db/timestamps.py\<close>: the UTC strings of \<^verbatim>\<open>progress.db\<close>.  The first section is the proleptic
  Gregorian calendar of \<^verbatim>\<open>datetime\<close> (day 0 is 0001-01-01), the second the rendering, the third the
  parser.  The main lemmas are \<open>stamp_less_iff\<close> (the strings order like the instants, which is what
  the SQL comparisons need) and \<open>parse_stamp\<close> (the round trip).
\<close>

section \<open>The calendar\<close>

definition is_leap :: "int \<Rightarrow> bool" where
  "is_leap y \<longleftrightarrow> y mod 4 = 0 \<and> (y mod 100 \<noteq> 0 \<or> y mod 400 = 0)"

definition days_before_year :: "int \<Rightarrow> int" where
  "days_before_year y = (let k = y - 1 in 365 * k + k div 4 - k div 100 + k div 400)"

definition month_lengths :: "int \<Rightarrow> int list" where
  "month_lengths y = [31, if is_leap y then 29 else 28, 31, 30, 31, 30, 31, 31, 30, 31, 30, 31]"

text \<open>The year of a day and the day within that year, by the 400, 100, 4 and 1 year cycles.\<close>

definition year_day :: "int \<Rightarrow> int \<times> int" where
  "year_day n =
     (let a = n div 146097; r = n mod 146097;
          b = min 3 (r div 36524); r = r - 36524 * b;
          c = r div 1461; r = r mod 1461;
          e = min 3 (r div 365)
      in (400 * a + 100 * b + 4 * c + e + 1, r - 365 * e))"

fun month_day :: "int list \<Rightarrow> int \<Rightarrow> int \<Rightarrow> int \<times> int" where
  "month_day [] m n = (m, n + 1)"
| "month_day (l # ls) m n = (if n < l then (m, n + 1) else month_day ls (m + 1) (n - l))"

definition civil :: "int \<Rightarrow> int \<times> int \<times> int" where
  "civil n = (case year_day n of (y, k) \<Rightarrow> (y, month_day (month_lengths y) 1 k))"

definition ordinal :: "int \<Rightarrow> int \<Rightarrow> int \<Rightarrow> int" where
  "ordinal y m d = days_before_year y + sum_list (take (nat (m - 1)) (month_lengths y)) + d - 1"

lemma days_before_year_cycles:
  assumes "0 \<le> b" "b \<le> 3" "0 \<le> c" "c \<le> 24" "0 \<le> e" "e \<le> 3"
  shows "days_before_year (400 * a + 100 * b + 4 * c + e + 1) = 146097 * a + 36524 * b + 1461 * c + 365 * e"
proof -
  let ?k = "400 * a + 100 * b + 4 * c + e"
  have "?k div 4 = 100 * a + 25 * b + c" "?k div 100 = 4 * a + b" "?k div 400 = a"
    using assms by linarith+
  then show ?thesis by (simp add: days_before_year_def)
qed

lemma mod_scale: "(4 * x) mod 100 = 4 * (x mod (25 :: int))" "(100 * x) mod 400 = 100 * (x mod (4 :: int))"
  using mult_mod_right [of 4 x 25] mult_mod_right [of 100 x 4] by simp_all

lemma is_leap_cycles:
  assumes "0 \<le> b" "b \<le> 3" "0 \<le> c" "c \<le> 24" "0 \<le> e" "e \<le> 3"
  shows "is_leap (400 * a + 100 * b + 4 * c + e + 1) \<longleftrightarrow> e = 3 \<and> (c \<noteq> 24 \<or> b = 3)"
proof (cases "e = 3")
  case True
  define y where "y = 400 * a + 100 * b + 4 * c + e + 1"
  define x where "x = (c + 1) + 25 * (4 * a + b)"
  have y: "y = 4 * x" using True by (simp add: y_def x_def)
  have x: "x mod 25 = (c + 1) mod 25" unfolding x_def by (rule mod_mult_self2)
  have leap4: "y mod 4 = 0" unfolding y by (rule mod_mult_self1_is_0)
  have "y mod 100 = 4 * ((c + 1) mod 25)" unfolding y mod_scale x by (rule refl)
  moreover have "(c + 1) mod 25 = 0 \<longleftrightarrow> c = 24" using assms by presburger
  ultimately have leap100: "y mod 100 = 0 \<longleftrightarrow> c = 24" by simp
  have leap400: "y mod 400 = 0 \<longleftrightarrow> b = 3" if "c = 24"
  proof -
    define z where "z = (b + 1) + 4 * a"
    have "y = 100 * z" using True that by (simp add: y_def z_def)
    moreover have "z mod 4 = (b + 1) mod 4" unfolding z_def by (rule mod_mult_self2)
    moreover have "(b + 1) mod 4 = 0 \<longleftrightarrow> b = 3" using assms by presburger
    ultimately show ?thesis by (simp only: mod_scale) simp
  qed
  have "is_leap y \<longleftrightarrow> e = 3 \<and> (c \<noteq> 24 \<or> b = 3)"
    unfolding is_leap_def leap100 using True leap4 leap400 by metis
  then show ?thesis unfolding y_def .
next
  case False
  define y where "y = 400 * a + 100 * b + 4 * c + e + 1"
  have "y = (e + 1) + 4 * (100 * a + 25 * b + c)" by (simp add: y_def)
  then have "y mod 4 = (e + 1) mod 4" by (simp only: mod_mult_self2)
  also have "\<dots> = e + 1" using assms False by simp
  finally have "\<not> is_leap y" using assms False by (simp add: is_leap_def)
  then show ?thesis using False unfolding y_def by blast
qed

lemma div_next: "0 < (m :: int) \<Longrightarrow> y div m = (y - 1) div m + (if y mod m = 0 then 1 else 0)"
proof -
  assume m: "0 < m"
  define q where "q = y div m"
  have y: "y = m * q + y mod m" by (simp add: q_def)
  have r: "0 \<le> y mod m" "y mod m < m" using m by simp_all
  show ?thesis
  proof (cases "y mod m = 0")
    case True
    have "(y - 1) div m = q - 1"
      by (rule int_div_pos_eq [where r = "m - 1"]) (use y True m in \<open>simp_all add: algebra_simps\<close>)
    then show ?thesis using True by (simp add: q_def)
  next
    case False
    have "(y - 1) div m = q"
      by (rule int_div_pos_eq [where r = "y mod m - 1"]) (use y False r in linarith)+
    then show ?thesis using False by (simp add: q_def)
  qed
qed

lemma days_before_year_Suc: "days_before_year (y + 1) = days_before_year y + (if is_leap y then 366 else 365)"
proof -
  define A where "A = (y - 1) div 4"
  define B where "B = (y - 1) div 100"
  define C where "C = (y - 1) div 400"
  define P where "P \<longleftrightarrow> y mod 4 = 0"
  define Q where "Q \<longleftrightarrow> y mod 100 = 0"
  define R where "R \<longleftrightarrow> y mod 400 = 0"
  have quotients: "y div 4 = A + (if P then 1 else 0)" "y div 100 = B + (if Q then 1 else 0)"
    "y div 400 = C + (if R then 1 else 0)"
    unfolding A_def B_def C_def P_def Q_def R_def by (rule div_next, simp)+
  have "R \<Longrightarrow> Q" "Q \<Longrightarrow> P" unfolding P_def Q_def R_def by presburger+
  then have "365 * y + (A + (if P then 1 else 0)) - (B + (if Q then 1 else 0)) + (C + (if R then 1 else 0))
     = 365 * (y - 1) + A - B + C + (if P \<and> (\<not> Q \<or> R) then 366 else 365)"
    by (cases P; cases Q; cases R) simp_all
  then show ?thesis
    unfolding days_before_year_def is_leap_def Let_def add_diff_cancel_right'
      P_def [symmetric] Q_def [symmetric] R_def [symmetric] A_def [symmetric] B_def [symmetric]
      C_def [symmetric] quotients .
qed

lemma days_before_year_less: "y < z \<Longrightarrow> days_before_year y < days_before_year z"
proof (induction z rule: int_gr_induct [of y, consumes 1])
  case base
  then show ?case by (simp add: days_before_year_Suc)
next
  case (step z)
  then show ?case by (simp add: days_before_year_Suc)
qed

lemma days_before_year_mono: "y \<le> z \<Longrightarrow> days_before_year y \<le> days_before_year z"
  using days_before_year_less [of y z] by (cases "y = z") auto

lemma year_day_spec:
  assumes "year_day n = (y, k)"
  shows "days_before_year y + k = n" "0 \<le> k" "k < (if is_leap y then 366 else 365)"
proof -
  define a where "a = n div 146097"
  define r where "r = n mod 146097"
  define b where "b = min 3 (r div 36524)"
  define r2 where "r2 = r - 36524 * b"
  define c where "c = r2 div 1461"
  define r3 where "r3 = r2 mod 1461"
  define e where "e = min 3 (r3 div 365)"
  have y: "y = 400 * a + 100 * b + 4 * c + e + 1" and k: "k = r3 - 365 * e"
    using assms
    unfolding year_day_def Let_def a_def [symmetric] r_def [symmetric] b_def [symmetric]
      r2_def [symmetric] c_def [symmetric] r3_def [symmetric] e_def [symmetric]
    by (simp_all only: prod.inject)
  have r: "0 \<le> r" "r < 146097" "n = 146097 * a + r" by (simp_all add: r_def a_def)
  have b: "0 \<le> b" "b \<le> 3" "0 \<le> r2" "b < 3 \<Longrightarrow> r2 < 36524" "r2 \<le> 36524"
    using r div_mult_mod_eq [of r 36524] pos_mod_bound [of 36524 r] pos_mod_sign [of 36524 r]
    unfolding b_def r2_def min_def by (auto split: if_splits)
  have c: "0 \<le> c" "c \<le> 24" "r2 = 1461 * c + r3" "0 \<le> r3" "r3 < 1461"
    using b div_mult_mod_eq [of r2 1461] pos_mod_bound [of 1461 r2] pos_mod_sign [of 1461 r2]
    unfolding c_def r3_def by (auto simp: pos_imp_zdiv_nonneg_iff)
  have e: "0 \<le> e" "e \<le> 3" "0 \<le> k" "e < 3 \<Longrightarrow> k < 365" "k \<le> 365"
    using c div_mult_mod_eq [of r3 365] pos_mod_bound [of 365 r3] pos_mod_sign [of 365 r3]
    unfolding k e_def min_def by (auto simp: pos_imp_zdiv_nonneg_iff split: if_splits)
  show "days_before_year y + k = n"
    using days_before_year_cycles [OF b(1,2) c(1,2) e(1,2), of a] r(3) c(3) r2_def
    unfolding y k by linarith
  show "0 \<le> k" by (rule e)
  have "k = 365 \<Longrightarrow> e = 3 \<and> (c \<noteq> 24 \<or> b = 3)"
  proof
    assume k365: "k = 365"
    then show e3: "e = 3" using e by force
    show "c \<noteq> 24 \<or> b = 3"
    proof (rule ccontr)
      assume "\<not> ?thesis"
      then have "r2 < 36524" "r2 = 35064 + r3" using b c by auto
      moreover have "r3 = 1460" using k365 e3 k by simp
      ultimately show False by simp
    qed
  qed
  moreover have "is_leap y \<longleftrightarrow> e = 3 \<and> (c \<noteq> 24 \<or> b = 3)"
    unfolding y by (rule is_leap_cycles [OF b(1,2) c(1,2) e(1,2)])
  moreover have "k \<noteq> 365 \<Longrightarrow> k < 365" using e(5) by simp
  ultimately show "k < (if is_leap y then 366 else 365)" by (cases "k = 365") simp_all
qed

lemma year_day_unique:
  assumes "days_before_year y + k = n" "0 \<le> k" "k < (if is_leap y then 366 else 365)"
  shows "year_day n = (y, k)"
proof -
  obtain z j where z: "year_day n = (z, j)" by fastforce
  note Z = year_day_spec [OF z]
  have "n < days_before_year (y + 1)" "n < days_before_year (z + 1)"
    using assms Z by (auto simp: days_before_year_Suc split: if_splits)
  then have "\<not> y < z" "\<not> z < y"
    using days_before_year_mono [of "y + 1" z] days_before_year_mono [of "z + 1" y] assms Z by auto
  then show ?thesis using z Z assms by auto
qed

lemma length_month_lengths [simp]: "length (month_lengths y) = 12"
  by (simp add: month_lengths_def)

lemma sum_month_lengths: "sum_list (month_lengths y) = (if is_leap y then 366 else 365)"
  by (simp add: month_lengths_def)

lemma month_lengths_bounds: "\<forall>l \<in> set (month_lengths y). 28 \<le> l \<and> l \<le> 31"
  by (simp add: month_lengths_def)

lemma month_day_spec:
  assumes "month_day ls m n = (m', d)" and "0 \<le> n" "n < sum_list ls"
  shows "m \<le> m'" "nat (m' - m) < length ls" "1 \<le> d" "d \<le> ls ! nat (m' - m)"
    "sum_list (take (nat (m' - m)) ls) + d - 1 = n"
proof -
  have "m \<le> m' \<and> nat (m' - m) < length ls \<and> 1 \<le> d \<and> d \<le> ls ! nat (m' - m)
    \<and> sum_list (take (nat (m' - m)) ls) + d - 1 = n"
    using assms
  proof (induction ls arbitrary: m n)
    case (Cons l ls)
    show ?case
    proof (cases "n < l")
      case True
      with Cons.prems show ?thesis by auto
    next
      case False
      then have IH: "m + 1 \<le> m' \<and> nat (m' - (m + 1)) < length ls \<and> 1 \<le> d \<and> d \<le> ls ! nat (m' - (m + 1))
        \<and> sum_list (take (nat (m' - (m + 1))) ls) + d - 1 = n - l"
        using Cons.prems by (intro Cons.IH) auto
      then have "nat (m' - m) = Suc (nat (m' - (m + 1)))" by linarith
      with IH show ?thesis by simp
    qed
  qed simp
  then show "m \<le> m'" "nat (m' - m) < length ls" "1 \<le> d" "d \<le> ls ! nat (m' - m)"
    "sum_list (take (nat (m' - m)) ls) + d - 1 = n" by auto
qed

lemma month_day_inverse:
  assumes "j < length ls" "1 \<le> d" "d \<le> ls ! j" "\<forall>l \<in> set ls. 0 \<le> l"
  shows "month_day ls m (sum_list (take j ls) + d - 1) = (m + int j, d)"
  using assms
proof (induction ls arbitrary: j m)
  case (Cons l ls)
  show ?case
  proof (cases j)
    case 0
    with Cons.prems show ?thesis by simp
  next
    case (Suc i)
    have "0 \<le> sum_list (take i ls)"
      using Cons.prems by (intro sum_list_nonneg) (auto dest: in_set_takeD)
    moreover have "month_day ls (m + 1) (sum_list (take i ls) + d - 1) = (m + 1 + int i, d)"
      using Cons.prems Suc by (intro Cons.IH) auto
    ultimately show ?thesis using Suc Cons.prems by (simp add: algebra_simps)
  qed
qed simp

lemma month_day_ge: "m \<le> fst (month_day ls m n)"
proof (induction ls arbitrary: m n)
  case (Cons l ls)
  from Cons.IH [of "m + 1" "n - l"] show ?case by simp
qed simp

lemma month_day_mono: "n < n' \<Longrightarrow> month_day ls m n < month_day ls m n'"
proof (induction ls arbitrary: m n n')
  case (Cons l ls)
  have "m < fst (month_day ls (m + 1) (n' - l))"
    using month_day_ge [of "m + 1" ls "n' - l"] by simp
  moreover have "month_day ls (m + 1) (n - l) < month_day ls (m + 1) (n' - l)"
    using Cons.prems by (intro Cons.IH) simp
  ultimately show ?case using Cons.prems by (auto simp: less_prod_def')
qed (simp add: less_prod_def')

lemma ordinal_civil: "civil n = (y, m, d) \<Longrightarrow> ordinal y m d = n"
  and civil_bounds: "civil n = (y, m, d) \<Longrightarrow>
    1 \<le> m \<and> m \<le> 12 \<and> 1 \<le> d \<and> d \<le> month_lengths y ! nat (m - 1) \<and> d \<le> 31"
proof -
  assume c: "civil n = (y, m, d)"
  then obtain k where k: "year_day n = (y, k)" "month_day (month_lengths y) 1 k = (m, d)"
    by (auto simp: civil_def split: prod.splits)
  note Y = year_day_spec [OF k(1)]
  note M = month_day_spec [OF k(2) Y(2), unfolded sum_month_lengths, OF Y(3)]
  show "ordinal y m d = n" using Y(1) M(5) by (simp add: ordinal_def)
  have "month_lengths y ! nat (m - 1) \<le> 31" using nth_mem [OF M(2)] month_lengths_bounds [of y] by blast
  then show "1 \<le> m \<and> m \<le> 12 \<and> 1 \<le> d \<and> d \<le> month_lengths y ! nat (m - 1) \<and> d \<le> 31"
    using M by simp
qed

lemma civil_ordinal:
  assumes "1 \<le> m" "m \<le> 12" "1 \<le> d" "d \<le> month_lengths y ! nat (m - 1)"
  shows "civil (ordinal y m d) = (y, m, d)"
proof -
  define k where "k = sum_list (take (nat (m - 1)) (month_lengths y)) + d - 1"
  have md: "month_day (month_lengths y) 1 k = (1 + int (nat (m - 1)), d)"
    unfolding k_def using assms month_lengths_bounds [of y] by (intro month_day_inverse) force+
  have le: "sum_list (take (nat (m - 1)) (month_lengths y)) + month_lengths y ! nat (m - 1)
      \<le> sum_list (month_lengths y)"
  proof -
    let ?j = "nat (m - 1)"
    have "sum_list (month_lengths y) = sum_list (take ?j (month_lengths y)) + sum_list (drop ?j (month_lengths y))"
      by (metis append_take_drop_id sum_list_append)
    moreover have "drop ?j (month_lengths y) = month_lengths y ! ?j # drop (Suc ?j) (month_lengths y)"
      using assms by (intro Cons_nth_drop_Suc [symmetric]) simp
    moreover have "0 \<le> sum_list (drop (Suc ?j) (month_lengths y))"
      using month_lengths_bounds [of y] by (intro sum_list_nonneg) (force dest: in_set_dropD)
    ultimately show ?thesis by simp
  qed
  have "0 \<le> sum_list (take (nat (m - 1)) (month_lengths y))"
    using month_lengths_bounds [of y] by (intro sum_list_nonneg) (force dest: in_set_takeD)
  then have "year_day (ordinal y m d) = (y, k)"
    using le assms sum_month_lengths [of y]
    by (intro year_day_unique) (auto simp: ordinal_def k_def split: if_splits)
  then show ?thesis using md assms by (simp add: civil_def)
qed

lemma civil_mono: "n < n' \<Longrightarrow> civil n < civil n'"
proof -
  assume less: "n < n'"
  obtain y k y' k' where Y: "year_day n = (y, k)" "year_day n' = (y', k')" by fastforce
  note S = year_day_spec [OF Y(1)] and S' = year_day_spec [OF Y(2)]
  have "n < days_before_year (y + 1)" "n' < days_before_year (y' + 1)"
    using S S' by (auto simp: days_before_year_Suc split: if_splits)
  then have "y \<le> y'" using days_before_year_mono [of "y' + 1" y] S S' less by force
  moreover have "y = y' \<Longrightarrow> k < k'" using S S' less by simp
  ultimately show ?thesis using Y month_day_mono [of k k' "month_lengths y" 1]
    by (auto simp: civil_def less_prod_def')
qed

section \<open>Rendering\<close>

text \<open>
  \<^verbatim>\<open>strftime("%Y-%m-%dT%H:%M:%S.%fZ")\<close>.  Every directive but \<^verbatim>\<open>%Y\<close> is zero-padded to a fixed width;
  \<^verbatim>\<open>%Y\<close> is the C library's, which does not pad, so the width is fixed for the years from 1000.
\<close>

fun pad :: "nat \<Rightarrow> nat \<Rightarrow> ustr" where
  "pad 0 n = []"
| "pad (Suc w) n = pad w (n div 10) @ [48 + n mod 10]"

definition DASH :: nat where "DASH = 45"
definition COLON :: nat where "COLON = 58"
definition DOT :: nat where "DOT = 46"
definition LETTER_T :: nat where "LETTER_T = 84"
definition LETTER_Z :: nat where "LETTER_Z = 90"

lemmas stamp_chars = DASH_def COLON_def DOT_def LETTER_T_def LETTER_Z_def

definition render :: "ustr \<Rightarrow> nat \<Rightarrow> nat \<Rightarrow> nat \<Rightarrow> nat \<Rightarrow> nat \<Rightarrow> nat \<Rightarrow> ustr" where
  "render year m d h mi s us =
     year @ DASH # pad 2 m @ DASH # pad 2 d @ LETTER_T # pad 2 h @ COLON # pad 2 mi
       @ COLON # pad 2 s @ DOT # pad 6 us @ [LETTER_Z]"

definition stamp :: "instant \<Rightarrow> ustr" where
  "stamp t =
     (case civil (t div DAY) of (y, m, d) \<Rightarrow>
        let us = t mod DAY in
        render (dec (nat y)) (nat m) (nat d) (nat (us div HOUR)) (nat (us div (60 * SECOND) mod 60))
          (nat (us div SECOND mod 60)) (nat (us mod SECOND)))"

text \<open>\<^verbatim>\<open>format_timestamp\<close>: a naive datetime raises \<^verbatim>\<open>ValueError\<close> (\<open>None\<close>).\<close>

fun format_timestamp :: "datetime \<Rightarrow> ustr option" where
  "format_timestamp (Naive w) = None"
| "format_timestamp (Aware t) = Some (stamp t)"

text \<open>The instants whose year has four digits.\<close>

definition stamp_ok :: "instant \<Rightarrow> bool" where
  "stamp_ok t \<longleftrightarrow> days_before_year 1000 * DAY \<le> t \<and> t < days_before_year 10000 * DAY"

lemma length_pad [simp]: "length (pad w n) = w"
  by (induction w arbitrary: n) auto

lemma pad_digits: "\<forall>c \<in> set (pad w n). 48 \<le> c \<and> c \<le> 57"
  by (induction w arbitrary: n) auto

lemma less_append_iff:
  "length a = length b \<Longrightarrow> (a @ s :: nat list) < b @ t \<longleftrightarrow> a < b \<or> a = b \<and> s < t"
  by (induction a b rule: list_induct2) auto

lemma pad_inject: "m < 10 ^ w \<Longrightarrow> n < 10 ^ w \<Longrightarrow> pad w m = pad w n \<longleftrightarrow> m = n"
proof (induction w arbitrary: m n)
  case (Suc w)
  have "pad w (m div 10) = pad w (n div 10) \<longleftrightarrow> m div 10 = n div 10"
    using Suc.prems by (intro Suc.IH) auto
  then show ?case by simp (metis div_mult_mod_eq)
qed simp

lemma less_iff_digits: "(m :: nat) < n \<longleftrightarrow> m div 10 < n div 10 \<or> m div 10 = n div 10 \<and> m mod 10 < n mod 10"
proof -
  define a b c d where "a = m div 10" and "b = m mod 10" and "c = n div 10" and "d = n mod 10"
  then have "m = 10 * a + b" "n = 10 * c + d" "b < 10" "d < 10" by simp_all
  then have "m < n \<longleftrightarrow> a < c \<or> a = c \<and> b < d" by linarith
  then show ?thesis unfolding a_def b_def c_def d_def .
qed

lemma less_pair: "((a :: 'a::order), (b :: 'b::order)) < (c, d) \<longleftrightarrow> a < c \<or> a = c \<and> b < d"
  by (auto simp: less_le)

lemma mod_less_same_div: "(u :: int) < v \<Longrightarrow> u div k = v div k \<Longrightarrow> u mod k < v mod k"
  by (simp add: minus_mult_div_eq_mod [symmetric])

lemma pad_less: "m < 10 ^ w \<Longrightarrow> n < 10 ^ w \<Longrightarrow> pad w m < pad w n \<longleftrightarrow> m < n"
proof (induction w arbitrary: m n)
  case (Suc w)
  have small: "m div 10 < 10 ^ w" "n div 10 < 10 ^ w" using Suc.prems by auto
  have "pad (Suc w) m < pad (Suc w) n \<longleftrightarrow> m div 10 < n div 10 \<or> m div 10 = n div 10 \<and> m mod 10 < n mod 10"
    using Suc.IH [OF small] pad_inject [OF small] by (simp add: less_append_iff)
  also have "\<dots> \<longleftrightarrow> m < n" by (rule less_iff_digits [symmetric])
  finally show ?case .
qed simp

lemma pad_numeral: "pad (numeral k) n = pad (pred_numeral k) (n div 10) @ [48 + n mod 10]"
  by (subst numeral_eq_Suc) (rule pad.simps)

lemma dec_pad4: "1000 \<le> y \<Longrightarrow> y < 10000 \<Longrightarrow> dec y = pad 4 y"
proof -
  assume y: "1000 \<le> y" "y < 10000"
  have big: "dec k = dec (k div 10) @ [48 + k mod 10]" if "10 \<le> k" for k using that by (subst dec.simps) simp
  have one: "dec k = [48 + k]" if "k < 10" for k using that by (subst dec.simps) simp
  have "dec y = dec (y div 10 div 10 div 10) @ [48 + y div 10 div 10 mod 10] @ [48 + y div 10 mod 10] @ [48 + y mod 10]"
    using y big [of y] big [of "y div 10"] big [of "y div 10 div 10"] by simp
  moreover have "y div 10 div 10 div 10 < 10" using y by (simp add: div_mult2_eq [symmetric])
  ultimately show ?thesis using one [of "y div 10 div 10 div 10"]
    by (simp add: pad_numeral)
qed

lemma year_bounds:
  assumes "stamp_ok t" and "civil (t div DAY) = (y, m, d)"
  shows "1000 \<le> y" "y < 10000"
proof -
  obtain k where k: "year_day (t div DAY) = (y, k)" using assms(2) by (auto simp: civil_def split: prod.splits)
  note Y = year_day_spec [OF k]
  have up: "t div DAY < days_before_year (y + 1)" using Y by (auto simp: days_before_year_Suc split: if_splits)
  have "days_before_year 1000 \<le> t div DAY" "t div DAY < days_before_year 10000"
    using assms(1) by (simp_all add: stamp_ok_def le_div_DAY_iff div_DAY_less_iff)
  then have "\<not> y + 1 \<le> 1000" "\<not> 10000 \<le> y"
    using up Y(1,2) days_before_year_mono [of "y + 1" 1000] days_before_year_mono [of 10000 y] by linarith+
  then show "1000 \<le> y" "y < 10000" by simp_all
qed

section \<open>The order of the strings\<close>

lemma render_less:
  assumes "length year = length year'"
    and "m < 100" "m' < 100" "d < 100" "d' < 100" "h < 100" "h' < 100" "mi < 100" "mi' < 100"
    and "s < 100" "s' < 100" "us < 1000000" "us' < 1000000"
    and "(year, m, d, h, mi, s, us) < (year', m', d', h', mi', s', us')"
  shows "render year m d h mi s us < render year' m' d' h' mi' s' us'"
proof -
  have two: "pad 2 a < pad 2 b \<longleftrightarrow> a < b" "pad 2 a = pad 2 b \<longleftrightarrow> a = b" if "a < 100" "b < 100" for a b
    using that pad_less [of a 2 b] pad_inject [of a 2 b] by simp_all
  have six: "pad 6 us < pad 6 us' \<longleftrightarrow> us < us'"
    using assms pad_less [of us 6 us'] by simp
  have "render year m d h mi s us < render year' m' d' h' mi' s' us' \<longleftrightarrow>
      (year, m, d, h, mi, s, us) < (year', m', d', h', mi', s', us')"
    unfolding render_def less_pair by (simp add: less_append_iff assms(1-13) two six)
  then show ?thesis using assms(14) by simp
qed

lemma clock_less:
  assumes "0 \<le> u" "u < v" "v < DAY"
  shows "(nat (u div HOUR), nat (u div (60 * SECOND) mod 60), nat (u div SECOND mod 60), nat (u mod SECOND))
       < (nat (v div HOUR), nat (v div (60 * SECOND) mod 60), nat (v div SECOND mod 60), nat (v mod SECOND))"
proof -
  have hour: "x div HOUR = x div SECOND div 60 div 60" "x div (60 * SECOND) = x div SECOND div 60" for x
    unfolding HOUR_def SECOND_def by (simp_all add: zdiv_zmult2_eq [symmetric])
  define a where "a = u div SECOND"
  define b where "b = v div SECOND"
  have ab: "0 \<le> a" "a \<le> b" "a = b \<Longrightarrow> u mod SECOND < v mod SECOND"
    "0 \<le> u mod SECOND" "0 \<le> v mod SECOND"
    using assms mod_less_same_div [of u v SECOND] zdiv_mono1 [of u v SECOND]
    by (auto simp: a_def b_def SECOND_def pos_imp_zdiv_nonneg_iff)
  have lex: "a div 60 div 60 < b div 60 div 60 \<or> a div 60 div 60 = b div 60 div 60
      \<and> (a div 60 mod 60 < b div 60 mod 60 \<or> a div 60 mod 60 = b div 60 mod 60 \<and>
         (a mod 60 < b mod 60 \<or> a = b))"
  proof -
    have step: "x div 60 < y div 60 \<or> x div 60 = y div 60 \<and> x mod 60 < y mod 60" if "x < y" for x y :: int
      using that mod_less_same_div [OF that, of 60] zdiv_mono1 [of x y 60] by force
    show ?thesis
    proof (cases "a = b")
      case False
      then have "a < b" using ab by simp
      from step [OF this] show ?thesis using step [of "a div 60" "b div 60"] by metis
    qed blast
  qed
  have nn: "0 \<le> a div 60 mod 60" "0 \<le> a mod 60" "0 \<le> a div 60 div 60"
    "0 \<le> b div 60 mod 60" "0 \<le> b mod 60" "0 \<le> b div 60 div 60"
    using ab(1,2) by simp_all
  show ?thesis
    unfolding hour a_def [symmetric] b_def [symmetric]
    using lex nn ab(3-5) by (simp only: less_pair nat_less_eq_zless eq_nat_nat_iff) blast
qed

lemma stamp_mono:
  assumes ok: "stamp_ok t" "stamp_ok t'" and less: "t < t'"
  shows "stamp t < stamp t'"
proof -
  obtain y m d y' m' d' where c: "civil (t div DAY) = (y, m, d)" "civil (t' div DAY) = (y', m', d')"
    by (metis prod_cases3)
  note Y = year_bounds [OF ok(1) c(1)] year_bounds [OF ok(2) c(2)]
  note B = civil_bounds [OF c(1)] civil_bounds [OF c(2)]
  define C where "C u = (nat (u div HOUR), nat (u div (60 * SECOND) mod 60), nat (u div SECOND mod 60),
    nat (u mod SECOND))" for u
  have years: "dec (nat y) = pad 4 (nat y)" "dec (nat y') = pad 4 (nat y')" using Y by (simp_all add: dec_pad4)
  have year_less: "pad 4 (nat y) < pad 4 (nat y') \<longleftrightarrow> y < y'" "pad 4 (nat y) = pad 4 (nat y') \<longleftrightarrow> y = y'"
    using Y pad_less [of "nat y" 4 "nat y'"] pad_inject [of "nat y" 4 "nat y'"] by auto
  have clock: "nat (u div HOUR) < 100" "nat (u div (60 * SECOND) mod 60) < 100" "nat (u div SECOND mod 60) < 100"
      "nat (u mod SECOND) < 1000000" if "0 \<le> u" "u < DAY" for u
  proof -
    have "u div HOUR < 24" using that unfolding HOUR_def DAY_def by linarith
    moreover have "u div (60 * SECOND) mod 60 < 60" "u div SECOND mod 60 < 60" "u mod SECOND < 1000000"
      by (simp_all add: SECOND_def)
    ultimately show "nat (u div HOUR) < 100" "nat (u div (60 * SECOND) mod 60) < 100"
      "nat (u div SECOND mod 60) < 100" "nat (u mod SECOND) < 1000000" by linarith+
  qed
  have md: "nat m < 100" "nat m' < 100" "nat d < 100" "nat d' < 100" using B by auto
  have order: "(y, m, d) < (y', m', d') \<or> (y, m, d) = (y', m', d') \<and> t mod DAY < t' mod DAY"
  proof (cases "t div DAY = t' div DAY")
    case True
    then have "t mod DAY < t' mod DAY" by (rule mod_less_same_div [OF less])
    then show ?thesis using c True by simp
  next
    case False
    then have "t div DAY < t' div DAY" using less zdiv_mono1 [of t t' DAY] by simp
    then show ?thesis using civil_mono [of "t div DAY" "t' div DAY"] c by simp
  qed
  have "(pad 4 (nat y), nat m, nat d, C (t mod DAY)) < (pad 4 (nat y'), nat m', nat d', C (t' mod DAY))"
  proof (cases "(y, m, d) < (y', m', d')")
    case True
    then show ?thesis using year_less Y B by (auto simp: nat_less_eq_zless)
  next
    case False
    with order have "(y, m, d) = (y', m', d')" "t mod DAY < t' mod DAY" by blast+
    then have "C (t mod DAY) < C (t' mod DAY)"
      unfolding C_def by (intro clock_less) simp_all
    then show ?thesis using False order by auto
  qed
  then have "render (pad 4 (nat y)) (nat m) (nat d) (nat (t mod DAY div HOUR)) (nat (t mod DAY div (60 * SECOND) mod 60))
          (nat (t mod DAY div SECOND mod 60)) (nat (t mod DAY mod SECOND))
     < render (pad 4 (nat y')) (nat m') (nat d') (nat (t' mod DAY div HOUR)) (nat (t' mod DAY div (60 * SECOND) mod 60))
          (nat (t' mod DAY div SECOND mod 60)) (nat (t' mod DAY mod SECOND))"
    unfolding C_def by (intro render_less md clock pos_mod_sign pos_mod_bound DAY_pos) (simp_all only: length_pad)
  then show ?thesis by (simp add: stamp_def c years Let_def)
qed

lemma stamp_less_iff: "stamp_ok t \<Longrightarrow> stamp_ok t' \<Longrightarrow> stamp t < stamp t' \<longleftrightarrow> t < t'"
  using stamp_mono [of t t'] stamp_mono [of t' t] by (metis less_irrefl less_trans linorder_neqE)

lemma stamp_inject: "stamp_ok t \<Longrightarrow> stamp_ok t' \<Longrightarrow> stamp t = stamp t' \<longleftrightarrow> t = t'"
  using stamp_mono [of t t'] stamp_mono [of t' t] by (metis less_irrefl linorder_neqE)

lemma stamp_le_iff: "stamp_ok t \<Longrightarrow> stamp_ok t' \<Longrightarrow> stamp t \<le> stamp t' \<longleftrightarrow> t \<le> t'"
  using stamp_less_iff [of t' t] by (simp add: not_less [symmetric])

section \<open>Parsing\<close>

text \<open>
  \<^verbatim>\<open>datetime.strptime(text, _FORMAT)\<close>: the year has four digits, the other fields one or two (the
  fraction one to six, padded on the right), the letters are matched in either case, and
  \<^verbatim>\<open>datetime\<close> itself then refuses year 0, a day beyond its month and a second over 59.  Only ASCII
  digits are read; the digits of other scripts and a blank before a one-digit day, which
  \<^verbatim>\<open>strptime\<close> would accept too, never occur in a stored string.
\<close>

definition is_digit :: "nat \<Rightarrow> bool" where
  "is_digit c \<longleftrightarrow> 48 \<le> c \<and> c \<le> 57"

fun digits :: "nat \<Rightarrow> ustr \<Rightarrow> ustr \<times> ustr" where
  "digits 0 s = ([], s)"
| "digits (Suc w) [] = ([], [])"
| "digits (Suc w) (c # s) =
     (if is_digit c then (case digits w s of (ds, r) \<Rightarrow> (c # ds, r)) else ([], c # s))"

definition undec :: "ustr \<Rightarrow> nat" where
  "undec ds = foldl (\<lambda>a c. 10 * a + (c - 48)) 0 ds"

definition field :: "nat \<Rightarrow> nat \<Rightarrow> nat \<Rightarrow> nat \<Rightarrow> ustr \<Rightarrow> (nat \<times> ustr) option" where
  "field wmin wmax lo hi s =
     (case digits wmax s of (ds, r) \<Rightarrow>
        if length ds < wmin \<or> undec ds < lo \<or> hi < undec ds then None else Some (undec ds, r))"

definition fraction :: "ustr \<Rightarrow> (nat \<times> ustr) option" where
  "fraction s =
     (case digits 6 s of (ds, r) \<Rightarrow> if ds = [] then None else Some (undec ds * 10 ^ (6 - length ds), r))"

fun expect :: "nat list \<Rightarrow> ustr \<Rightarrow> ustr option" where
  "expect cs [] = None"
| "expect cs (c # s) = (if c \<in> set cs then Some s else None)"

definition make_instant :: "nat \<Rightarrow> nat \<Rightarrow> nat \<Rightarrow> nat \<Rightarrow> nat \<Rightarrow> nat \<Rightarrow> nat \<Rightarrow> instant option" where
  "make_instant y m d h mi s us =
     (if y = 0 \<or> month_lengths (int y) ! (m - 1) < int d \<or> 59 < s then None
      else Some (ordinal (int y) (int m) (int d) * DAY + int h * HOUR + int mi * (60 * SECOND)
             + int s * SECOND + int us))"

definition parse_timestamp :: "ustr \<Rightarrow> instant option" where
  "parse_timestamp txt = do {
     (y, r) \<leftarrow> field 4 4 0 9999 txt;
     r \<leftarrow> expect [DASH] r;
     (m, r) \<leftarrow> field 1 2 1 12 r;
     r \<leftarrow> expect [DASH] r;
     (d, r) \<leftarrow> field 1 2 1 31 r;
     r \<leftarrow> expect [LETTER_T, 116] r;
     (h, r) \<leftarrow> field 1 2 0 23 r;
     r \<leftarrow> expect [COLON] r;
     (mi, r) \<leftarrow> field 1 2 0 59 r;
     r \<leftarrow> expect [COLON] r;
     (s, r) \<leftarrow> field 1 2 0 61 r;
     r \<leftarrow> expect [DOT] r;
     (us, r) \<leftarrow> fraction r;
     r \<leftarrow> expect [LETTER_Z, 122] r;
     (if r = [] then make_instant y m d h mi s us else None) }"

lemma digits_append:
  "length ds = w \<Longrightarrow> \<forall>c \<in> set ds. is_digit c \<Longrightarrow> digits w (ds @ r) = (ds, r)"
  by (induction ds arbitrary: w) auto

lemma digits_pad: "digits w (pad w n @ r) = (pad w n, r)"
  using pad_digits by (intro digits_append) (auto simp: is_digit_def)

lemma undec_pad: "n < 10 ^ w \<Longrightarrow> undec (pad w n) = n"
proof (induction w arbitrary: n)
  case (Suc w)
  then have "undec (pad w (n div 10)) = n div 10" by (intro Suc.IH) auto
  then show ?case by (simp add: undec_def)
qed (simp add: undec_def)

lemma field_pad:
  "n < 10 ^ w \<Longrightarrow> wmin \<le> w \<Longrightarrow> lo \<le> n \<Longrightarrow> n \<le> hi \<Longrightarrow> field wmin w lo hi (pad w n @ r) = Some (n, r)"
  by (simp add: field_def digits_pad undec_pad)

lemma fraction_pad: "n < 1000000 \<Longrightarrow> fraction (pad 6 n @ r) = Some (n, r)"
  using undec_pad [of n 6] length_pad [of 6 n]
  by (auto simp: fraction_def digits_pad simp del: length_pad)

lemma parse_render:
  assumes "y < 10000" "1 \<le> m" "m \<le> 12" "1 \<le> d" "d \<le> 31" "h < 24" "mi < 60" "s < 60" "us < 1000000"
  shows "parse_timestamp (render (pad 4 y) m d h mi s us) = make_instant y m d h mi s us"
  using assms unfolding parse_timestamp_def render_def
  by (simp add: field_pad fraction_pad)

lemma clock_parts:
  assumes "0 \<le> u" "u < DAY"
  shows "int (nat (u div HOUR)) * HOUR + int (nat (u div (60 * SECOND) mod 60)) * (60 * SECOND)
     + int (nat (u div SECOND mod 60)) * SECOND + int (nat (u mod SECOND)) = u" (is ?sum)
    and "nat (u div HOUR) < 24" "nat (u div (60 * SECOND) mod 60) < 60" "nat (u div SECOND mod 60) < 60"
    "nat (u mod SECOND) < 1000000"
proof -
  define a where "a = u div SECOND"
  have hour: "u div HOUR = a div 60 div 60" "u div (60 * SECOND) = a div 60"
    unfolding a_def HOUR_def SECOND_def by (simp_all add: zdiv_zmult2_eq [symmetric])
  have "0 \<le> a" using assms by (simp add: a_def SECOND_def pos_imp_zdiv_nonneg_iff)
  then have nn: "0 \<le> a div 60 mod 60" "0 \<le> a mod 60" "0 \<le> a div 60 div 60" "0 \<le> u mod SECOND"
    by (simp_all add: SECOND_def)
  have HOUR: "HOUR = 60 * 60 * SECOND" by (simp add: HOUR_def SECOND_def)
  have "a div 60 div 60 * (60 * 60) + a div 60 mod 60 * 60 + a mod 60 = a"
    using div_mult_mod_eq [of a 60] div_mult_mod_eq [of "a div 60" 60] by linarith
  then have "(a div 60 div 60 * (60 * 60) + a div 60 mod 60 * 60 + a mod 60) * SECOND + u mod SECOND = u"
    using div_mult_mod_eq [of u SECOND] by (simp only: a_def)
  then show ?sum unfolding hour a_def [symmetric] unfolding HOUR nat_0_le [OF nn(1)] nat_0_le [OF nn(2)]
      nat_0_le [OF nn(3)] nat_0_le [OF nn(4)] by (simp add: algebra_simps)
  have "u div HOUR < 24" using assms unfolding HOUR_def DAY_def by linarith
  then show "nat (u div HOUR) < 24" by linarith
  show "nat (u div (60 * SECOND) mod 60) < 60" "nat (u div SECOND mod 60) < 60" "nat (u mod SECOND) < 1000000"
    by (simp_all add: SECOND_def nat_less_iff)
qed

lemma parse_stamp:
  assumes ok: "stamp_ok t"
  shows "parse_timestamp (stamp t) = Some t"
proof -
  obtain y m d where c: "civil (t div DAY) = (y, m, d)" by (metis prod_cases3)
  note Y = year_bounds [OF ok c] and B = civil_bounds [OF c]
  define u where "u = t mod DAY"
  have u: "0 \<le> u" "u < DAY" by (simp_all add: u_def)
  define h mi s us where "h = nat (u div HOUR)" and "mi = nat (u div (60 * SECOND) mod 60)"
    and "s = nat (u div SECOND mod 60)" and "us = nat (u mod SECOND)"
  note K = clock_parts [OF u, folded h_def mi_def s_def us_def]
  have "stamp t = render (pad 4 (nat y)) (nat m) (nat d) h mi s us"
    using Y by (simp add: stamp_def c Let_def dec_pad4 h_def mi_def s_def us_def u_def)
  moreover have "parse_timestamp (render (pad 4 (nat y)) (nat m) (nat d) h mi s us)
      = make_instant (nat y) (nat m) (nat d) h mi s us"
    using Y B K by (intro parse_render) auto
  moreover have "make_instant (nat y) (nat m) (nat d) h mi s us = Some t"
  proof -
    have "t = ordinal y m d * DAY + u"
      using ordinal_civil [OF c] div_mult_mod_eq [of t DAY] by (simp add: u_def)
    moreover have "int (nat y) = y" "int (nat m) = m" "int (nat d) = d" "nat m - 1 = nat (m - 1)"
      using Y B by auto
    ultimately show ?thesis using Y B K(1,4) unfolding make_instant_def by auto
  qed
  ultimately show ?thesis by simp
qed

lemma format_parse: "stamp_ok t \<Longrightarrow> Option.bind (format_timestamp (Aware t)) parse_timestamp = Some t"
  by (simp add: parse_stamp)

end
