(* ===== verification/Scheduler.thy ===== *)
theory Scheduler
  imports Review Settings Timestamps
begin

text \<open>
  \<^verbatim>\<open>services/fsrs_scheduler.py\<close> behind the \<^verbatim>\<open>Scheduler\<close> protocol, the scheduler factories, and
  \<^verbatim>\<open>services/card_shuffle.py\<close>.  The \<^verbatim>\<open>fsrs\<close> package and the hash are parameters: \<open>review_card\<close>
  takes the scheduler's configuration (retention, fuzzing), a card, a rating and the time.  One
  function stands for one run; fuzzing may make the next run another function.
\<close>

section \<open>The library's cards\<close>

datatype fsrs_state = FsrsLearning | FsrsReview | FsrsRelearning

datatype fsrs_rating = RatingAgain | RatingHard | RatingGood | RatingEasy

record fsrs_card =
  fc_state :: fsrs_state
  fc_step :: "int option"
  fc_stability :: "pyfloat option"
  fc_difficulty :: "pyfloat option"
  fc_due :: instant
  fc_last_review :: "instant option"

record fsrs_config =
  desired_retention :: pyfloat
  enable_fuzzing :: bool

type_synonym review_fun = "fsrs_config \<Rightarrow> fsrs_card \<Rightarrow> fsrs_rating \<Rightarrow> instant \<Rightarrow> fsrs_card"

definition RATINGS :: "card_grade \<Rightarrow> fsrs_rating" where
  "RATINGS g = (case g of AGAIN \<Rightarrow> RatingAgain | HARD \<Rightarrow> RatingHard | GOOD \<Rightarrow> RatingGood | EASY \<Rightarrow> RatingEasy)"

text \<open>\<^verbatim>\<open>State(int(state))\<close> and \<^verbatim>\<open>SchedState(int(state))\<close>; \<^verbatim>\<open>State(0)\<close> does not exist.\<close>

fun fsrs_of_state :: "sched_state \<Rightarrow> fsrs_state option" where
  "fsrs_of_state NEW = None"
| "fsrs_of_state LEARNING = Some FsrsLearning"
| "fsrs_of_state REVIEW = Some FsrsReview"
| "fsrs_of_state RELEARNING = Some FsrsRelearning"

fun state_of_fsrs :: "fsrs_state \<Rightarrow> sched_state" where
  "state_of_fsrs FsrsLearning = LEARNING"
| "state_of_fsrs FsrsReview = REVIEW"
| "state_of_fsrs FsrsRelearning = RELEARNING"

definition to_card :: "card_schedule \<Rightarrow> instant \<Rightarrow> fsrs_card" where
  "to_card current now =
     (case fsrs_of_state (sched_state current) of
        None \<Rightarrow> \<lparr>fc_state = FsrsLearning, fc_step = Some 0, fc_stability = None, fc_difficulty = None,
                 fc_due = now, fc_last_review = None\<rparr>
      | Some st \<Rightarrow> \<lparr>fc_state = st, fc_step = sched_step current, fc_stability = sched_stability current,
                 fc_difficulty = sched_difficulty current, fc_due = sched_due current,
                 fc_last_review = sched_last_review current\<rparr>)"

definition from_card :: "fsrs_card \<Rightarrow> card_schedule" where
  "from_card c =
     \<lparr>sched_state = state_of_fsrs (fc_state c), sched_step = fc_step c, sched_stability = fc_stability c,
      sched_difficulty = fc_difficulty c, sched_due = fc_due c, sched_last_review = fc_last_review c\<rparr>"

section \<open>The scheduler\<close>

datatype naive_error = NaiveTime

fun utc :: "datetime \<Rightarrow> naive_error + instant" where
  "utc (Naive w) = Inl NaiveTime"
| "utc (Aware t) = Inr t"

definition fsrs_review ::
  "review_fun \<Rightarrow> fsrs_config \<Rightarrow> card_schedule \<Rightarrow> card_grade \<Rightarrow> datetime \<Rightarrow> naive_error + card_schedule" where
  "fsrs_review review_card cfg current g now =
     (case utc now of Inl e \<Rightarrow> Inl e
      | Inr moment \<Rightarrow> Inr (from_card (review_card cfg (to_card current moment) (RATINGS g) moment)))"

text \<open>The protocol \<^verbatim>\<open>Scheduler\<close>: its three operations.\<close>

record scheduler =
  initial_of :: "datetime \<Rightarrow> naive_error + card_schedule"
  schedule_of :: "card_schedule \<Rightarrow> card_grade \<Rightarrow> datetime \<Rightarrow> naive_error + card_schedule"
  preview_of :: "card_schedule \<Rightarrow> datetime \<Rightarrow> naive_error + (card_grade \<Rightarrow> card_schedule)"

definition new_schedule :: "instant \<Rightarrow> card_schedule" where
  "new_schedule t =
     \<lparr>sched_state = NEW, sched_step = None, sched_stability = None, sched_difficulty = None,
      sched_due = t, sched_last_review = None\<rparr>"

definition FSRSScheduler :: "review_fun \<Rightarrow> pyfloat \<Rightarrow> bool \<Rightarrow> scheduler" where
  "FSRSScheduler review_card retention fuzzing =
     (let main = \<lparr>desired_retention = retention, enable_fuzzing = fuzzing\<rparr>;
          preview = \<lparr>desired_retention = retention, enable_fuzzing = False\<rparr>
      in \<lparr>initial_of = (\<lambda>now. map_sum id new_schedule (utc now)),
          schedule_of = fsrs_review review_card main,
          preview_of = (\<lambda>current now. case utc now of Inl e \<Rightarrow> Inl e
            | Inr t \<Rightarrow> Inr (\<lambda>g. from_card (review_card preview (to_card current t) (RATINGS g) t)))\<rparr>)"

text \<open>\<^verbatim>\<open>factories.create_scheduler\<close> and \<^verbatim>\<open>create_scheduler_from_settings\<close>; \<open>None\<close> is \<^verbatim>\<open>ValueError\<close>.\<close>

definition create_scheduler :: "review_fun \<Rightarrow> ustr \<Rightarrow> pyfloat \<Rightarrow> bool \<Rightarrow> scheduler option" where
  "create_scheduler review_card kind retention fuzzing =
     (if kind = lit ''fsrs'' then Some (FSRSScheduler review_card retention fuzzing) else None)"

definition create_scheduler_from_settings :: "review_fun \<Rightarrow> review_settings \<Rightarrow> scheduler" where
  "create_scheduler_from_settings review_card s =
     the (create_scheduler review_card (lit ''fsrs'') (target_retention s) True)"

text \<open>What the \<^verbatim>\<open>fsrs\<close> package documents of \<^verbatim>\<open>review_card\<close>: the card was reviewed now and is due later.\<close>

definition fsrs_documented :: "review_fun \<Rightarrow> bool" where
  "fsrs_documented review_card \<longleftrightarrow>
     (\<forall>cfg c r t. fc_last_review (review_card cfg c r t) = Some t \<and> t \<le> fc_due (review_card cfg c r t))"

section \<open>The protocol as a contract\<close>

locale scheduling =
  fixes documented :: bool
    and sch :: scheduler
  assumes naive_refused:
      "initial_of sch (Naive w) = Inl NaiveTime" "schedule_of sch c g (Naive w) = Inl NaiveTime"
      "preview_of sch c (Naive w) = Inl NaiveTime"
    and initial_new: "initial_of sch (Aware t) = Inr (new_schedule t)"
    and schedule_total: "\<exists>a. schedule_of sch c g (Aware t) = Inr a"
    and schedule_not_new: "schedule_of sch c g now = Inr a \<Longrightarrow> sched_state a \<noteq> NEW"
    and schedule_time: "documented \<Longrightarrow> schedule_of sch c g (Aware t) = Inr a \<Longrightarrow>
        sched_last_review a = Some t \<and> t \<le> sched_due a"
    and preview_total: "\<exists>p. preview_of sch c (Aware t) = Inr p"
    and preview_later: "documented \<Longrightarrow> preview_of sch c (Aware t) = Inr p \<Longrightarrow> t \<le> sched_due (p g)"
begin

lemma first_schedule_is_due: "initial_of sch (Aware t) = Inr s \<Longrightarrow> sched_due s = t \<and> sched_last_review s = None"
  by (auto simp: initial_new new_schedule_def)

lemma schedule_succeeds_iff: "(\<exists>a. schedule_of sch c g now = Inr a) \<longleftrightarrow> (\<exists>t. now = Aware t)"
  using schedule_total naive_refused by (cases now) auto

lemma reviewed_again_differs:
  assumes "documented" and "schedule_of sch c g (Aware t) = Inr a" and "schedule_of sch a h (Aware u) = Inr b"
    and "t < u"
  shows "sched_last_review a \<noteq> sched_last_review b"
  using assms schedule_time [OF assms(1,2)] schedule_time [OF assms(1,3)] by simp

end

lemma from_card_not_new [simp]: "sched_state (from_card c) \<noteq> NEW"
  by (cases "fc_state c") (simp_all add: from_card_def)

interpretation fsrs: scheduling "fsrs_documented review_card" "FSRSScheduler review_card retention fuzzing"
  for review_card retention fuzzing
proof
  show "schedule_of (FSRSScheduler review_card retention fuzzing) c g now = Inr a \<Longrightarrow> sched_state a \<noteq> NEW" for c g now a
    by (cases now) (auto simp: FSRSScheduler_def fsrs_review_def)
qed (auto simp: FSRSScheduler_def fsrs_review_def from_card_def fsrs_documented_def)

lemma create_scheduler_from_settings_eq:
  "create_scheduler_from_settings review_card s = FSRSScheduler review_card (target_retention s) True"
  by (simp add: create_scheduler_from_settings_def create_scheduler_def)

text \<open>A stored card goes to the library and comes back unchanged.\<close>

lemma from_to_card: "sched_state c \<noteq> NEW \<Longrightarrow> from_card (to_card c t) = c"
  by (cases c; cases "sched_state c") (simp_all add: to_card_def from_card_def)

section \<open>The stable shuffle\<close>

text \<open>\<^verbatim>\<open>datetime.isoformat()\<close> of a UTC time: no fraction when the microseconds are 0.\<close>

definition isoformat_utc :: "instant \<Rightarrow> ustr" where
  "isoformat_utc t =
     (case civil (t div DAY) of (y, m, d) \<Rightarrow>
        let us = t mod DAY; fraction = nat (us mod SECOND) in
        pad 4 (nat y) @ DASH # pad 2 (nat m) @ DASH # pad 2 (nat d) @ LETTER_T # pad 2 (nat (us div HOUR))
          @ COLON # pad 2 (nat (us div (60 * SECOND) mod 60)) @ COLON # pad 2 (nat (us div SECOND mod 60))
          @ (if fraction = 0 then [] else DOT # pad 6 fraction) @ lit ''+00:00'')"

text \<open>\<^verbatim>\<open>StableShuffle.rank\<close>; \<open>hash8\<close> is the 8 byte blake2b digest of the UTF-8 text as a number.\<close>

definition shuffle_rank :: "(ustr \<Rightarrow> nat) \<Rightarrow> nat \<Rightarrow> card_key \<Rightarrow> instant option \<Rightarrow> nat" where
  "shuffle_rank hash8 seed k last_review =
     hash8 (dec seed @ lit ''|'' @ key_item_id k @ lit ''|'' @ direction_value (key_direction k) @ lit ''|''
       @ (case last_review of None \<Rightarrow> [] | Some t \<Rightarrow> isoformat_utc t))"

end
