(* ===== verification/ProgressRepo.thy ===== *)
theory ProgressRepo
  imports Review Timestamps Policies Settings
begin

text \<open>
  \<^verbatim>\<open>db/models.py\<close> and \<^verbatim>\<open>db/progress_repository.py\<close>: the tables of \<^verbatim>\<open>progress.db\<close> as lists of rows in
  rowid order, the compare-and-set write \<open>record_review\<close>, the queries, and the settings table.
  \<open>db_ok\<close> is the invariant of the store: one row per card, the counters of a card agree with its
  review log, the log is append-only.  Times are strings here, as in the tables; the queries
  compare them as strings.
\<close>

section \<open>Rows\<close>

record card_row =
  row_id :: int
  row_item :: ustr
  row_direction :: ustr
  row_state :: int
  row_step :: "int option"
  row_stability :: "pyfloat option"
  row_difficulty :: "pyfloat option"
  row_due :: ustr
  row_last_review :: "ustr option"
  row_reps :: int
  row_lapses :: int

record log_row =
  log_id :: int
  log_item :: ustr
  log_direction :: ustr
  log_grade :: int
  log_mode :: ustr
  log_reviewed_at :: ustr
  log_state_before :: "int option"
  log_stability_before :: "pyfloat option"
  log_difficulty_before :: "pyfloat option"
  log_elapsed_days :: "pyfloat option"
  log_duration_ms :: "int option"

record progress_db =
  card_rows :: "card_row list"
  log_rows :: "log_row list"
  setting_rows :: "(ustr \<times> ustr) list"

definition empty_db :: progress_db where
  "empty_db = \<lparr>card_rows = [], log_rows = [], setting_rows = []\<rparr>"

record stored_card =
  stored_key :: card_key
  stored_schedule :: card_schedule
  stored_reps :: int
  stored_lapses :: int

record review_record =
  rec_reviewed_at :: instant
  rec_grade :: card_grade
  rec_state_before :: sched_state
  rec_direction :: card_direction

datatype repo_error = InvalidRow | AfterReviewMissing | BeforeReviewMissing | StaleRow card_key

definition decoded :: "'a option \<Rightarrow> repo_error + 'a" where
  "decoded x = (case x of None \<Rightarrow> Inl InvalidRow | Some y \<Rightarrow> Inr y)"

text \<open>\<^verbatim>\<open>parse_timestamp(x) if x else None\<close>: an empty string counts as absent.\<close>

definition parse_optional :: "ustr option \<Rightarrow> instant option option" where
  "parse_optional x =
     (case x of None \<Rightarrow> Some None
      | Some txt \<Rightarrow> if txt = [] then Some None else map_option Some (parse_timestamp txt))"

definition stored :: "card_row \<Rightarrow> stored_card option" where
  "stored row = do {
     d \<leftarrow> direction_of_value (row_direction row);
     s \<leftarrow> state_of_value (row_state row);
     due \<leftarrow> parse_timestamp (row_due row);
     last \<leftarrow> parse_optional (row_last_review row);
     Some \<lparr>stored_key = card (row_item row) d,
           stored_schedule = \<lparr>sched_state = s, sched_step = row_step row, sched_stability = row_stability row,
              sched_difficulty = row_difficulty row, sched_due = due, sched_last_review = last\<rparr>,
           stored_reps = row_reps row, stored_lapses = row_lapses row\<rparr> }"

definition row_key :: "card_row \<Rightarrow> ustr \<times> ustr" where
  "row_key r = (row_item r, row_direction r)"

definition log_key :: "log_row \<Rightarrow> ustr \<times> ustr" where
  "log_key l = (log_item l, log_direction l)"

definition key_columns :: "card_key \<Rightarrow> ustr \<times> ustr" where
  "key_columns k = (key_item_id k, direction_value (key_direction k))"

section \<open>Queries\<close>

definition get_card :: "progress_db \<Rightarrow> card_key \<Rightarrow> repo_error + stored_card option" where
  "get_card db k =
     (case find (\<lambda>r. row_key r = key_columns k) (card_rows db) of
        None \<Rightarrow> Inr None
      | Some r \<Rightarrow> decoded (map_option Some (stored r)))"

text \<open>\<^verbatim>\<open>LIMIT n\<close>; a negative number means no limit.\<close>

definition sql_limit :: "int \<Rightarrow> 'a list \<Rightarrow> 'a list" where
  "sql_limit n xs = (if n < 0 then xs else take (nat n) xs)"

definition due_rows :: "progress_db \<Rightarrow> instant \<Rightarrow> card_row list" where
  "due_rows db now = filter (\<lambda>r. row_due r \<le> stamp now) (card_rows db)"

definition due_cards :: "progress_db \<Rightarrow> instant \<Rightarrow> int \<Rightarrow> repo_error + stored_card list" where
  "due_cards db now limit =
     decoded (those (map stored (sql_limit limit (sort_key (\<lambda>r. (row_due r, row_id r)) (due_rows db now)))))"

text \<open>
  \<^verbatim>\<open>SELECT direction, count(*) ... GROUP BY direction\<close>; SQL leaves the order of the groups open, which only
  decides the order of the resulting dictionary.
\<close>

definition group_counts :: "ustr list \<Rightarrow> (ustr \<times> int) list" where
  "group_counts ds = map (\<lambda>d. (d, int (count_list ds d))) (remdups ds)"

fun sum_by_type_from ::
  "(item_type \<times> int) list \<Rightarrow> (ustr \<times> int) list \<Rightarrow> repo_error + (item_type \<times> int) list" where
  "sum_by_type_from totals [] = Inr totals"
| "sum_by_type_from totals ((d, n) # rows) =
     (case direction_of_value d of
        None \<Rightarrow> Inl InvalidRow
      | Some dir \<Rightarrow>
          let ty = direction_type dir;
              old = (case map_of totals ty of None \<Rightarrow> 0 | Some x \<Rightarrow> x)
          in sum_by_type_from (AList.update ty (old + n) totals) rows)"

definition sum_by_type :: "(ustr \<times> int) list \<Rightarrow> repo_error + (item_type \<times> int) list" where
  "sum_by_type rows = sum_by_type_from [] rows"

definition due_counts :: "progress_db \<Rightarrow> instant \<Rightarrow> repo_error + (item_type \<times> int) list" where
  "due_counts db now = sum_by_type (group_counts (map row_direction (due_rows db now)))"

definition next_due_after :: "progress_db \<Rightarrow> instant \<Rightarrow> repo_error + instant option" where
  "next_due_after db now =
     (case min_by (\<lambda>d. d) (filter (\<lambda>d. stamp now < d) (map row_due (card_rows db))) of
        None \<Rightarrow> Inr None
      | Some d \<Rightarrow> decoded (parse_optional (Some d)))"

fun states_from :: "states \<Rightarrow> card_row list \<Rightarrow> states option" where
  "states_from acc [] = Some acc"
| "states_from acc (r # rs) = do {
     d \<leftarrow> direction_of_value (row_direction r);
     s \<leftarrow> state_of_value (row_state r);
     states_from (AList.update (card (row_item r) d) s acc) rs }"

definition card_states :: "progress_db \<Rightarrow> repo_error + states" where
  "card_states db = decoded (states_from [] (card_rows db))"

definition in_span :: "instant \<Rightarrow> instant \<Rightarrow> log_row \<Rightarrow> bool" where
  "in_span start end l \<longleftrightarrow> stamp start \<le> log_reviewed_at l \<and> log_reviewed_at l < stamp end"

definition introduced_rows :: "progress_db \<Rightarrow> instant \<Rightarrow> instant \<Rightarrow> log_row list" where
  "introduced_rows db start end =
     filter (\<lambda>l. log_state_before l = Some (state_value NEW) \<and> in_span start end l) (log_rows db)"

definition new_cards_introduced :: "progress_db \<Rightarrow> instant \<Rightarrow> instant \<Rightarrow> repo_error + (item_type \<times> int) list" where
  "new_cards_introduced db start end = sum_by_type (group_counts (map log_direction (introduced_rows db start end)))"

definition record_of_row :: "log_row \<Rightarrow> review_record option" where
  "record_of_row l = do {
     t \<leftarrow> parse_timestamp (log_reviewed_at l);
     g \<leftarrow> grade_of_value (log_grade l);
     s \<leftarrow> state_of_value (case log_state_before l of None \<Rightarrow> 0 | Some n \<Rightarrow> n);
     d \<leftarrow> direction_of_value (log_direction l);
     Some \<lparr>rec_reviewed_at = t, rec_grade = g, rec_state_before = s, rec_direction = d\<rparr> }"

definition reviews_between :: "progress_db \<Rightarrow> instant \<Rightarrow> instant \<Rightarrow> repo_error + review_record list" where
  "reviews_between db start end =
     decoded (those (map record_of_row
       (sort_key (\<lambda>l. (log_reviewed_at l, log_id l)) (filter (in_span start end) (log_rows db)))))"

section \<open>Recording a review\<close>

text \<open>The next value of an \<^verbatim>\<open>INTEGER PRIMARY KEY\<close>: one more than the largest.\<close>

definition next_id :: "int list \<Rightarrow> int" where
  "next_id ids = fold max ids 0 + 1"

text \<open>\<^verbatim>\<open>(a - b).total_seconds() / 86400\<close>\<close>

definition elapsed_days :: "instant \<Rightarrow> instant \<Rightarrow> pyfloat" where
  "elapsed_days a b = fl (fdiv (a - b) SECOND / 86400)"

definition lapsed :: "card_grade \<Rightarrow> card_schedule \<Rightarrow> bool" where
  "lapsed g before \<longleftrightarrow> g = AGAIN \<and> sched_state before = REVIEW"

definition new_row :: "int \<Rightarrow> card_key \<Rightarrow> card_schedule \<Rightarrow> ustr \<Rightarrow> card_row" where
  "new_row i k after reviewed_at =
     \<lparr>row_id = i, row_item = key_item_id k, row_direction = direction_value (key_direction k),
      row_state = state_value (sched_state after), row_step = sched_step after,
      row_stability = sched_stability after, row_difficulty = sched_difficulty after,
      row_due = stamp (sched_due after), row_last_review = Some reviewed_at, row_reps = 1, row_lapses = 0\<rparr>"

definition updated_row :: "card_schedule \<Rightarrow> ustr \<Rightarrow> bool \<Rightarrow> card_row \<Rightarrow> card_row" where
  "updated_row after reviewed_at lapse r =
     r\<lparr>row_state := state_value (sched_state after), row_step := sched_step after,
       row_stability := sched_stability after, row_difficulty := sched_difficulty after,
       row_due := stamp (sched_due after), row_last_review := Some reviewed_at,
       row_reps := row_reps r + 1, row_lapses := row_lapses r + (if lapse then 1 else 0)\<rparr>"

definition log_entry ::
  "int \<Rightarrow> card_key \<Rightarrow> card_schedule \<Rightarrow> card_grade \<Rightarrow> ustr \<Rightarrow> ustr \<Rightarrow> pyfloat option \<Rightarrow> int option \<Rightarrow> log_row" where
  "log_entry i k before g mode reviewed_at elapsed duration =
     \<lparr>log_id = i, log_item = key_item_id k, log_direction = direction_value (key_direction k),
      log_grade = grade_value g, log_mode = mode, log_reviewed_at = reviewed_at,
      log_state_before = Some (state_value (sched_state before)),
      log_stability_before = sched_stability before, log_difficulty_before = sched_difficulty before,
      log_elapsed_days = elapsed, log_duration_ms = duration\<rparr>"

text \<open>
  The cards after the write, or the error which rolls the transaction back.  The unique
  constraint refuses a second row for a card; an update touches the rows whose \<^verbatim>\<open>last_review\<close> is
  still the expected one and must touch exactly one.
\<close>

definition write_card ::
  "card_key \<Rightarrow> card_schedule \<Rightarrow> card_schedule \<Rightarrow> card_grade \<Rightarrow> ustr \<Rightarrow> ustr option \<Rightarrow> card_row list
     \<Rightarrow> repo_error + card_row list" where
  "write_card k before after g reviewed_at expected rows =
     (if sched_state before = NEW then
        (if key_columns k \<in> set (map row_key rows) then Inl (StaleRow k)
         else Inr (rows @ [new_row (next_id (map row_id rows)) k after reviewed_at]))
      else
        let hit = (\<lambda>r. row_key r = key_columns k \<and> expected \<noteq> None \<and> row_last_review r = expected) in
        if length (filter hit rows) \<noteq> 1 then Inl (StaleRow k)
        else Inr (map (\<lambda>r. if hit r then updated_row after reviewed_at (lapsed g before) r else r) rows))"

definition record_review ::
  "card_key \<Rightarrow> card_schedule \<Rightarrow> card_schedule \<Rightarrow> card_grade \<Rightarrow> ustr \<Rightarrow> int option \<Rightarrow> progress_db
     \<Rightarrow> repo_error + progress_db" where
  "record_review k before after g mode duration db =
     (case sched_last_review after of
        None \<Rightarrow> Inl AfterReviewMissing
      | Some t \<Rightarrow>
          if sched_state before \<noteq> NEW \<and> sched_last_review before = None then Inl BeforeReviewMissing
          else
            let expected = (if sched_state before = NEW then None else map_option stamp (sched_last_review before));
                elapsed = map_option (elapsed_days t) (sched_last_review before)
            in (case write_card k before after g (stamp t) expected (card_rows db) of
                  Inl e \<Rightarrow> Inl e
                | Inr rows \<Rightarrow>
                    Inr (db\<lparr>card_rows := rows,
                            log_rows := log_rows db @
                              [log_entry (next_id (map log_id (log_rows db))) k before g mode (stamp t)
                                 elapsed duration]\<rparr>)))"

section \<open>Settings\<close>

definition get_setting :: "progress_db \<Rightarrow> ustr \<Rightarrow> ustr option" where
  "get_setting db k = map_of (setting_rows db) k"

definition set_setting :: "ustr \<Rightarrow> ustr \<Rightarrow> progress_db \<Rightarrow> progress_db" where
  "set_setting k v db = db\<lparr>setting_rows := AList.update k v (setting_rows db)\<rparr>"

section \<open>The invariant of the store\<close>

definition good_stamp :: "ustr \<Rightarrow> bool" where
  "good_stamp s \<longleftrightarrow> (case parse_timestamp s of None \<Rightarrow> False | Some t \<Rightarrow> stamp_ok t \<and> stamp t = s)"

lemma good_stamp_stamp [simp]: "stamp_ok t \<Longrightarrow> good_stamp (stamp t)"
  by (simp add: good_stamp_def parse_stamp)

lemma good_stampE: "good_stamp s \<Longrightarrow> (\<And>t. parse_timestamp s = Some t \<Longrightarrow> stamp_ok t \<Longrightarrow> stamp t = s \<Longrightarrow> P) \<Longrightarrow> P"
  by (auto simp: good_stamp_def split: option.splits)

lemma good_stamp_not_Nil: "\<not> good_stamp []"
  by (simp add: good_stamp_def parse_timestamp_def field_def split: prod.splits)
    (auto simp: numeral_eq_Suc)

definition row_ok :: "card_row \<Rightarrow> bool" where
  "row_ok r \<longleftrightarrow>
     direction_of_value (row_direction r) \<noteq> None
     \<and> (case state_of_value (row_state r) of None \<Rightarrow> False | Some s \<Rightarrow> s \<noteq> NEW)
     \<and> good_stamp (row_due r)
     \<and> (case row_last_review r of None \<Rightarrow> False | Some t \<Rightarrow> good_stamp t)"

definition log_ok :: "log_row \<Rightarrow> bool" where
  "log_ok l \<longleftrightarrow>
     direction_of_value (log_direction l) \<noteq> None \<and> grade_of_value (log_grade l) \<noteq> None
     \<and> (case log_state_before l of None \<Rightarrow> False | Some n \<Rightarrow> state_of_value n \<noteq> None)
     \<and> good_stamp (log_reviewed_at l)"

text \<open>The review history of a card, oldest first, and which of its entries is a lapse.\<close>

definition history :: "ustr \<times> ustr \<Rightarrow> log_row list \<Rightarrow> log_row list" where
  "history key logs = filter (\<lambda>l. log_key l = key) logs"

definition first_review :: "log_row \<Rightarrow> bool" where
  "first_review l \<longleftrightarrow> log_state_before l = Some (state_value NEW)"

definition lapse_entry :: "log_row \<Rightarrow> bool" where
  "lapse_entry l \<longleftrightarrow> log_grade l = grade_value AGAIN \<and> log_state_before l = Some (state_value REVIEW)"

definition row_agrees :: "log_row list \<Rightarrow> card_row \<Rightarrow> bool" where
  "row_agrees logs r \<longleftrightarrow>
     (let h = history (row_key r) logs in
        h \<noteq> [] \<and> row_reps r = int (length h) \<and> row_lapses r = int (length (filter lapse_entry h))
        \<and> row_last_review r = Some (log_reviewed_at (last h))
        \<and> first_review (hd h) \<and> (\<forall>l \<in> set (tl h). \<not> first_review l))"

definition db_ok :: "progress_db \<Rightarrow> bool" where
  "db_ok db \<longleftrightarrow>
     distinct (map row_key (card_rows db))
     \<and> sorted_wrt (<) (map row_id (card_rows db)) \<and> sorted_wrt (<) (map log_id (log_rows db))
     \<and> (\<forall>r \<in> set (card_rows db). row_ok r \<and> row_agrees (log_rows db) r)
     \<and> (\<forall>l \<in> set (log_rows db). log_ok l \<and> log_key l \<in> set (map row_key (card_rows db)))"

definition schedule_ok :: "card_schedule \<Rightarrow> bool" where
  "schedule_ok s \<longleftrightarrow>
     sched_state s \<noteq> NEW \<and> stamp_ok (sched_due s)
     \<and> (case sched_last_review s of None \<Rightarrow> False | Some t \<Rightarrow> stamp_ok t)"

lemma db_ok_empty [simp]: "db_ok empty_db"
  by (simp add: db_ok_def empty_db_def)

lemma fold_max_ge: "(x :: int) \<in> insert a (set xs) \<Longrightarrow> x \<le> fold max xs a"
proof (induction xs arbitrary: a)
  case (Cons y ys)
  show ?case
  proof (cases "x \<in> set ys")
    case True
    then show ?thesis using Cons.IH [of "max y a"] by simp
  next
    case False
    then have "x \<le> max y a" using Cons.prems by auto
    moreover have "max y a \<le> fold max ys (max y a)"
    proof -
      have "b \<le> fold max ys b" for b by (induction ys arbitrary: b) (auto intro: order_trans [OF max.cobounded2])
      then show ?thesis .
    qed
    ultimately have "x \<le> fold max ys (max y a)" by (rule order_trans)
    then show ?thesis unfolding fold_simps .
  qed
qed simp

lemma next_id_above: "x \<in> set ids \<Longrightarrow> x < next_id ids"
  using fold_max_ge [of x 0 ids] by (simp add: next_id_def)

lemma sorted_next_id: "sorted_wrt (<) ids \<Longrightarrow> sorted_wrt (<) (ids @ [next_id ids])"
  by (auto simp: sorted_wrt_append next_id_above)

lemma history_snoc:
  "history key (logs @ [l]) = history key logs @ (if log_key l = key then [l] else [])"
  by (simp add: history_def)

lemma row_agrees_other: "log_key l \<noteq> row_key r \<Longrightarrow> row_agrees (logs @ [l]) r = row_agrees logs r"
  by (simp add: row_agrees_def history_snoc)

lemma row_key_new [simp]: "row_key (new_row i k a t) = key_columns k"
  by (simp add: row_key_def new_row_def key_columns_def)

lemma row_key_updated [simp]: "row_key (updated_row a t b r) = row_key r"
  by (simp add: row_key_def updated_row_def)

lemma row_id_updated [simp]: "row_id (updated_row a t b r) = row_id r"
  by (simp add: updated_row_def)

lemma log_key_entry [simp]: "log_key (log_entry i k b g m t e d) = key_columns k"
  by (simp add: log_key_def log_entry_def key_columns_def)

lemma log_id_entry [simp]: "log_id (log_entry i k b g m t e d) = i"
  by (simp add: log_entry_def)

lemma reviewed_at_entry [simp]: "log_reviewed_at (log_entry i k b g m t e d) = t"
  by (simp add: log_entry_def)

lemma grade_entry [simp]: "log_grade (log_entry i k b g m t e d) = grade_value g"
  by (simp add: log_entry_def)

lemma first_review_entry [simp]: "first_review (log_entry i k b g m t e d) \<longleftrightarrow> sched_state b = NEW"
  by (auto simp: first_review_def log_entry_def simp flip: state_value.simps(1))

lemma lapse_entry_entry [simp]: "lapse_entry (log_entry i k b g m t e d) \<longleftrightarrow> lapsed g b"
  by (simp add: lapse_entry_def log_entry_def lapsed_def del: grade_value.simps state_value.simps)

lemma log_ok_entry: "good_stamp t \<Longrightarrow> log_ok (log_entry i k b g m t e d)"
  by (simp add: log_ok_def log_entry_def)

lemma key_columns_inject [simp, key_facts]: "key_columns j = key_columns k \<longleftrightarrow> j = k"
  by (cases j; cases k) (simp add: key_columns_def)

lemma schedule_okE:
  "schedule_ok a \<Longrightarrow>
     (\<And>t. sched_last_review a = Some t \<Longrightarrow> stamp_ok t \<Longrightarrow> stamp_ok (sched_due a) \<Longrightarrow> sched_state a \<noteq> NEW \<Longrightarrow> P) \<Longrightarrow> P"
  by (auto simp: schedule_ok_def split: option.splits)

lemma row_ok_new: "schedule_ok a \<Longrightarrow> good_stamp t \<Longrightarrow> row_ok (new_row i k a t)"
  by (auto simp: row_ok_def new_row_def elim: schedule_okE)

lemma row_ok_updated: "row_ok r \<Longrightarrow> schedule_ok a \<Longrightarrow> good_stamp t \<Longrightarrow> row_ok (updated_row a t b r)"
  by (auto simp: row_ok_def updated_row_def elim: schedule_okE)

text \<open>What a successful write does.\<close>

definition hit_row :: "card_key \<Rightarrow> ustr \<Rightarrow> card_row \<Rightarrow> bool" where
  "hit_row k e r \<longleftrightarrow> row_key r = key_columns k \<and> row_last_review r = Some e"

lemma record_review_new:
  assumes "sched_state b = NEW"
  shows "record_review k b a g mode dur db = Inr db' \<longleftrightarrow>
    (\<exists>t. sched_last_review a = Some t \<and> key_columns k \<notin> set (map row_key (card_rows db))
     \<and> db' = db\<lparr>card_rows := card_rows db @ [new_row (next_id (map row_id (card_rows db))) k a (stamp t)],
               log_rows := log_rows db @ [log_entry (next_id (map log_id (log_rows db))) k b g mode (stamp t)
                  (map_option (elapsed_days t) (sched_last_review b)) dur]\<rparr>)"
  using assms by (auto simp: record_review_def write_card_def Let_def split: option.splits)

lemma record_review_update:
  assumes "sched_state b \<noteq> NEW"
  shows "record_review k b a g mode dur db = Inr db' \<longleftrightarrow>
    (\<exists>t u. sched_last_review a = Some t \<and> sched_last_review b = Some u
     \<and> length (filter (hit_row k (stamp u)) (card_rows db)) = 1
     \<and> db' = db\<lparr>card_rows := map (\<lambda>r. if hit_row k (stamp u) r then updated_row a (stamp t) (lapsed g b) r else r)
                               (card_rows db),
               log_rows := log_rows db @ [log_entry (next_id (map log_id (log_rows db))) k b g mode (stamp t)
                  (Some (elapsed_days t u)) dur]\<rparr>)"
  using assms by (auto simp: record_review_def write_card_def Let_def hit_row_def [abs_def] split: option.splits if_splits)

lemma row_agrees_updated:
  assumes "row_agrees logs r" and "row_key r = key_columns k" and "sched_state b \<noteq> NEW"
  shows "row_agrees (logs @ [log_entry i k b g m t e d]) (updated_row a t (lapsed g b) r)"
  using assms by (auto simp: row_agrees_def history_snoc Let_def updated_row_def row_key_def)

lemma record_review_preserves:
  assumes ok: "db_ok db" and after: "schedule_ok a" and rec: "record_review k b a g mode dur db = Inr db'"
  shows "db_ok db'"
proof (cases "sched_state b = NEW")
  case True
  then obtain t where t: "sched_last_review a = Some t" "key_columns k \<notin> set (map row_key (card_rows db))"
    and db': "db' = db\<lparr>card_rows := card_rows db @ [new_row (next_id (map row_id (card_rows db))) k a (stamp t)],
               log_rows := log_rows db @ [log_entry (next_id (map log_id (log_rows db))) k b g mode (stamp t)
                  (map_option (elapsed_days t) (sched_last_review b)) dur]\<rparr>"
    using rec unfolding record_review_new [OF True] by blast
  have good: "good_stamp (stamp t)" using after t by (auto elim: schedule_okE)
  have none: "history (key_columns k) (log_rows db) = []"
    using ok t unfolding db_ok_def history_def filter_empty_conv by (metis image_set)
  have row_id_new: "row_id (new_row i k a u) = i" for i u by (simp add: new_row_def)
  have agrees: "row_agrees (log_rows db') (new_row (next_id (map row_id (card_rows db))) k a (stamp t))"
    using True none
    by (simp add: db' row_agrees_def history_snoc)
      (simp add: new_row_def lapsed_def)
  have others: "row_agrees (log_rows db') r" if "r \<in> set (card_rows db)" for r
  proof -
    have "row_key r \<noteq> key_columns k" using t that by (metis image_eqI image_set)
    then show ?thesis using ok that by (simp add: db' row_agrees_other db_ok_def)
  qed
  have "distinct (map row_key (card_rows db'))" using ok t by (simp add: db' db_ok_def)
  moreover have "sorted_wrt (<) (map row_id (card_rows db'))" "sorted_wrt (<) (map log_id (log_rows db'))"
    using ok sorted_next_id by (simp_all add: db' db_ok_def row_id_new)
  moreover have "row_ok r \<and> row_agrees (log_rows db') r" if "r \<in> set (card_rows db')" for r
    using that others agrees ok row_ok_new [OF after good] by (auto simp: db' db_ok_def)
  moreover have "log_ok l \<and> log_key l \<in> set (map row_key (card_rows db'))" if "l \<in> set (log_rows db')" for l
    using that ok log_ok_entry [OF good] by (auto simp: db' db_ok_def)
  ultimately show ?thesis unfolding db_ok_def by blast
next
  case False
  then obtain t u where t: "sched_last_review a = Some t"
    and db': "db' = db\<lparr>card_rows := map (\<lambda>r. if hit_row k (stamp u) r then updated_row a (stamp t) (lapsed g b) r else r)
                               (card_rows db),
               log_rows := log_rows db @ [log_entry (next_id (map log_id (log_rows db))) k b g mode (stamp t)
                  (Some (elapsed_days t u)) dur]\<rparr>"
    and one: "length (filter (hit_row k (stamp u)) (card_rows db)) = 1"
    using rec unfolding record_review_update [OF False] by blast
  have good: "good_stamp (stamp t)" using after t by (auto elim: schedule_okE)
  obtain x where x: "x \<in> set (card_rows db)" "hit_row k (stamp u) x"
    using one by (metis filter_empty_conv length_0_conv zero_neq_one)
  have keys: "map row_key (card_rows db') = map row_key (card_rows db)"
    "map row_id (card_rows db') = map row_id (card_rows db)"
    by (auto simp: db' )
  have hit_key: "hit_row k (stamp u) r" if "r \<in> set (card_rows db)" "row_key r = key_columns k" for r
  proof -
    have "inj_on row_key (set (card_rows db))" using ok by (simp add: db_ok_def distinct_map)
    moreover have "row_key r = row_key x" using that x by (simp add: hit_row_def)
    ultimately have "r = x" using that x by (meson inj_onD)
    then show ?thesis using x by simp
  qed
  have "row_ok r' \<and> row_agrees (log_rows db') r'" if r': "r' \<in> set (card_rows db')" for r'
  proof -
    obtain r where r: "r \<in> set (card_rows db)"
      and r'_eq: "r' = (if hit_row k (stamp u) r then updated_row a (stamp t) (lapsed g b) r else r)"
      using r' by (auto simp: db')
    have rr: "row_ok r" "row_agrees (log_rows db) r" using ok r by (auto simp: db_ok_def)
    show ?thesis
    proof (cases "hit_row k (stamp u) r")
      case True
      then have "row_key r = key_columns k" by (simp add: hit_row_def)
      then show ?thesis using True rr False row_ok_updated [OF rr(1) after good] row_agrees_updated [OF rr(2)]
        by (simp add: r'_eq db')
    next
      case miss: False
      then have "row_key r \<noteq> key_columns k" using hit_key r by blast
      then show ?thesis using miss rr by (simp add: r'_eq db' row_agrees_other)
    qed
  qed
  moreover have "key_columns k \<in> set (map row_key (card_rows db))" using x by (force simp: hit_row_def)
  then have "log_ok l \<and> log_key l \<in> set (map row_key (card_rows db'))" if "l \<in> set (log_rows db')" for l
    using that ok log_ok_entry [OF good] unfolding keys by (auto simp: db' db_ok_def)
  moreover have "distinct (map row_key (card_rows db'))" "sorted_wrt (<) (map row_id (card_rows db'))"
    unfolding keys using ok by (simp_all add: db_ok_def)
  moreover have "sorted_wrt (<) (map log_id (log_rows db'))"
    using ok sorted_next_id by (simp add: db' db_ok_def)
  ultimately show ?thesis unfolding db_ok_def by blast
qed

end
