(* ===== verification/ProgressLemmas.thy ===== *)
theory ProgressLemmas
  imports ProgressRepo
begin

text \<open>
  What the queries of the progress store return on a store that satisfies \<open>db_ok\<close>, and the
  abstract view of the store: \<open>card_of\<close>, the stored card of every key.  \<open>record_review\<close> refines
  the update of that map at one key.  The settings table is a key-value store, an interface the
  review settings service relies on.
\<close>

section \<open>The abstract view\<close>

definition card_of :: "progress_db \<Rightarrow> card_key \<Rightarrow> stored_card option" where
  "card_of db k = Option.bind (find (\<lambda>r. row_key r = key_columns k) (card_rows db)) stored"

lemma find_map_of: "find (\<lambda>r. f r = key) rows = map_of (map (\<lambda>r. (f r, r)) rows) key"
  by (induction rows) auto

lemma row_ok_stored:
  assumes "row_ok r"
  obtains sc due t where "stored r = Some sc" "sched_due (stored_schedule sc) = due" "row_due r = stamp due"
    "stamp_ok due" "sched_last_review (stored_schedule sc) = Some t" "row_last_review r = Some (stamp t)"
    "stamp_ok t" "row_key r = key_columns (stored_key sc)" "row_state r = state_value (sched_state (stored_schedule sc))"
    "sched_state (stored_schedule sc) \<noteq> NEW" "stored_reps sc = row_reps r" "stored_lapses sc = row_lapses r"
    "state_of_value (row_state r) = Some (sched_state (stored_schedule sc))"
    "direction_of_value (row_direction r) = Some (key_direction (stored_key sc))"
proof -
  obtain d where d: "direction_of_value (row_direction r) = Some d" using assms by (auto simp: row_ok_def)
  obtain s where s: "state_of_value (row_state r) = Some s" "s \<noteq> NEW"
    using assms by (auto simp: row_ok_def split: option.splits)
  obtain due where due: "parse_timestamp (row_due r) = Some due" "stamp_ok due" "stamp due = row_due r"
    using assms by (auto simp: row_ok_def elim: good_stampE)
  obtain x where x: "row_last_review r = Some x" "good_stamp x"
    using assms by (auto simp: row_ok_def split: option.splits)
  then obtain t where t: "parse_timestamp x = Some t" "stamp_ok t" "stamp t = x" by (auto elim: good_stampE)
  have "x \<noteq> []" using x good_stamp_not_Nil by blast
  then have sc: "stored r = Some \<lparr>stored_key = card (row_item r) d,
      stored_schedule = \<lparr>sched_state = s, sched_step = row_step r, sched_stability = row_stability r,
              sched_difficulty = row_difficulty r, sched_due = due, sched_last_review = Some t\<rparr>,
           stored_reps = row_reps r, stored_lapses = row_lapses r\<rparr>"
    using d s due x t by (simp add: stored_def parse_optional_def)
  show ?thesis
    by (rule that [OF sc, of due t])
      (use d s due x t direction_of_valueD [OF d] state_of_valueD [OF s(1)] in
        \<open>simp_all add: row_key_def key_columns_def\<close>)
qed

lemma db_ok_rows: "db_ok db \<Longrightarrow> r \<in> set (card_rows db) \<Longrightarrow> row_ok r"
  by (simp add: db_ok_def)

lemma row_unique:
  "db_ok db \<Longrightarrow> r \<in> set (card_rows db) \<Longrightarrow> s \<in> set (card_rows db) \<Longrightarrow> row_key r = row_key s \<Longrightarrow> r = s"
  by (meson db_ok_def distinct_map inj_onD)

lemma get_card_eq:
  assumes "db_ok db"
  shows "get_card db k = Inr (card_of db k)"
proof (cases "find (\<lambda>r. row_key r = key_columns k) (card_rows db)")
  case (Some r)
  then obtain sc where "stored r = Some sc"
    using find_SomeD [OF Some] db_ok_rows [OF assms] row_ok_stored by metis
  then show ?thesis using Some by (simp add: get_card_def card_of_def decoded_def)
qed (simp add: get_card_def card_of_def)

lemma card_ofE:
  assumes "db_ok db" and "card_of db k = Some sc"
  obtains r where "r \<in> set (card_rows db)" "row_ok r" "row_key r = key_columns k" "stored r = Some sc"
  using assms db_ok_rows [OF assms(1)]
  by (auto simp: card_of_def bind_eq_Some_conv dest!: find_SomeD)

lemma card_of_key: "db_ok db \<Longrightarrow> card_of db k = Some sc \<Longrightarrow> stored_key sc = k"
  by (metis card_ofE key_columns_inject option.inject row_ok_stored)

lemma stored_new_row:
  assumes "schedule_ok a" and "sched_last_review a = Some t"
  shows "stored (new_row i k a (stamp t)) =
     Some \<lparr>stored_key = k, stored_schedule = a, stored_reps = 1, stored_lapses = 0\<rparr>"
proof -
  have t: "stamp_ok t" "stamp_ok (sched_due a)" using assms by (auto elim: schedule_okE)
  then have "stamp t \<noteq> []" using good_stamp_stamp good_stamp_not_Nil by metis
  then show ?thesis using t assms by (simp add: stored_def new_row_def parse_optional_def parse_stamp)
qed

lemma stored_updated_row:
  assumes "schedule_ok a" and "sched_last_review a = Some t" and "stored r = Some sc"
  shows "stored (updated_row a (stamp t) b r) =
     Some \<lparr>stored_key = stored_key sc, stored_schedule = a, stored_reps = stored_reps sc + 1,
           stored_lapses = stored_lapses sc + (if b then 1 else 0)\<rparr>"
proof -
  have t: "stamp_ok t" "stamp_ok (sched_due a)" using assms by (auto elim: schedule_okE)
  then have "stamp t \<noteq> []" using good_stamp_stamp good_stamp_not_Nil by metis
  then show ?thesis using t assms
    by (auto simp: stored_def updated_row_def parse_optional_def parse_stamp bind_eq_Some_conv)
qed

definition reviewed_card :: "card_schedule \<Rightarrow> card_schedule \<Rightarrow> card_grade \<Rightarrow> card_key \<Rightarrow> stored_card option \<Rightarrow> stored_card" where
  "reviewed_card b a g k old =
     (case old of
        None \<Rightarrow> \<lparr>stored_key = k, stored_schedule = a, stored_reps = 1, stored_lapses = 0\<rparr>
      | Some sc \<Rightarrow> \<lparr>stored_key = k, stored_schedule = a, stored_reps = stored_reps sc + 1,
                   stored_lapses = stored_lapses sc + (if lapsed g b then 1 else 0)\<rparr>)"

lemma find_append: "find P (xs @ ys) = (case find P xs of None \<Rightarrow> find P ys | Some x \<Rightarrow> Some x)"
  by (induction xs) auto

lemma find_map_same:
  "(\<And>x. x \<in> set xs \<Longrightarrow> P (f x) \<longleftrightarrow> P x) \<Longrightarrow> find P (map f xs) = map_option f (find P xs)"
  by (induction xs) auto

lemma card_of_record:
  assumes ok: "db_ok db" and after: "schedule_ok a" and rec: "record_review k b a g mode dur db = Inr db'"
  shows "card_of db' = (card_of db)(k \<mapsto> reviewed_card b a g k (card_of db k))"
proof (rule ext)
  fix j
  show "card_of db' j = ((card_of db)(k \<mapsto> reviewed_card b a g k (card_of db k))) j"
  proof (cases "sched_state b = NEW")
    case True
    then obtain t i where t: "sched_last_review a = Some t" "key_columns k \<notin> set (map row_key (card_rows db))"
      and rows: "card_rows db' = card_rows db @ [new_row i k a (stamp t)]"
      using rec unfolding record_review_new [OF True] by auto
    have none: "find (\<lambda>r. row_key r = key_columns k) (card_rows db) = None"
      using t(2) unfolding find_None_iff by (metis image_eqI image_set)
    show ?thesis
    proof (cases "j = k")
      case True
      then show ?thesis using none stored_new_row [OF after t(1)]
        by (simp add: card_of_def rows find_append reviewed_card_def)
    next
      case False
      then show ?thesis by (auto simp: card_of_def rows find_append split: option.split)
    qed
  next
    case False
    then obtain t u where t: "sched_last_review a = Some t"
      and one: "length (filter (hit_row k (stamp u)) (card_rows db)) = 1"
      and rows: "card_rows db' = map (\<lambda>r. if hit_row k (stamp u) r then updated_row a (stamp t) (lapsed g b) r else r)
                    (card_rows db)"
      using rec unfolding record_review_update [OF False] by auto
    let ?f = "\<lambda>r. if hit_row k (stamp u) r then updated_row a (stamp t) (lapsed g b) r else r"
    have find': "find (\<lambda>r. row_key r = key) (map ?f (card_rows db))
        = map_option ?f (find (\<lambda>r. row_key r = key) (card_rows db))" for key
      by (intro find_map_same) simp
    obtain x where x: "x \<in> set (card_rows db)" "hit_row k (stamp u) x"
      using one by (metis filter_empty_conv length_0_conv zero_neq_one)
    have "map_of (map (\<lambda>r. (row_key r, r)) (card_rows db)) (row_key x) = Some x"
      using ok x by (intro map_of_is_SomeI) (auto simp: db_ok_def comp_def)
    then have x_found: "find (\<lambda>r. row_key r = key_columns k) (card_rows db) = Some x"
      using x by (simp add: find_map_of hit_row_def)
    show ?thesis
    proof (cases "j = k")
      case True
      obtain sc where sc: "stored x = Some sc" "row_key x = key_columns (stored_key sc)"
        using db_ok_rows [OF ok x(1)] by (rule row_ok_stored)
      then have "stored_key sc = k" using x by (simp add: hit_row_def)
      then show ?thesis using True x sc stored_updated_row [OF after t sc(1)]
        by (simp add: card_of_def rows find' x_found reviewed_card_def)
    next
      case miss: False
      have "?f r = r" if "find (\<lambda>r. row_key r = key_columns j) (card_rows db) = Some r" for r
        using that miss by (auto simp: find_Some_iff hit_row_def)
      then show ?thesis using miss
        by (cases "find (\<lambda>r. row_key r = key_columns j) (card_rows db)")
          (simp_all add: card_of_def rows find')
    qed
  qed
qed

section \<open>Double submission and the append-only log\<close>

lemma record_review_log:
  "record_review k b a g mode dur db = Inr db' \<Longrightarrow>
     \<exists>l. log_rows db' = log_rows db @ [l] \<and> log_key l = key_columns k \<and> log_grade l = grade_value g
       \<and> (\<exists>t. sched_last_review a = Some t \<and> log_reviewed_at l = stamp t) \<and> setting_rows db' = setting_rows db"
  by (cases "sched_state b = NEW")
    (auto simp: record_review_new record_review_update)

lemma record_twice:
  assumes ok: "db_ok db" and after: "schedule_ok a" and rec: "record_review k b a g mode dur db = Inr db'"
    and moved: "sched_state b \<noteq> NEW \<longrightarrow> sched_last_review a \<noteq> sched_last_review b"
    and stamps: "\<And>u. sched_last_review b = Some u \<Longrightarrow> stamp_ok u"
    and again: "sched_last_review a' \<noteq> None"
  shows "record_review k b a' g' mode' dur' db' = Inl (StaleRow k)"
proof -
  obtain t where t: "sched_last_review a = Some t" "stamp_ok t" using after by (auto elim: schedule_okE)
  obtain t' where t': "sched_last_review a' = Some t'" using again by blast
  note ok' = record_review_preserves [OF ok after rec]
  have card: "card_of db' k = Some (reviewed_card b a g k (card_of db k))"
    using card_of_record [OF ok after rec] by simp
  then obtain r where r: "find (\<lambda>r. row_key r = key_columns k) (card_rows db') = Some r"
    "stored r = Some (reviewed_card b a g k (card_of db k))"
    by (auto simp: card_of_def bind_eq_Some_conv)
  then have mem: "r \<in> set (card_rows db')" "row_key r = key_columns k" by (auto simp: find_Some_iff)
  obtain v where v: "row_last_review r = Some (stamp v)" "sched_last_review (stored_schedule (the (stored r))) = Some v"
    using db_ok_rows [OF ok' mem(1)] by (rule row_ok_stored) auto
  then have "v = t" using t r by (simp add: reviewed_card_def split: option.splits)
  show ?thesis
  proof (cases "sched_state b = NEW")
    case True
    then show ?thesis using mem t' by (force simp: record_review_def write_card_def Let_def)
  next
    case False
    then obtain u where u: "sched_last_review b = Some u"
      using rec unfolding record_review_update [OF False] by blast
    have "stamp u \<noteq> stamp t" using False moved u t stamps [OF u] by (simp add: stamp_inject)
    then have "\<not> hit_row k (stamp u) s" if "s \<in> set (card_rows db')" for s
    proof -
      have "row_key s = key_columns k \<Longrightarrow> s = r" using row_unique [OF ok' that mem(1)] mem by simp
      then show ?thesis using v \<open>v = t\<close> \<open>stamp u \<noteq> stamp t\<close> by (auto simp: hit_row_def)
    qed
    then have "filter (hit_row k (stamp u)) (card_rows db') = []" by (simp add: filter_empty_conv)
    then show ?thesis using False u t'
      by (simp add: record_review_def write_card_def Let_def hit_row_def [abs_def])
  qed
qed

end
