(* ===== verification/ProgressQueries.thy ===== *)
theory ProgressQueries
  imports ProgressLemmas
begin

text \<open>
  The results of the progress queries on a store that satisfies \<open>db_ok\<close>, the states a sequence of
  reviews and settings changes can reach, and the settings service over the settings table.
\<close>

section \<open>Due cards\<close>

definition the_card :: "card_row \<Rightarrow> stored_card" where
  "the_card r = the (stored r)"

lemma those_map_Some: "\<forall>x \<in> set xs. f x = Some (g x) \<Longrightarrow> those (map f xs) = Some (map g xs)"
  by (induction xs) auto

lemma set_sql_limit: "set (sql_limit n xs) \<subseteq> set xs"
  by (auto simp: sql_limit_def dest: in_set_takeD)

lemma stored_the_card: "row_ok r \<Longrightarrow> stored r = Some (the_card r)"
  by (metis option.sel row_ok_stored the_card_def)

definition due_order :: "progress_db \<Rightarrow> instant \<Rightarrow> card_row list" where
  "due_order db now = sort_key (\<lambda>r. (row_due r, row_id r)) (due_rows db now)"

lemma due_cards_eq:
  assumes "db_ok db"
  shows "due_cards db now limit = Inr (map the_card (sql_limit limit (due_order db now)))"
proof -
  have "\<forall>r \<in> set (sql_limit limit (due_order db now)). stored r = Some (the_card r)"
    using set_sql_limit [of limit "due_order db now"] stored_the_card db_ok_rows [OF assms]
    by (auto simp: due_order_def due_rows_def)
  from those_map_Some [OF this] show ?thesis by (simp add: due_cards_def due_order_def decoded_def)
qed

abbreviation due_of :: "stored_card \<Rightarrow> instant" where
  "due_of sc \<equiv> sched_due (stored_schedule sc)"

lemma the_card_due: "row_ok r \<Longrightarrow> row_due r = stamp (due_of (the_card r)) \<and> stamp_ok (due_of (the_card r))"
  by (metis option.sel row_ok_stored the_card_def)

lemma sorted_due_order:
  assumes "db_ok db"
  shows "sorted (map (\<lambda>r. due_of (the_card r)) (due_order db now))"
proof -
  let ?rs = "due_order db now"
  have rows: "\<forall>r \<in> set ?rs. row_ok r"
    using db_ok_rows [OF assms] by (simp add: due_order_def due_rows_def)
  have "sorted (map (\<lambda>r. (row_due r, row_id r)) ?rs)" by (simp add: due_order_def)
  then have "sorted_wrt (\<lambda>r s. (row_due r, row_id r) \<le> (row_due s, row_id s)) ?rs" by (simp add: sorted_map)
  then have "sorted_wrt (\<lambda>r s. due_of (the_card r) \<le> due_of (the_card s)) ?rs"
  proof (rule sorted_wrt_mono_rel [rotated])
    fix r s
    assume "r \<in> set ?rs" "s \<in> set ?rs" "(row_due r, row_id r) \<le> (row_due s, row_id s)"
    then show "due_of (the_card r) \<le> due_of (the_card s)"
      using rows the_card_due [of r] the_card_due [of s] by (auto simp: stamp_less_iff stamp_le_iff)
  qed
  then show ?thesis by (simp add: sorted_map)
qed

lemma due_row_iff:
  assumes "db_ok db" "stamp_ok now" "r \<in> set (card_rows db)"
  shows "r \<in> set (due_order db now) \<longleftrightarrow> due_of (the_card r) \<le> now"
  using assms the_card_due [OF db_ok_rows [OF assms(1,3)]]
  by (simp add: due_order_def due_rows_def stamp_le_iff)

lemma sorted_take_drop_le:
  "sorted (map f xs) \<Longrightarrow> x \<in> set (take n xs) \<Longrightarrow> y \<in> set (drop n xs) \<Longrightarrow> f x \<le> (f y :: 'b::linorder)"
proof -
  assume *: "sorted (map f xs)" "x \<in> set (take n xs)" "y \<in> set (drop n xs)"
  have "sorted (map f (take n xs) @ map f (drop n xs))" using *(1) by (simp flip: map_append)
  then show ?thesis using *(2,3) by (auto simp: sorted_append)
qed

text \<open>The stored cards of the table: the range of \<open>card_of\<close>.\<close>

lemma card_of_row:
  assumes "db_ok db" "r \<in> set (card_rows db)"
  shows "card_of db (stored_key (the_card r)) = Some (the_card r)"
proof -
  have key: "row_key r = key_columns (stored_key (the_card r))"
    using db_ok_rows [OF assms] by (metis option.sel row_ok_stored the_card_def)
  have "map_of (map (\<lambda>r. (row_key r, r)) (card_rows db)) (row_key r) = Some r"
    using assms by (intro map_of_is_SomeI) (auto simp: db_ok_def comp_def)
  then show ?thesis using stored_the_card [OF db_ok_rows [OF assms]]
    by (simp add: card_of_def find_map_of key)
qed

lemma card_of_range:
  assumes "db_ok db"
  shows "card_of db k = Some sc \<longleftrightarrow> sc \<in> the_card ` set (card_rows db) \<and> stored_key sc = k"
proof
  assume *: "card_of db k = Some sc"
  then show "sc \<in> the_card ` set (card_rows db) \<and> stored_key sc = k"
    using card_of_key [OF assms *] by (elim card_ofE [OF assms]) (auto simp: stored_the_card)
next
  assume "sc \<in> the_card ` set (card_rows db) \<and> stored_key sc = k"
  then show "card_of db k = Some sc" using card_of_row [OF assms] by auto
qed

lemma due_cards_correct:
  assumes ok: "db_ok db" "stamp_ok now" and cards: "due_cards db now limit = Inr cs" and lim: "0 \<le> limit"
  shows "sorted (map due_of cs)" "int (length cs) \<le> limit"
    "sc \<in> set cs \<Longrightarrow> card_of db (stored_key sc) = Some sc \<and> due_of sc \<le> now"
    "card_of db k = Some sc \<Longrightarrow> due_of sc \<le> now \<Longrightarrow> sc \<notin> set cs \<Longrightarrow>
       int (length cs) = limit \<and> (\<forall>c \<in> set cs. due_of c \<le> due_of sc)"
proof -
  let ?rs = "due_order db now"
  have cs: "cs = map the_card (take (nat limit) ?rs)"
    using cards due_cards_eq [OF ok(1), of now limit] lim by (simp add: sql_limit_def)
  have sorted: "sorted (map (\<lambda>r. due_of (the_card r)) ?rs)" by (rule sorted_due_order [OF ok(1)])
  show "sorted (map due_of cs)"
    using sorted by (simp add: cs comp_def sorted_wrt_take flip: take_map)
  show "int (length cs) \<le> limit" using lim by (simp add: cs)
  have rows: "set ?rs \<subseteq> set (card_rows db)" by (auto simp: due_order_def due_rows_def)
  show "card_of db (stored_key sc) = Some sc \<and> due_of sc \<le> now" if "sc \<in> set cs"
    using that rows card_of_row [OF ok(1)] due_row_iff [OF ok] by (auto simp: cs dest!: in_set_takeD)
  assume sc: "card_of db k = Some sc" "due_of sc \<le> now" "sc \<notin> set cs"
  then obtain r where r: "r \<in> set (card_rows db)" "sc = the_card r" by (auto simp: card_of_range [OF ok(1)])
  then have "r \<in> set ?rs" using due_row_iff [OF ok] sc by auto
  moreover have "r \<notin> set (take (nat limit) ?rs)" using sc r by (auto simp: cs)
  ultimately have dropped: "r \<in> set (drop (nat limit) ?rs)"
    by (metis Un_iff append_take_drop_id set_append)
  then have "nat limit < length ?rs" by (cases "nat limit < length ?rs") auto
  then show "int (length cs) = limit \<and> (\<forall>c \<in> set cs. due_of c \<le> due_of sc)"
    using lim sorted_take_drop_le [OF sorted _ dropped] r by (auto simp: cs)
qed

section \<open>Counts per item type\<close>

definition dirs_of_type :: "item_type \<Rightarrow> ustr list \<Rightarrow> nat" where
  "dirs_of_type ty ds = length (filter (\<lambda>d. map_option direction_type (direction_of_value d) = Some ty) ds)"

definition count_or_0 :: "(item_type \<times> int) list \<Rightarrow> item_type \<Rightarrow> int" where
  "count_or_0 m ty = (case map_of m ty of None \<Rightarrow> 0 | Some n \<Rightarrow> n)"

lemma sum_by_type_from_eq:
  "\<forall>(d, n) \<in> set rows. direction_of_value d \<noteq> None \<Longrightarrow>
     \<exists>m. sum_by_type_from totals rows = Inr m
      \<and> (\<forall>ty. count_or_0 m ty = count_or_0 totals ty
           + sum_list (map snd (filter (\<lambda>(d, n). map_option direction_type (direction_of_value d) = Some ty) rows)))"
proof (induction rows arbitrary: totals)
  case (Cons row rows)
  obtain d n where row: "row = (d, n)" by fastforce
  then obtain dir where dir: "direction_of_value d = Some dir" using Cons.prems by auto
  let ?totals = "AList.update (direction_type dir) (count_or_0 totals (direction_type dir) + n) totals"
  obtain m where m: "sum_by_type_from ?totals rows = Inr m"
    "\<forall>ty. count_or_0 m ty = count_or_0 ?totals ty
       + sum_list (map snd (filter (\<lambda>(d, n). map_option direction_type (direction_of_value d) = Some ty) rows))"
    using Cons.IH [of ?totals] Cons.prems by auto
  have "count_or_0 ?totals ty = count_or_0 totals ty + (if ty = direction_type dir then n else 0)" for ty
    by (simp add: count_or_0_def update_conv')
  then show ?case using m dir row by (auto simp: count_or_0_def)
qed simp

lemma sum_group_counts:
  "sum_list (map snd (filter (\<lambda>(d, n). P d) (group_counts ds))) = int (length (filter P ds))"
proof -
  have "sum_list (map snd (filter (\<lambda>(d, n). P d) (group_counts ds)))
      = sum_list (map (\<lambda>d. int (count_list ds d)) (filter P (remdups ds)))"
    by (simp add: group_counts_def filter_map comp_def)
  also have "\<dots> = (\<Sum>d \<in> set (filter P (remdups ds)). int (count_list ds d))"
    by (intro sum_list_distinct_conv_sum_set) simp
  also have "\<dots> = (\<Sum>d \<in> set (filter P ds). int (count_list (filter P ds) d))"
    by (intro sum.cong) (auto simp: count_list_eq_length_filter intro!: arg_cong [where f = length] filter_cong)
  also have "\<dots> = int (length (filter P ds))"
    using sum_count_set [of "filter P ds" "set (filter P ds)"] by (simp flip: of_nat_sum)
  finally show ?thesis .
qed

lemma sum_by_type_groups:
  assumes "\<forall>d \<in> set ds. direction_of_value d \<noteq> None"
  shows "\<exists>m. sum_by_type (group_counts ds) = Inr m \<and> (\<forall>ty. count_or_0 m ty = int (dirs_of_type ty ds))"
  using sum_by_type_from_eq [of "group_counts ds" "[]"] assms
  by (auto simp: sum_by_type_def sum_group_counts dirs_of_type_def count_or_0_def [of "[]"])
    (auto simp: group_counts_def)

lemma due_counts_eq:
  assumes "db_ok db"
  shows "\<exists>m. due_counts db now = Inr m
    \<and> (\<forall>ty. count_or_0 m ty = int (dirs_of_type ty (map row_direction (due_rows db now))))"
  unfolding due_counts_def using db_ok_rows [OF assms]
  by (intro sum_by_type_groups) (auto simp: due_rows_def row_ok_def)

lemma new_cards_introduced_eq:
  assumes "db_ok db"
  shows "\<exists>m. new_cards_introduced db start end = Inr m
    \<and> (\<forall>ty. count_or_0 m ty = int (dirs_of_type ty (map log_direction (introduced_rows db start end))))"
  unfolding new_cards_introduced_def using assms
  by (intro sum_by_type_groups) (auto simp: introduced_rows_def db_ok_def log_ok_def)

section \<open>States and introductions\<close>

lemma states_from_ok:
  "\<forall>r \<in> set rs. row_ok r \<Longrightarrow> distinct (map row_key rs) \<Longrightarrow>
     \<exists>m. states_from acc rs = Some m
      \<and> (\<forall>k. map_of m k = (case Option.bind (find (\<lambda>r. row_key r = key_columns k) rs) stored of
             None \<Rightarrow> map_of acc k | Some sc \<Rightarrow> Some (sched_state (stored_schedule sc))))"
proof (induction rs arbitrary: acc)
  case (Cons r rs)
  obtain sc where sc: "stored r = Some sc" "row_key r = key_columns (stored_key sc)"
      "state_of_value (row_state r) = Some (sched_state (stored_schedule sc))"
      "direction_of_value (row_direction r) = Some (key_direction (stored_key sc))"
    using row_ok_stored Cons.prems(1) by (metis list.set_intros(1))
  have "card (row_item r) (key_direction (stored_key sc)) = stored_key sc"
    using sc(2) by (simp add: row_key_def key_columns_def)
  moreover have "find (\<lambda>x. row_key x = row_key r) rs = None"
    using Cons.prems(2) unfolding find_None_iff by simp (metis image_eqI)
  moreover obtain m where "states_from (AList.update (stored_key sc) (sched_state (stored_schedule sc)) acc) rs = Some m"
    "\<forall>k. map_of m k = (case Option.bind (find (\<lambda>r. row_key r = key_columns k) rs) stored of
             None \<Rightarrow> map_of (AList.update (stored_key sc) (sched_state (stored_schedule sc)) acc) k
           | Some sc \<Rightarrow> Some (sched_state (stored_schedule sc)))"
    using Cons.IH [of "AList.update (stored_key sc) (sched_state (stored_schedule sc)) acc"] Cons.prems by auto
  ultimately have m: "states_from acc (r # rs) = Some m"
    and state: "map_of m k = (case Option.bind (find (\<lambda>r. row_key r = key_columns k) rs) stored of
             None \<Rightarrow> map_of (AList.update (stored_key sc) (sched_state (stored_schedule sc)) acc) k
           | Some sc \<Rightarrow> Some (sched_state (stored_schedule sc)))"
    and fresh: "find (\<lambda>x. row_key x = row_key r) rs = None" for k
    using sc by simp_all
  have "map_of m k = (case Option.bind (find (\<lambda>r. row_key r = key_columns k) (r # rs)) stored of
             None \<Rightarrow> map_of acc k | Some sc \<Rightarrow> Some (sched_state (stored_schedule sc)))" for k
  proof (cases "k = stored_key sc")
    case True
    then show ?thesis using state [of k] fresh sc by (simp add: update_conv')
  next
    case False
    then have "map_of (AList.update (stored_key sc) (sched_state (stored_schedule sc)) acc) k = map_of acc k"
      by (simp add: update_conv')
    then show ?thesis using state [of k] sc False by (simp split: option.split)
  qed
  then show ?case using m by blast
qed simp

lemma card_states_eq:
  assumes "db_ok db"
  shows "\<exists>m. card_states db = Inr m
    \<and> (\<forall>k. map_of m k = map_option (\<lambda>sc. sched_state (stored_schedule sc)) (card_of db k))"
proof -
  obtain m where m: "states_from [] (card_rows db) = Some m"
    "\<forall>k. map_of m k = (case card_of db k of None \<Rightarrow> None | Some sc \<Rightarrow> Some (sched_state (stored_schedule sc)))"
    using states_from_ok [of "card_rows db" "[]"] assms unfolding db_ok_def card_of_def map_of.simps by blast
  then have "card_states db = Inr m" by (simp add: card_states_def decoded_def)
  then show ?thesis using m(2) by (auto simp: map_option_case)
qed

lemma introduced_once:
  assumes "db_ok db"
  shows "length (filter (\<lambda>l. first_review l \<and> log_key l = key_columns k) (log_rows db))
       = (if card_of db k = None then 0 else 1)"
proof -
  have swap: "filter (\<lambda>l. first_review l \<and> log_key l = key_columns k) (log_rows db)
      = filter first_review (history (key_columns k) (log_rows db))"
    by (simp add: history_def conj_commute)
  show ?thesis
  proof (cases "card_of db k")
    case None
    have "history (key_columns k) (log_rows db) = []"
    proof (rule ccontr)
      assume "history (key_columns k) (log_rows db) \<noteq> []"
      then obtain l where "l \<in> set (log_rows db)" "log_key l = key_columns k"
        by (auto simp: history_def filter_empty_conv)
      then obtain r where r: "r \<in> set (card_rows db)" "row_key r = key_columns k"
        using assms by (fastforce simp: db_ok_def)
      then have "stored_key (the_card r) = k"
        using db_ok_rows [OF assms r(1)] by (metis key_columns_inject option.sel row_ok_stored the_card_def)
      then show False using card_of_row [OF assms r(1)] None by simp
    qed
    then show ?thesis using None by (simp add: swap)
  next
    case (Some sc)
    then obtain r where r: "r \<in> set (card_rows db)" "row_key r = key_columns k"
      by (auto elim: card_ofE [OF assms])
    then have "row_agrees (log_rows db) r" using assms by (simp add: db_ok_def)
    then obtain h hs where "history (key_columns k) (log_rows db) = h # hs" "first_review h"
      "\<forall>l \<in> set hs. \<not> first_review l"
      using r by (auto simp: row_agrees_def Let_def neq_Nil_conv)
    then show ?thesis using Some by (simp add: swap)
  qed
qed

section \<open>Reachable stores\<close>

text \<open>
  The stores that a sequence of recorded reviews and saved settings leads to, from an empty one.  A
  rejected review changes nothing, so it is not a step.
\<close>

inductive reached :: "progress_db \<Rightarrow> bool" where
  reached_empty: "reached empty_db"
| reached_review: "reached db \<Longrightarrow> schedule_ok a \<Longrightarrow> record_review k b a g mode dur db = Inr db' \<Longrightarrow> reached db'"
| reached_setting: "reached db \<Longrightarrow> reached (set_setting key v db)"

lemma set_setting_rows [simp]:
  "card_rows (set_setting key v db) = card_rows db" "log_rows (set_setting key v db) = log_rows db"
  by (simp_all add: set_setting_def)

lemma card_of_set_setting [simp]: "card_of (set_setting key v db) = card_of db"
  by (simp add: card_of_def fun_eq_iff)

lemma db_ok_set_setting [simp]: "db_ok (set_setting key v db) = db_ok db"
  by (simp add: db_ok_def)

lemma reached_db_ok: "reached db \<Longrightarrow> db_ok db"
  by (induction rule: reached.induct) (auto intro: record_review_preserves)

section \<open>The settings service over the settings table\<close>

definition save_settings :: "(review_settings \<Rightarrow> ustr) \<Rightarrow> review_settings \<Rightarrow> progress_db \<Rightarrow> progress_db" where
  "save_settings encode s db = set_setting SETTINGS_KEY (encode s) db"

definition stored_settings :: "(ustr \<Rightarrow> review_settings option) \<Rightarrow> progress_db \<Rightarrow> review_settings" where
  "stored_settings decode db = fst (load_settings decode (get_setting db SETTINGS_KEY))"

locale key_value_store =
  fixes get :: "'s \<Rightarrow> ustr \<Rightarrow> ustr option"
    and put :: "ustr \<Rightarrow> ustr \<Rightarrow> 's \<Rightarrow> 's"
  assumes get_put: "get (put k v s) j = (if j = k then Some v else get s j)"
begin

lemma get_put_same: "get (put k v s) k = Some v"
  by (simp add: get_put)

lemma get_after_other_puts:
  "\<forall>(k, v) \<in> set kvs. k \<noteq> j \<Longrightarrow> get (fold (\<lambda>(k, v). put k v) kvs s) j = get s j"
  by (induction kvs arbitrary: s) (auto simp: get_put)

lemma put_put: "get (put k v (put k w s)) = get (put k v s)"
  by (auto simp: get_put fun_eq_iff)

lemma loaded_after_save:
  assumes "decode (encode x) = Some x" and "settings_ok x" and "\<forall>(k, v) \<in> set kvs. k \<noteq> key"
  shows "fst (load_settings decode (get (fold (\<lambda>(k, v). put k v) kvs (put key (encode x) s)) key)) = x"
  using assms by (simp add: get_after_other_puts get_put_same load_settings_saved)

end

interpretation app_settings: key_value_store get_setting set_setting
  by unfold_locales (simp add: get_setting_def set_setting_def update_conv')

end
