(* ===== verification/Session.thy ===== *)
theory Session
  imports Availability StudyDay Distractors Scheduler ProgressQueries
begin

text \<open>
  \<^verbatim>\<open>orchestration/review_session.py\<close> and \<^verbatim>\<open>models/review_session.py\<close>: choosing the next card, building
  its view and recording an answer, over the content database, the progress store and the
  settings.  A call takes the state of the gate (which repository was verified) and of the
  store, and returns both beside its result.
\<close>

section \<open>The environment and the views\<close>

datatype session_error =
  SNotReady not_ready | SUnknownItem card_key | SStale card_key | SRepo repo_error | SNaive naive_error
| SDay day_error | SContentFault

text \<open>What the orchestrator is built with; a multiple-choice view draws its random numbers from \<open>env_rng\<close>.\<close>

record 'r session_env =
  env_scheduler :: "review_settings \<Rightarrow> scheduler"
  env_policy :: "review_settings \<Rightarrow> item_type \<Rightarrow> catalog_entry list \<Rightarrow> states \<Rightarrow> int option \<Rightarrow> card_key list"
  env_tz :: tz
  env_rank :: "card_key \<Rightarrow> instant option \<Rightarrow> nat"
  env_below :: "'r \<Rightarrow> nat \<Rightarrow> nat \<times> 'r"
  env_rng :: 'r
  env_decode :: "ustr \<Rightarrow> review_settings option"

record type_counts =
  count_kana :: int
  count_kanji :: int
  count_vocab :: int

definition counts_from_mapping :: "(item_type \<times> int) list \<Rightarrow> type_counts" where
  "counts_from_mapping m =
     \<lparr>count_kana = count_or_0 m KANA, count_kanji = count_or_0 m KANJI, count_vocab = count_or_0 m VOCAB\<rparr>"

record grade_intervals =
  ival_again :: int
  ival_hard :: int
  ival_good :: int
  ival_easy :: int

record card_view =
  view_key :: card_key
  view_type :: item_type
  view_is_new :: bool
  view_state :: sched_state
  view_expected :: "instant option"
  view_intervals :: grade_intervals
  view_mode :: review_mode_name
  view_answers :: "ustr list option"
  view_choices :: "ustr list option"
  view_item :: item

record review_counts =
  counts_due :: type_counts
  counts_new :: type_counts

record next_card_view =
  next_view :: "card_view option"
  next_due_at :: "instant option"
  next_counts :: review_counts

section \<open>The plan\<close>

record session_plan =
  plan_settings :: review_settings
  plan_introduced :: "(item_type \<times> int) list"
  plan_due :: "(item_type \<times> int) list"
  plan_new :: "(item_type \<times> card_key list) list"

definition TYPE_ORDER :: "item_type list" where
  "TYPE_ORDER = [KANA, KANJI, VOCAB]"

definition ORPHAN_SCAN :: int where
  "ORPHAN_SCAN = 50"

definition new_keys :: "session_plan \<Rightarrow> item_type \<Rightarrow> card_key list" where
  "new_keys p ty = the (map_of (plan_new p) ty)"

definition plan_counts :: "session_plan \<Rightarrow> review_counts" where
  "plan_counts p =
     \<lparr>counts_due = counts_from_mapping (plan_due p),
      counts_new = counts_from_mapping (map (\<lambda>(ty, ks). (ty, int (length ks))) (plan_new p))\<rparr>"

definition first_new :: "(card_key \<Rightarrow> instant option \<Rightarrow> nat) \<Rightarrow> item_type \<Rightarrow> card_key list \<Rightarrow> card_key" where
  "first_new rnk ty ks = (if ty = KANA then the (min_by (\<lambda>k. rnk k None) ks) else hd ks)"

definition remaining_share :: "review_settings \<Rightarrow> (item_type \<times> int) list \<Rightarrow> item_type \<Rightarrow> pyfloat" where
  "remaining_share s introduced ty =
     (let limit = limit_for_type (new_limits s) ty
      in if limit = 0 then 1 else fdiv (limit - count_or_0 introduced ty) limit)"

fun pick_new_loop ::
  "(card_key \<Rightarrow> instant option \<Rightarrow> nat) \<Rightarrow> session_plan \<Rightarrow> item_type list \<Rightarrow> card_key option \<Rightarrow> pyfloat
     \<Rightarrow> card_key option" where
  "pick_new_loop rnk p [] best best_share = best"
| "pick_new_loop rnk p (ty # tys) best best_share =
     (let ks = new_keys p ty in
        if ks = [] then pick_new_loop rnk p tys best best_share
        else let share = remaining_share (plan_settings p) (plan_introduced p) ty in
          if best_share < share then pick_new_loop rnk p tys (Some (first_new rnk ty ks)) share
          else pick_new_loop rnk p tys best best_share)"

definition pick_new :: "(card_key \<Rightarrow> instant option \<Rightarrow> nat) \<Rightarrow> session_plan \<Rightarrow> card_key option" where
  "pick_new rnk p = pick_new_loop rnk p TYPE_ORDER None (-1)"

definition allowance_for :: "review_settings \<Rightarrow> (item_type \<times> int) list \<Rightarrow> item_type \<Rightarrow> int option" where
  "allowance_for s introduced ty =
     (let limit = limit_for_type (new_limits s) ty
      in if limit = 0 then None else Some (max 0 (limit - count_or_0 introduced ty)))"

definition select_new ::
  "'r session_env \<Rightarrow> content_db \<Rightarrow> review_settings \<Rightarrow> states \<Rightarrow> (item_type \<times> int) list
     \<Rightarrow> (item_type \<times> availability) list \<Rightarrow> item_type \<Rightarrow> card_key list" where
  "select_new env cdb s sts introduced avail ty =
     (if \<not> allowed (the (map_of avail ty)) then []
      else let allowance = allowance_for s introduced ty in
        if allowance = Some 0 then []
        else env_policy env s ty (catalog_entries cdb ty) sts allowance)"

definition make_plan ::
  "'r session_env \<Rightarrow> instant \<Rightarrow> content_db \<Rightarrow> review_settings \<Rightarrow> progress_db \<Rightarrow> session_error + session_plan" where
  "make_plan env now cdb s db =
     and_then (raise_as SDay (study_day_window (Aware now) (rollover_hour s) (env_tz env))) (\<lambda>(start, end).
     and_then (raise_as SRepo (card_states db)) (\<lambda>sts.
     and_then (raise_as SRepo (new_cards_introduced db start end)) (\<lambda>introduced.
     and_then (raise_as SRepo (due_counts db now)) (\<lambda>due.
       let kana_entries = (if gate_kanji (kana_gate s) \<or> gate_vocab (kana_gate s) then catalog_entries cdb KANA else []);
           avail = type_availability s kana_entries sts
       in Inr \<lparr>plan_settings = s, plan_introduced = introduced, plan_due = due,
               plan_new = map (\<lambda>ty. (ty, select_new env cdb s sts introduced avail ty)) TYPE_ORDER\<rparr>))))"

section \<open>Views\<close>

definition load_item :: "content_db \<Rightarrow> card_key \<Rightarrow> item option" where
  "load_item cdb k = get_item cdb (key_type k) (key_item_id k)"

definition pick_due :: "(card_key \<Rightarrow> instant option \<Rightarrow> nat) \<Rightarrow> stored_card list \<Rightarrow> stored_card" where
  "pick_due rnk due =
     (let earliest = hd due in
        if key_type (stored_key earliest) \<noteq> KANA then earliest
        else the (min_by (\<lambda>c. rnk (stored_key c) (sched_last_review (stored_schedule c)))
                   (filter (\<lambda>c. key_type (stored_key c) = KANA) due)))"

text \<open>\<^verbatim>\<open>max(0, round((due - now).total_seconds()))\<close>\<close>

definition seconds_until :: "card_schedule \<Rightarrow> instant \<Rightarrow> int" where
  "seconds_until s now = max 0 (round_half_even (fdiv (sched_due s - now) SECOND))"

definition answer_fields ::
  "'r session_env \<Rightarrow> card_key \<Rightarrow> item \<Rightarrow> review_settings \<Rightarrow> content_db
     \<Rightarrow> review_mode_name \<times> ustr list option \<times> ustr list option" where
  "answer_fields env k it s cdb =
     (let mode = mode_for s (key_type k) in
        if mode = FLIP then (FLIP, None, None)
        else case accepted_answers_for (key_direction k) it of
          [] \<Rightarrow> (FLIP, None, None)
        | a # as \<Rightarrow>
            if mode = TYPED then (TYPED, Some (a # as), None)
            else (MULTIPLE_CHOICE, Some [a], choices_for (env_below env) k it s cdb (env_rng env)))"

definition make_view ::
  "scheduler \<Rightarrow> card_key \<Rightarrow> card_schedule \<Rightarrow> item \<Rightarrow> instant
     \<Rightarrow> review_mode_name \<times> ustr list option \<times> ustr list option \<Rightarrow> session_error + card_view" where
  "make_view sch k sched it now resolved =
     and_then (raise_as SNaive (preview_of sch sched (Aware now))) (\<lambda>previews.
       Inr \<lparr>view_key = k, view_type = key_type k, view_is_new = (sched_state sched = NEW),
            view_state = sched_state sched, view_expected = sched_last_review sched,
            view_intervals = \<lparr>ival_again = seconds_until (previews AGAIN) now, ival_hard = seconds_until (previews HARD) now,
                              ival_good = seconds_until (previews GOOD) now, ival_easy = seconds_until (previews EASY) now\<rparr>,
            view_mode = fst resolved, view_answers = fst (snd resolved), view_choices = snd (snd resolved),
            view_item = it\<rparr>)"

lemma pick_due_mem: "due \<noteq> [] \<Longrightarrow> pick_due rnk due \<in> set due"
proof -
  assume due: "due \<noteq> []"
  show ?thesis
  proof (cases "key_type (stored_key (hd due)) = KANA")
    case True
    let ?kana = "filter (\<lambda>c. key_type (stored_key c) = KANA) due"
    have "hd due \<in> set ?kana" using due True by simp
    then have "?kana \<noteq> []" by (metis empty_iff list.set(1))
    then obtain m where "min_by (\<lambda>c. rnk (stored_key c) (sched_last_review (stored_schedule c))) ?kana = Some m"
      by (metis min_by_None not_None_eq)
    then show ?thesis using min_by_mem True by (fastforce simp: pick_due_def)
  qed (simp add: pick_due_def due)
qed

text \<open>\<^verbatim>\<open>while due:\<close> pick one, remove it, show it unless its item is gone.\<close>

function due_view_loop ::
  "'r session_env \<Rightarrow> instant \<Rightarrow> content_db \<Rightarrow> scheduler \<Rightarrow> review_settings \<Rightarrow> stored_card list
     \<Rightarrow> session_error + card_view option" where
  "due_view_loop env now cdb sch s due =
     (if due = [] then Inr None
      else let c = pick_due (env_rank env) due in
        case load_item cdb (stored_key c) of
          None \<Rightarrow> due_view_loop env now cdb sch s (remove1 c due)
        | Some it \<Rightarrow> map_sum id Some (make_view sch (stored_key c) (stored_schedule c) it now
                       (answer_fields env (stored_key c) it s cdb)))"
  by pat_completeness auto

termination
  by (relation "measure (\<lambda>(_, _, _, _, _, due). length due)")
    (auto simp: length_remove1 pick_due_mem)

declare due_view_loop.simps [simp del]

definition due_view ::
  "'r session_env \<Rightarrow> instant \<Rightarrow> content_db \<Rightarrow> scheduler \<Rightarrow> review_settings \<Rightarrow> progress_db
     \<Rightarrow> session_error + card_view option" where
  "due_view env now cdb sch s db =
     and_then (raise_as SRepo (due_cards db now ORPHAN_SCAN)) (due_view_loop env now cdb sch s)"

definition new_view ::
  "'r session_env \<Rightarrow> instant \<Rightarrow> content_db \<Rightarrow> scheduler \<Rightarrow> review_settings \<Rightarrow> session_plan
     \<Rightarrow> session_error + card_view option" where
  "new_view env now cdb sch s p =
     (case pick_new (env_rank env) p of
        None \<Rightarrow> Inr None
      | Some k \<Rightarrow>
          case load_item cdb k of
            None \<Rightarrow> Inr None
          | Some it \<Rightarrow>
              and_then (raise_as SNaive (initial_of sch (Aware now))) (\<lambda>sched.
                map_sum id Some (make_view sch k sched it now (answer_fields env k it s cdb))))"

section \<open>The operations\<close>

text \<open>The database behind the repository the gate hands out.\<close>

definition repo_db :: "content_repo \<Rightarrow> session_error + content_db" where
  "repo_db repo = (case repo_file repo of Readable cdb \<Rightarrow> Inr cdb | Unreadable \<Rightarrow> Inl SContentFault)"

definition next_card_in :: "'r session_env \<Rightarrow> instant \<Rightarrow> content_db \<Rightarrow> progress_db \<Rightarrow> session_error + next_card_view" where
  "next_card_in env now cdb db =
     (let s = stored_settings (env_decode env) db; sch = env_scheduler env s in
      and_then (make_plan env now cdb s db) (\<lambda>p.
      and_then (due_view env now cdb sch s db) (\<lambda>due.
      and_then (case due of Some v \<Rightarrow> Inr (Some v) | None \<Rightarrow> new_view env now cdb sch s p) (\<lambda>view.
      and_then (case view of Some _ \<Rightarrow> Inr None | None \<Rightarrow> raise_as SRepo (next_due_after db now)) (\<lambda>due_at.
        Inr \<lparr>next_view = view, next_due_at = due_at, next_counts = plan_counts p\<rparr>)))))"

definition next_card ::
  "'r session_env \<Rightarrow> instant \<Rightarrow> app_context \<Rightarrow> nat option \<Rightarrow> progress_db
     \<Rightarrow> (session_error + next_card_view) \<times> nat option" where
  "next_card env now ctx verified db =
     (case gate_repository ctx verified of
        (Inl e, verified) \<Rightarrow> (Inl (SNotReady e), verified)
      | (Inr repo, verified) \<Rightarrow> (and_then (repo_db repo) (\<lambda>cdb. next_card_in env now cdb db), verified))"

text \<open>The review mode stored with every review.\<close>

definition REVIEW_MODE :: ustr where
  "REVIEW_MODE = lit ''flip''"

definition record_error :: "repo_error \<Rightarrow> session_error" where
  "record_error e = (case e of StaleRow k \<Rightarrow> SStale k | _ \<Rightarrow> SRepo e)"

text \<open>\<^verbatim>\<open>answer\<close> up to the write: the store afterwards.\<close>

definition write_answer ::
  "'r session_env \<Rightarrow> instant \<Rightarrow> content_db \<Rightarrow> card_key \<Rightarrow> card_grade \<Rightarrow> instant option \<Rightarrow> int option
     \<Rightarrow> progress_db \<Rightarrow> session_error + progress_db" where
  "write_answer env now cdb k g expected duration db =
     (if load_item cdb k = None then Inl (SUnknownItem k)
      else
        let s = stored_settings (env_decode env) db; sch = env_scheduler env s in
        and_then (raise_as SRepo (get_card db k)) (\<lambda>st.
        and_then (case st of Some c \<Rightarrow> Inr (stored_schedule c) | None \<Rightarrow> raise_as SNaive (initial_of sch (Aware now))) (\<lambda>before.
          if sched_last_review before \<noteq> expected then Inl (SStale k)
          else and_then (raise_as SNaive (schedule_of sch before g (Aware now))) (\<lambda>after.
            raise_as record_error (record_review k before after g REVIEW_MODE duration db)))))"

definition answer_in ::
  "'r session_env \<Rightarrow> instant \<Rightarrow> content_db \<Rightarrow> card_key \<Rightarrow> card_grade \<Rightarrow> instant option \<Rightarrow> int option
     \<Rightarrow> progress_db \<Rightarrow> (session_error + review_counts) \<times> progress_db" where
  "answer_in env now cdb k g expected duration db =
     (case write_answer env now cdb k g expected duration db of
        Inl e \<Rightarrow> (Inl e, db)
      | Inr db' \<Rightarrow> (map_sum id plan_counts (make_plan env now cdb (stored_settings (env_decode env) db) db'), db'))"

definition answer ::
  "'r session_env \<Rightarrow> instant \<Rightarrow> app_context \<Rightarrow> nat option \<Rightarrow> card_key \<Rightarrow> card_grade \<Rightarrow> instant option \<Rightarrow> int option
     \<Rightarrow> progress_db \<Rightarrow> (session_error + review_counts) \<times> nat option \<times> progress_db" where
  "answer env now ctx verified k g expected duration db =
     (case gate_repository ctx verified of
        (Inl e, verified) \<Rightarrow> (Inl (SNotReady e), verified, db)
      | (Inr repo, verified) \<Rightarrow>
          case repo_db repo of
            Inl e \<Rightarrow> (Inl e, verified, db)
          | Inr cdb \<Rightarrow>
              case answer_in env now cdb k g expected duration db of
                (res, db') \<Rightarrow> (res, verified, db'))"

end
