(* ===== verification/SessionLemmas.thy ===== *)
theory SessionLemmas
  imports Session
begin

text \<open>
  What the review session promises.  The locale \<open>study_session\<close> is its interface to the policy and
  the scheduler it is built with; it is interpreted on the two factories of the program.
\<close>

section \<open>Recording against the abstract view\<close>

lemma record_succeeds:
  assumes ok: "db_ok db" and time: "sched_last_review a \<noteq> None"
    and base: "card_of db k = None \<and> sched_state b = NEW \<or> (\<exists>c. card_of db k = Some c \<and> b = stored_schedule c)"
  shows "\<exists>db'. record_review k b a g mode dur db = Inr db'"
proof -
  obtain t where t: "sched_last_review a = Some t" using time by blast
  from base show ?thesis
  proof
    assume none: "card_of db k = None \<and> sched_state b = NEW"
    have "key_columns k \<notin> set (map row_key (card_rows db))"
    proof
      assume "key_columns k \<in> set (map row_key (card_rows db))"
      then obtain r where r: "r \<in> set (card_rows db)" "row_key r = key_columns k" by auto
      then have "stored_key (the_card r) = k"
        using db_ok_rows [OF ok r(1)] by (metis key_columns_inject option.sel row_ok_stored the_card_def)
      then show False using card_of_row [OF ok r(1)] none by simp
    qed
    then show ?thesis using none t by (simp add: record_review_new)
  next
    assume "\<exists>c. card_of db k = Some c \<and> b = stored_schedule c"
    then obtain c where c: "card_of db k = Some c" "b = stored_schedule c" by blast
    obtain r where r: "r \<in> set (card_rows db)" "row_ok r" "row_key r = key_columns k" "stored r = Some c"
      by (rule card_ofE [OF ok c(1)])
    then obtain u where u: "row_last_review r = Some (stamp u)" "sched_last_review b = Some u" "sched_state b \<noteq> NEW"
      using row_ok_stored [OF r(2)] c(2) by (metis option.inject)
    have "filter (hit_row k (stamp u)) (card_rows db) = [r]"
    proof -
      have "set (filter (hit_row k (stamp u)) (card_rows db)) = {r}"
      proof -
        have only: "x = r" if "x \<in> set (card_rows db)" "hit_row k (stamp u) x" for x
          using row_unique [OF ok that(1) r(1)] that(2) r(3) by (simp add: hit_row_def)
        have "hit_row k (stamp u) r" using r(3) u(1) by (simp add: hit_row_def)
        then show ?thesis using r(1) by (auto dest: only)
      qed
      moreover have "distinct (filter (hit_row k (stamp u)) (card_rows db))"
        using ok by (simp add: db_ok_def distinct_map)
      ultimately show ?thesis by (rule distinct_singleton [rotated])
    qed
    then show ?thesis using u t by (simp add: record_review_update)
  qed
qed

lemma next_due_after_ok:
  assumes ok: "db_ok db"
  shows "\<exists>x. next_due_after db now = Inr x"
proof (cases "min_by (\<lambda>d. d) (filter (\<lambda>d. stamp now < d) (map row_due (card_rows db)))")
  case (Some d)
  then have "d \<in> set (filter (\<lambda>d. stamp now < d) (map row_due (card_rows db)))" by (rule min_by_mem)
  then obtain r where "r \<in> set (card_rows db)" "d = row_due r" by auto
  then have "good_stamp d" using db_ok_rows [OF ok] by (simp add: row_ok_def)
  then obtain t where "parse_timestamp d = Some t" by (rule good_stampE)
  then show ?thesis using Some by (cases "d = []") (simp_all add: next_due_after_def decoded_def parse_optional_def)
next
  case None
  then show ?thesis by (simp only: next_due_after_def option.case) blast
qed

section \<open>The catalogue and the items\<close>

lemma get_row_Some: "(i, y, x) \<in> set rows \<Longrightarrow> \<exists>z. get_row rows i = Some z"
  unfolding get_row_def by (induction rows) auto

lemma catalog_item_exists:
  "e \<in> set (catalog_entries cdb ty) \<Longrightarrow> \<exists>it. get_item cdb ty (entry_item_id e) = Some it"
proof -
  assume "e \<in> set (catalog_entries cdb ty)"
  then obtain n i lev where e: "(n, i, lev) \<in> set (enumerate 0 (catalog cdb ty))" "entry_item_id e = i"
    by (auto simp: catalog_entries_def)
  then have "(i, lev) \<in> set (catalog cdb ty)" by (metis set_zip_rightD enumerate_eq_zip)
  then show ?thesis using e(2) by (cases ty) (auto dest: get_row_Some)
qed

section \<open>Plans\<close>

lemma make_planE:
  assumes "make_plan env now cdb s db = Inr p"
  obtains start stop sts introduced due where
    "study_day_window (Aware now) (rollover_hour s) (env_tz env) = Inr (start, stop)"
    "card_states db = Inr sts" "new_cards_introduced db start stop = Inr introduced" "due_counts db now = Inr due"
    "plan_settings p = s" "plan_introduced p = introduced" "plan_due p = due"
    "\<And>ty. new_keys p ty = select_new env cdb s sts introduced (type_availability s
       (if gate_kanji (kana_gate s) \<or> gate_vocab (kana_gate s) then catalog_entries cdb KANA else []) sts) ty"
proof -
  obtain start stop sts introduced due where *:
    "study_day_window (Aware now) (rollover_hour s) (env_tz env) = Inr (start, stop)"
    "card_states db = Inr sts" "new_cards_introduced db start stop = Inr introduced" "due_counts db now = Inr due"
    "p = \<lparr>plan_settings = s, plan_introduced = introduced, plan_due = due,
          plan_new = map (\<lambda>ty. (ty, select_new env cdb s sts introduced (type_availability s
       (if gate_kanji (kana_gate s) \<or> gate_vocab (kana_gate s) then catalog_entries cdb KANA else []) sts) ty)) TYPE_ORDER\<rparr>"
    using assms by (auto simp: make_plan_def Let_def and_then_Inr raise_as_Inr split: prod.splits)
  have "new_keys p ty = select_new env cdb s sts introduced (type_availability s
       (if gate_kanji (kana_gate s) \<or> gate_vocab (kana_gate s) then catalog_entries cdb KANA else []) sts) ty" for ty
    using *(5) by (cases ty) (simp_all add: new_keys_def TYPE_ORDER_def)
  then show thesis using that [of start stop sts introduced due] * by simp
qed

lemma make_plan_total:
  assumes ok: "db_ok db" and hour: "0 \<le> rollover_hour s" "rollover_hour s \<le> 23"
  shows "\<exists>p. make_plan env now cdb s db = Inr p"
proof -
  obtain start stop where "study_day_window (Aware now) (rollover_hour s) (env_tz env) = Inr (start, stop)"
    using study_day_window_eq [OF hour] by blast
  moreover obtain sts where "card_states db = Inr sts" using card_states_eq [OF ok] by blast
  moreover obtain introduced where "new_cards_introduced db start stop = Inr introduced"
    using new_cards_introduced_eq [OF ok] by blast
  moreover obtain due where "due_counts db now = Inr due" using due_counts_eq [OF ok] by blast
  ultimately show ?thesis by (simp add: make_plan_def Let_def)
qed

definition introduced_today :: "'r session_env \<Rightarrow> instant \<Rightarrow> review_settings \<Rightarrow> progress_db \<Rightarrow> item_type \<Rightarrow> int" where
  "introduced_today env now s db ty =
     (let k = study_index (rollover_hour s) (env_tz env) now in
      int (dirs_of_type ty (map log_direction (introduced_rows db
        (day_start (rollover_hour s) (env_tz env) k) (day_start (rollover_hour s) (env_tz env) (k + 1))))))"

lemma plan_introduced_eq:
  assumes "db_ok db" "0 \<le> rollover_hour s" "rollover_hour s \<le> 23" "make_plan env now cdb s db = Inr p"
  shows "count_or_0 (plan_introduced p) ty = introduced_today env now s db ty"
  using assms(4)
proof (rule make_planE)
  fix start stop sts introduced due
  assume *: "study_day_window (Aware now) (rollover_hour s) (env_tz env) = Inr (start, stop)"
    "new_cards_introduced db start stop = Inr introduced" "plan_introduced p = introduced"
  then show ?thesis
    using study_day_window_eq [OF assms(2,3), of now "env_tz env"] new_cards_introduced_eq [OF assms(1), of start stop]
    by (auto simp: introduced_today_def Let_def)
qed

section \<open>Picking a new card\<close>

lemma first_new_mem: "ks \<noteq> [] \<Longrightarrow> first_new rnk ty ks \<in> set ks"
proof -
  assume ks: "ks \<noteq> []"
  then obtain m where "min_by (\<lambda>k. rnk k None) ks = Some m" by (metis min_by_None not_None_eq)
  then show ?thesis using ks min_by_mem by (fastforce simp: first_new_def)
qed

abbreviation share_of :: "session_plan \<Rightarrow> item_type \<Rightarrow> pyfloat" where
  "share_of p ty \<equiv> remaining_share (plan_settings p) (plan_introduced p) ty"

lemma pick_new_loop_spec:
  "pick_new_loop rnk p tys best bs = best \<and> (\<forall>ty \<in> set tys. new_keys p ty \<noteq> [] \<longrightarrow> share_of p ty \<le> bs)
   \<or> (\<exists>ty \<in> set tys. new_keys p ty \<noteq> [] \<and> bs < share_of p ty
       \<and> pick_new_loop rnk p tys best bs = Some (first_new rnk ty (new_keys p ty))
       \<and> (\<forall>ty' \<in> set tys. new_keys p ty' \<noteq> [] \<longrightarrow> share_of p ty' \<le> share_of p ty))"
proof (induction tys arbitrary: best bs)
  case (Cons ty tys)
  show ?case
  proof (cases "new_keys p ty \<noteq> [] \<and> bs < share_of p ty")
    case True
    then show ?thesis
      using Cons.IH [of "Some (first_new rnk ty (new_keys p ty))" "share_of p ty"] by (auto simp: Let_def)
  next
    case False
    then show ?thesis using Cons.IH [of best bs] by (auto simp: Let_def)
  qed
qed simp

lemma set_TYPE_ORDER [simp]: "set TYPE_ORDER = UNIV"
proof -
  have "t \<in> set TYPE_ORDER" for t by (cases t) (simp_all add: TYPE_ORDER_def)
  then show ?thesis by blast
qed

lemma pick_new_Some:
  assumes "pick_new rnk p = Some k"
  obtains ty where "new_keys p ty \<noteq> []" "k = first_new rnk ty (new_keys p ty)" "k \<in> set (new_keys p ty)"
    "\<And>ty'. new_keys p ty' \<noteq> [] \<Longrightarrow> share_of p ty' \<le> share_of p ty"
  using assms pick_new_loop_spec [of rnk p TYPE_ORDER None "-1"] first_new_mem
  unfolding pick_new_def by auto

lemma fl_nonneg: "0 \<le> x \<Longrightarrow> 0 \<le> fl x"
  by (metis ieee.rnd_mono ieee.rnd_zero)

lemma share_of_nonneg:
  assumes "new_keys p ty = select_new env cdb s sts introduced avail ty" "new_keys p ty \<noteq> []"
    and "plan_settings p = s" "plan_introduced p = introduced"
    and "0 \<le> limit_for_type (new_limits s) ty"
  shows "0 \<le> share_of p ty"
proof (cases "limit_for_type (new_limits s) ty = 0")
  case False
  then have "count_or_0 introduced ty < limit_for_type (new_limits s) ty"
    using assms by (auto simp: select_new_def allowance_for_def Let_def split: if_splits)
  then have "0 \<le> fdiv (limit_for_type (new_limits s) ty - count_or_0 introduced ty) (limit_for_type (new_limits s) ty)"
    unfolding fdiv_def using assms(5) by (intro fl_nonneg divide_nonneg_nonneg) simp_all
  then show ?thesis using assms False by (simp add: remaining_share_def Let_def)
qed (simp add: remaining_share_def assms)

lemma pick_new_None:
  assumes "make_plan env now cdb s db = Inr p" and "settings_ok s"
  shows "pick_new rnk p = None \<longleftrightarrow> (\<forall>ty. new_keys p ty = [])"
proof
  assume none: "pick_new rnk p = None"
  show "\<forall>ty. new_keys p ty = []"
  proof (rule ccontr)
    assume "\<not> ?thesis"
    then obtain ty where ty: "new_keys p ty \<noteq> []" by blast
    have "share_of p ty \<le> -1"
      using none ty pick_new_loop_spec [of rnk p TYPE_ORDER None "-1"] unfolding pick_new_def by auto
    moreover have "0 \<le> share_of p ty"
      using assms(1)
    proof (rule make_planE)
      fix start stop sts introduced due
      assume "plan_settings p = s" "plan_introduced p = introduced"
        and keys: "\<And>ty. new_keys p ty = select_new env cdb s sts introduced (type_availability s
         (if gate_kanji (kana_gate s) \<or> gate_vocab (kana_gate s) then catalog_entries cdb KANA else []) sts) ty"
      then show ?thesis using settings_okD(1) [OF assms(2)] by (intro share_of_nonneg [OF keys ty]) auto
    qed
    ultimately show False by simp
  qed
next
  assume "\<forall>ty. new_keys p ty = []"
  then show "pick_new rnk p = None"
    using pick_new_loop_spec [of rnk p TYPE_ORDER None "-1"] by (auto simp: pick_new_def)
qed

section \<open>The session's contract\<close>

lemma make_viewD:
  "make_view sch k sched it now resolved = Inr v \<Longrightarrow>
     view_key v = k \<and> view_item v = it \<and> view_expected v = sched_last_review sched
     \<and> view_is_new v = (sched_state sched = NEW) \<and> view_mode v = fst resolved
     \<and> view_answers v = fst (snd resolved) \<and> view_choices v = snd (snd resolved) \<and> view_type v = key_type k"
  by (auto simp: make_view_def and_then_Inr)

lemma map_sum_Some: "map_sum id Some x = Inr (Some v) \<longleftrightarrow> x = Inr v" "map_sum id Some x \<noteq> Inr None"
  by (cases x; simp)+

abbreviation gate_entries :: "content_db \<Rightarrow> review_settings \<Rightarrow> catalog_entry list" where
  "gate_entries cdb s \<equiv> (if gate_kanji (kana_gate s) \<or> gate_vocab (kana_gate s) then catalog_entries cdb KANA else [])"

definition shows_card :: "content_db \<Rightarrow> stored_card \<Rightarrow> card_view \<Rightarrow> bool" where
  "shows_card cdb c v \<longleftrightarrow>
     view_key v = stored_key c \<and> load_item cdb (stored_key c) = Some (view_item v)
     \<and> view_expected v = sched_last_review (stored_schedule c)
     \<and> view_is_new v = (sched_state (stored_schedule c) = NEW)"

locale study_session =
  fixes env :: "'r session_env"
    and documented :: bool
  assumes policy: "card_policy (env_policy env s)"
    and scheduler: "scheduling documented (env_scheduler env s)"
begin

lemma new_keysE:
  assumes "make_plan env now cdb s db = Inr p" and "k \<in> set (new_keys p ty)"
  obtains sts where "card_states db = Inr sts" "allowed (availability_of s (gate_entries cdb s) sts ty)"
    "k \<in> set (env_policy env s ty (catalog_entries cdb ty) sts (allowance_for s (plan_introduced p) ty))"
  using assms(1)
proof (rule make_planE)
  fix start stop sts introduced due
  assume sts: "card_states db = Inr sts" and intro: "plan_introduced p = introduced"
    and keys: "\<And>ty. new_keys p ty = select_new env cdb s sts introduced (type_availability s (gate_entries cdb s) sts) ty"
  have "k \<in> set (select_new env cdb s sts introduced (type_availability s (gate_entries cdb s) sts) ty)"
    using assms(2) keys by simp
  then show thesis
    by (intro that [OF sts]) (auto simp: select_new_def Let_def intro split: if_splits)
qed

lemma new_keys_facts:
  assumes ok: "db_ok db" and plan: "make_plan env now cdb s db = Inr p" and k: "k \<in> set (new_keys p ty)"
  shows "card_of db k = None" "key_type k = ty" "load_item cdb k \<noteq> None"
    "enabled_for_type (type_enabled s) ty"
proof -
  obtain sts where sts: "card_states db = Inr sts" "allowed (availability_of s (gate_entries cdb s) sts ty)"
    and sel: "k \<in> set (env_policy env s ty (catalog_entries cdb ty) sts (allowance_for s (plan_introduced p) ty))"
    using plan k by (rule new_keysE)
  have "map_of sts k = None" using card_policy.select_new [OF policy sel] .
  then show "card_of db k = None" using card_states_eq [OF ok] sts(1) by auto
  obtain e where e: "e \<in> set (catalog_entries cdb ty)" "key_item_id k = entry_item_id e"
    and ty: "key_type k = ty" using card_policy.select_catalog [OF policy sel] by blast
  show "key_type k = ty" by (rule ty)
  show "load_item cdb k \<noteq> None" using catalog_item_exists [OF e(1)] e(2) ty by (auto simp: load_item_def)
  show "enabled_for_type (type_enabled s) ty" using sts(2) by (simp add: allowed_iff)
qed

lemma new_keys_within_allowance:
  assumes ok: "db_ok db" and plan: "make_plan env now cdb s db = Inr p"
    and hour: "0 \<le> rollover_hour s" "rollover_hour s \<le> 23" and lim: "0 < limit_for_type (new_limits s) ty"
  shows "int (length (new_keys p ty)) \<le> max 0 (limit_for_type (new_limits s) ty - introduced_today env now s db ty)"
  using plan
proof (rule make_planE)
  fix start stop sts introduced due
  assume intro: "plan_introduced p = introduced"
    and keys: "\<And>ty. new_keys p ty = select_new env cdb s sts introduced (type_availability s (gate_entries cdb s) sts) ty"
  define m where "m = max 0 (limit_for_type (new_limits s) ty - introduced_today env now s db ty)"
  have m: "0 \<le> m" by (simp add: m_def)
  have allowance: "allowance_for s introduced ty = Some m"
    using plan_introduced_eq [OF ok hour plan] lim by (simp add: allowance_for_def Let_def intro [symmetric] m_def)
  have "int (length (env_policy env s ty (catalog_entries cdb ty) sts (Some m))) \<le> m"
    using card_policy.select_length [OF policy, of s ty "catalog_entries cdb ty" sts m] m by simp
  then have "int (length (new_keys p ty)) \<le> m"
    unfolding keys select_new_def allowance Let_def using m by (simp split: if_split)
  then show ?thesis by (simp only: m_def)
qed

lemma make_view_total: "\<exists>v. make_view (env_scheduler env s) k sched it now resolved = Inr v"
  using scheduling.preview_total [OF scheduler, of s sched now] by (auto simp: make_view_def)

lemma due_view_loop_spec:
  "(\<exists>c v. c \<in> set due \<and> due_view_loop env now cdb (env_scheduler env s) s due = Inr (Some v) \<and> shows_card cdb c v)
   \<or> due_view_loop env now cdb (env_scheduler env s) s due = Inr None \<and> (\<forall>c \<in> set due. load_item cdb (stored_key c) = None)"
proof (induction "length due" arbitrary: due rule: less_induct)
  case less
  show ?case
  proof (cases "due = []")
    case True
    then show ?thesis by (subst (2) due_view_loop.simps) simp
  next
    case False
    define c where "c = pick_due (env_rank env) due"
    have c: "c \<in> set due" unfolding c_def by (rule pick_due_mem [OF False])
    show ?thesis
    proof (cases "load_item cdb (stored_key c)")
      case None
      have step: "due_view_loop env now cdb (env_scheduler env s) s due
          = due_view_loop env now cdb (env_scheduler env s) s (remove1 c due)"
        using False None by (subst due_view_loop.simps) (simp add: Let_def c_def)
      have "length (remove1 c due) < length due" using c length_pos_if_in_set [OF c] by (simp add: length_remove1)
      then have IH: "(\<exists>d v. d \<in> set (remove1 c due)
            \<and> due_view_loop env now cdb (env_scheduler env s) s (remove1 c due) = Inr (Some v) \<and> shows_card cdb d v)
         \<or> due_view_loop env now cdb (env_scheduler env s) s (remove1 c due) = Inr None
            \<and> (\<forall>d \<in> set (remove1 c due). load_item cdb (stored_key d) = None)"
        by (rule less)
      have "\<forall>x \<in> set due. x \<in> set (remove1 c due) \<or> x = c" by auto
      then show ?thesis using IH None unfolding step by (metis notin_set_remove1)
    next
      case (Some it)
      obtain v where v: "make_view (env_scheduler env s) (stored_key c) (stored_schedule c) it now
          (answer_fields env (stored_key c) it s cdb) = Inr v"
        using make_view_total by blast
      have "due_view_loop env now cdb (env_scheduler env s) s due = Inr (Some v)"
        using False Some v by (subst due_view_loop.simps) (simp add: Let_def c_def [symmetric])
      moreover have "shows_card cdb c v" using make_viewD [OF v] Some by (simp add: shows_card_def)
      ultimately show ?thesis using c by blast
    qed
  qed
qed

lemma due_view_loop_head:
  assumes "due = c # cs" and "key_type (stored_key c) \<noteq> KANA" and "load_item cdb (stored_key c) = Some it"
  shows "\<exists>v. due_view_loop env now cdb (env_scheduler env s) s due = Inr (Some v) \<and> shows_card cdb c v"
proof -
  obtain v where v: "make_view (env_scheduler env s) (stored_key c) (stored_schedule c) it now
      (answer_fields env (stored_key c) it s cdb) = Inr v"
    using make_view_total by blast
  have "due_view_loop env now cdb (env_scheduler env s) s due = Inr (Some v)"
    using assms v by (subst due_view_loop.simps) (simp add: Let_def pick_due_def)
  then show ?thesis using make_viewD [OF v] assms by (simp add: shows_card_def)
qed

lemma new_view_spec:
  assumes ok: "db_ok db" and plan: "make_plan env now cdb s db = Inr p" and valid: "settings_ok s"
  shows "(\<exists>v ty. new_view env now cdb (env_scheduler env s) s p = Inr (Some v) \<and> view_is_new v \<and> view_expected v = None
          \<and> view_key v \<in> set (new_keys p ty) \<and> load_item cdb (view_key v) = Some (view_item v)
          \<and> (\<forall>ty'. new_keys p ty' \<noteq> [] \<longrightarrow> share_of p ty' \<le> share_of p ty))
     \<or> new_view env now cdb (env_scheduler env s) s p = Inr None \<and> (\<forall>ty. new_keys p ty = [])"
proof (cases "pick_new (env_rank env) p")
  case None
  then show ?thesis using pick_new_None [OF plan valid, of "env_rank env"] by (simp add: new_view_def)
next
  case (Some k)
  then obtain ty where ty: "k \<in> set (new_keys p ty)" "\<forall>ty'. new_keys p ty' \<noteq> [] \<longrightarrow> share_of p ty' \<le> share_of p ty"
    by (rule pick_new_Some) blast
  then obtain it where it: "load_item cdb k = Some it" using new_keys_facts(3) [OF ok plan ty(1)] by blast
  obtain v where v: "make_view (env_scheduler env s) k (new_schedule now) it now (answer_fields env k it s cdb) = Inr v"
    using make_view_total by blast
  have "new_view env now cdb (env_scheduler env s) s p = Inr (Some v)"
    using Some it v scheduling.initial_new [OF scheduler, of s now] by (simp add: new_view_def)
  then show ?thesis using make_viewD [OF v] ty it by (auto simp: new_schedule_def)
qed

end

section \<open>Serving and answering\<close>

definition last_review_of :: "progress_db \<Rightarrow> card_key \<Rightarrow> instant option" where
  "last_review_of db k = (case card_of db k of None \<Rightarrow> None | Some c \<Rightarrow> sched_last_review (stored_schedule c))"

text \<open>The schedule a review of a card starts from.\<close>

definition base_schedule :: "progress_db \<Rightarrow> card_key \<Rightarrow> instant \<Rightarrow> card_schedule" where
  "base_schedule db k now = (case card_of db k of None \<Rightarrow> new_schedule now | Some c \<Rightarrow> stored_schedule c)"

lemma base_last_review [simp]: "sched_last_review (base_schedule db k now) = last_review_of db k"
  by (simp add: base_schedule_def last_review_of_def new_schedule_def split: option.split)

lemma last_review_stamp_ok: "db_ok db \<Longrightarrow> last_review_of db k = Some t \<Longrightarrow> stamp_ok t"
  by (auto simp: last_review_of_def split: option.splits elim!: card_ofE row_ok_stored)

lemma settings_always_ok [simp]: "settings_ok (stored_settings decode db)"
  by (simp add: stored_settings_def)

text \<open>The times the scheduler gives at \<open>now\<close> fit the four-digit years of the store.\<close>

definition times_fit :: "'r session_env \<Rightarrow> instant \<Rightarrow> bool" where
  "times_fit env now \<longleftrightarrow> stamp_ok now
     \<and> (\<forall>s c g a. schedule_of (env_scheduler env s) c g (Aware now) = Inr a \<longrightarrow> stamp_ok (sched_due a))"

context study_session begin

lemma due_view_spec:
  assumes "db_ok db" and "due_cards db now ORPHAN_SCAN = Inr due"
  shows "(\<exists>c v. c \<in> set due \<and> due_view env now cdb (env_scheduler env s) s db = Inr (Some v) \<and> shows_card cdb c v)
   \<or> due_view env now cdb (env_scheduler env s) s db = Inr None \<and> (\<forall>c \<in> set due. load_item cdb (stored_key c) = None)"
  using due_view_loop_spec [of due now cdb s] assms(2) by (simp add: due_view_def)

lemma next_card_spec:
  assumes ok: "db_ok db" and due: "due_cards db now ORPHAN_SCAN = Inr due"
    and plan: "make_plan env now cdb (stored_settings (env_decode env) db) db = Inr p"
  shows "\<exists>n. next_card_in env now cdb db = Inr n \<and> next_counts n = plan_counts p
    \<and> (case next_view n of
         Some v \<Rightarrow> (\<exists>c \<in> set due. shows_card cdb c v)
           \<or> (\<forall>c \<in> set due. load_item cdb (stored_key c) = None) \<and> view_is_new v \<and> view_expected v = None
             \<and> (\<exists>ty. view_key v \<in> set (new_keys p ty) \<and> (\<forall>ty'. new_keys p ty' \<noteq> [] \<longrightarrow> share_of p ty' \<le> share_of p ty))
             \<and> load_item cdb (view_key v) = Some (view_item v)
       | None \<Rightarrow> (\<forall>c \<in> set due. load_item cdb (stored_key c) = None) \<and> (\<forall>ty. new_keys p ty = [])
           \<and> next_due_after db now = Inr (next_due_at n))"
proof -
  let ?s = "stored_settings (env_decode env) db"
  let ?sch = "env_scheduler env ?s"
  show ?thesis using due_view_spec [OF ok due, of cdb ?s]
  proof
    assume "\<exists>c v. c \<in> set due \<and> due_view env now cdb ?sch ?s db = Inr (Some v) \<and> shows_card cdb c v"
    then show ?thesis using plan by (auto simp: next_card_in_def Let_def)
  next
    assume none: "due_view env now cdb ?sch ?s db = Inr None \<and> (\<forall>c \<in> set due. load_item cdb (stored_key c) = None)"
    from new_view_spec [OF ok plan settings_always_ok] show ?thesis
    proof
      assume "\<exists>v ty. new_view env now cdb ?sch ?s p = Inr (Some v) \<and> view_is_new v \<and> view_expected v = None
          \<and> view_key v \<in> set (new_keys p ty) \<and> load_item cdb (view_key v) = Some (view_item v)
          \<and> (\<forall>ty'. new_keys p ty' \<noteq> [] \<longrightarrow> share_of p ty' \<le> share_of p ty)"
      then obtain v ty where v: "new_view env now cdb ?sch ?s p = Inr (Some v)" "view_is_new v" "view_expected v = None"
          "view_key v \<in> set (new_keys p ty)" "load_item cdb (view_key v) = Some (view_item v)"
          "\<forall>ty'. new_keys p ty' \<noteq> [] \<longrightarrow> share_of p ty' \<le> share_of p ty"
        by blast
      have "next_card_in env now cdb db = Inr \<lparr>next_view = Some v, next_due_at = None, next_counts = plan_counts p\<rparr>"
        using plan none v(1) by (simp add: next_card_in_def Let_def)
      then show ?thesis using none v by fastforce
    next
      assume new: "new_view env now cdb ?sch ?s p = Inr None \<and> (\<forall>ty. new_keys p ty = [])"
      obtain x where "next_due_after db now = Inr x" using next_due_after_ok [OF ok] by blast
      then show ?thesis using plan none new by (simp add: next_card_in_def Let_def)
    qed
  qed
qed

lemma write_answer_eq:
  assumes ok: "db_ok db"
  shows "write_answer env now cdb k g expected duration db =
    (if load_item cdb k = None then Inl (SUnknownItem k)
     else if last_review_of db k \<noteq> expected then Inl (SStale k)
     else and_then (raise_as SNaive (schedule_of (env_scheduler env (stored_settings (env_decode env) db))
                      (base_schedule db k now) g (Aware now)))
       (\<lambda>after. raise_as record_error (record_review k (base_schedule db k now) after g REVIEW_MODE duration db)))"
  using get_card_eq [OF ok, of k] scheduling.initial_new [OF scheduler]
  by (cases "card_of db k")
    (simp_all add: write_answer_def Let_def base_schedule_def last_review_of_def new_schedule_def)

lemma write_answer_succeeds:
  assumes ok: "db_ok db" and doc: documented and item: "load_item cdb k \<noteq> None"
  shows "\<exists>db'. write_answer env now cdb k g (last_review_of db k) duration db = Inr db'"
proof -
  let ?sch = "env_scheduler env (stored_settings (env_decode env) db)"
  obtain a where a: "schedule_of ?sch (base_schedule db k now) g (Aware now) = Inr a"
    using scheduling.schedule_total [OF scheduler] by blast
  then have "sched_last_review a \<noteq> None" using scheduling.schedule_time [OF scheduler doc a] by simp
  moreover have "card_of db k = None \<and> sched_state (base_schedule db k now) = NEW
     \<or> (\<exists>c. card_of db k = Some c \<and> base_schedule db k now = stored_schedule c)"
    by (auto simp: base_schedule_def new_schedule_def split: option.split)
  ultimately obtain db' where "record_review k (base_schedule db k now) a g REVIEW_MODE duration db = Inr db'"
    using record_succeeds [OF ok] by blast
  then show ?thesis using item a by (simp add: write_answer_eq [OF ok])
qed

lemma write_answerE:
  assumes ok: "db_ok db" and doc: documented and fit: "times_fit env now"
    and ans: "write_answer env now cdb k g expected duration db = Inr db'"
  obtains a where "load_item cdb k \<noteq> None" "last_review_of db k = expected"
    "schedule_of (env_scheduler env (stored_settings (env_decode env) db)) (base_schedule db k now) g (Aware now) = Inr a"
    "record_review k (base_schedule db k now) a g REVIEW_MODE duration db = Inr db'"
    "schedule_ok a" "sched_last_review a = Some now"
proof -
  let ?sch = "env_scheduler env (stored_settings (env_decode env) db)"
  obtain a where a: "load_item cdb k \<noteq> None" "last_review_of db k = expected"
    "schedule_of ?sch (base_schedule db k now) g (Aware now) = Inr a"
    "record_review k (base_schedule db k now) a g REVIEW_MODE duration db = Inr db'"
    using ans by (auto simp: write_answer_eq [OF ok] and_then_Inr raise_as_Inr split: if_splits)
  have "sched_state a \<noteq> NEW" by (rule scheduling.schedule_not_new [OF scheduler a(3)])
  moreover have "sched_last_review a = Some now" using scheduling.schedule_time [OF scheduler doc a(3)] by simp
  moreover have "stamp_ok (sched_due a)" "stamp_ok now" using fit a(3) by (auto simp: times_fit_def)
  ultimately have "schedule_ok a" by (simp add: schedule_ok_def)
  then show thesis using that a \<open>sched_last_review a = Some now\<close> by blast
qed

lemma write_answer_preserves:
  assumes "db_ok db" and documented and "times_fit env now"
    and "write_answer env now cdb k g expected duration db = Inr db'"
  shows "db_ok db'" "last_review_of db' k = Some now" "\<And>j. j \<noteq> k \<Longrightarrow> card_of db' j = card_of db j"
proof -
  obtain a where a: "record_review k (base_schedule db k now) a g REVIEW_MODE duration db = Inr db'"
    "schedule_ok a" "sched_last_review a = Some now"
    using assms by (elim write_answerE) blast+
  show "db_ok db'" by (rule record_review_preserves [OF assms(1) a(2,1)])
  note card = card_of_record [OF assms(1) a(2,1)]
  show "last_review_of db' k = Some now"
    using a(3) by (simp add: last_review_of_def card reviewed_card_def split: option.split)
  show "card_of db' j = card_of db j" if "j \<noteq> k" for j using that by (simp add: card)
qed

text \<open>The token a view carries is the one the store expects.\<close>

lemma served_token:
  assumes ok: "db_ok db" and now: "stamp_ok now" and served: "next_card_in env now cdb db = Inr n" and view: "next_view n = Some v"
  shows "view_expected v = last_review_of db (view_key v)" "load_item cdb (view_key v) = Some (view_item v)"
proof -
  let ?s = "stored_settings (env_decode env) db"
  obtain p where p: "make_plan env now cdb ?s db = Inr p"
    using make_plan_total [OF ok] settings_okD(5,6) [OF settings_always_ok] by blast
  obtain due where due: "due_cards db now ORPHAN_SCAN = Inr due" using due_cards_eq [OF ok] by blast
  have "(\<exists>c \<in> set due. shows_card cdb c v)
      \<or> view_expected v = None \<and> (\<exists>ty. view_key v \<in> set (new_keys p ty)) \<and> load_item cdb (view_key v) = Some (view_item v)"
    using next_card_spec [OF ok due p] served view by auto
  then have "view_expected v = last_review_of db (view_key v) \<and> load_item cdb (view_key v) = Some (view_item v)"
  proof
    assume "\<exists>c \<in> set due. shows_card cdb c v"
    then obtain c where c: "c \<in> set due" "shows_card cdb c v" by blast
    have "card_of db (stored_key c) = Some c"
      using due_cards_correct(3) [OF ok now due _ c(1)] by (simp add: ORPHAN_SCAN_def)
    then show ?thesis using c(2) by (simp add: shows_card_def last_review_of_def)
  next
    assume *: "view_expected v = None \<and> (\<exists>ty. view_key v \<in> set (new_keys p ty)) \<and> load_item cdb (view_key v) = Some (view_item v)"
    then obtain ty where "view_key v \<in> set (new_keys p ty)" by blast
    then have "card_of db (view_key v) = None" by (rule new_keys_facts(1) [OF ok p])
    then show ?thesis using * by (simp add: last_review_of_def)
  qed
  then show "view_expected v = last_review_of db (view_key v)" "load_item cdb (view_key v) = Some (view_item v)" by auto
qed

end

section \<open>The program's own environment\<close>

definition app_env ::
  "review_fun \<Rightarrow> tz \<Rightarrow> (card_key \<Rightarrow> instant option \<Rightarrow> nat) \<Rightarrow> ('r \<Rightarrow> nat \<Rightarrow> nat \<times> 'r) \<Rightarrow> 'r
     \<Rightarrow> (ustr \<Rightarrow> review_settings option) \<Rightarrow> 'r session_env" where
  "app_env review_card z rnk below rng decode =
     \<lparr>env_scheduler = create_scheduler_from_settings review_card, env_policy = create_new_card_policy, env_tz = z,
      env_rank = rnk, env_below = below, env_rng = rng, env_decode = decode\<rparr>"

interpretation app: study_session "app_env review_card z rnk below rng decode" "fsrs_documented review_card"
  for review_card z rnk below rng decode
  by (rule study_session.intro)
    (simp_all add: app_env_def chosen.card_policy_axioms create_scheduler_from_settings_eq fsrs.scheduling_axioms)

end
