(* ===== verification/Samples.thy ===== *)
theory Samples
  imports SessionLemmas
begin

text \<open>
  Concrete inputs for the witnesses: a content database with one kana, a review function for the
  scheduler library, an environment with the default settings, and a point in time.
\<close>

definition sample_review :: review_fun where
  "sample_review cfg c r t = c\<lparr>fc_state := FsrsReview, fc_due := t + DAY, fc_last_review := Some t\<rparr>"

definition sample_kana :: kana where
  "sample_kana = \<lparr>kana_item_id = lit ''kana:hira:a'', kana_script = HIRAGANA, kana_char = [0x3042],
     kana_romaji = lit ''a'', kana_kind = BASIC, kana_group = lit ''vowels''\<rparr>"

definition sample_content :: content_db where
  "sample_content = \<lparr>meta_rows = [(lit ''schema_version'', CONTENT_SCHEMA_VERSION)],
     kana_rows = [(kana_item_id sample_kana, script_value HIRAGANA, sample_kana)], kanji_rows = [], vocab_rows = []\<rparr>"

definition sample_key :: card_key where
  "sample_key = card (lit ''kana:hira:a'') GLYPH_TO_SOUND"

definition sample_env :: "unit session_env" where
  "sample_env = app_env sample_review UTC (\<lambda>_ _. 0) (\<lambda>r n. (0, r)) () (\<lambda>_. None)"

definition sample_ctx :: app_context where
  "sample_ctx = \<lparr>ctx_repo = Some \<lparr>repo_handle = 0, repo_file = Readable sample_content\<rparr>, next_handle = 1\<rparr>"

text \<open>Some time in 1997 and the day after.\<close>

definition T0 :: instant where
  "T0 = 63000000000000000"

definition sample_schedule :: card_schedule where
  "sample_schedule = \<lparr>sched_state = LEARNING, sched_step = Some 0, sched_stability = None, sched_difficulty = None,
     sched_due = T0 + DAY, sched_last_review = Some T0\<rparr>"

lemma sample_documented [simp]: "fsrs_documented sample_review"
  by (simp add: fsrs_documented_def sample_review_def DAY_def)

lemma sample_times [simp]: "stamp_ok T0" "stamp_ok (T0 + DAY)" "stamp_ok (2 * DAY + T0)"
  by (simp_all add: stamp_ok_def T0_def DAY_def days_before_year_def)

lemma sample_fit [simp]: "times_fit sample_env T0" "times_fit sample_env (T0 + DAY)"
  by (auto simp: times_fit_def sample_env_def app_env_def create_scheduler_from_settings_eq FSRSScheduler_def
      fsrs_review_def sample_review_def from_card_def)

lemma sample_schedule_ok [simp]: "schedule_ok sample_schedule"
  by (simp add: schedule_ok_def sample_schedule_def)

lemma sample_served:
  "\<exists>n v. next_card sample_env t sample_ctx None empty_db = (Inr n, Some 0) \<and> next_view n = Some v"
  by (simp add: next_card_def sample_ctx_def gate_repository_def schema_verified_def sample_content_def repo_db_def
   next_card_in_def Let_def sample_env_def app_env_def stored_settings_def load_settings_def get_setting_def empty_db_def
   make_plan_def study_day_window_def default_settings_def card_states_def decoded_def new_cards_introduced_def
    introduced_rows_def sum_by_type_def group_counts_def due_counts_def due_rows_def default_gate_def type_availability_eq
    item_types_def TYPE_ORDER_def select_new_def availability_of_def default_enabled_def allowance_for_def
    default_limits_def count_or_0_def create_new_card_policy_def strict_select_def catalog_entries_def
    candidates_def take_limited_def entry_keys_def due_view_def due_cards_def sql_limit_def ORPHAN_SCAN_def
    due_view_loop.simps new_view_def pick_new_def new_keys_def first_new_def min_by_def remaining_share_def
    fdiv_full load_item_def get_row_def sample_kana_def key_type_def OPEN_def
    create_scheduler_from_settings_eq make_view_def FSRSScheduler_def)

lemma sample_load [simp]: "load_item sample_content sample_key = Some (KanaItem sample_kana)"
  by (simp add: load_item_def sample_content_def sample_key_def key_type_def get_row_def sample_kana_def)

lemma last_review_empty [simp]: "last_review_of empty_db k = None"
  by (simp add: last_review_of_def card_of_def empty_db_def)

end
