(* ===== verification/SessionProperties.thy ===== *)
theory SessionProperties
  imports Samples
begin

text \<open>
  The properties of the review session and of the progress store it writes, stated for the
  environment the program builds (\<open>app_env\<close>: its scheduler and policy factories).
\<close>

lemma gate_repository_again: "gate_repository ctx v = (Inr repo, v') \<Longrightarrow> gate_repository ctx v' = (Inr repo, v')"
  by (auto simp: gate_repository_def split: option.splits if_splits)

lemma plan_total: "db_ok db \<Longrightarrow> \<exists>p. make_plan env now cdb (stored_settings decode db') db = Inr p"
  using make_plan_total settings_okD(5,6) [OF settings_always_ok] by blast

lemma next_cardE:
  assumes "next_card env now ctx verified db = (Inr n, verified')"
  obtains repo cdb where "gate_repository ctx verified = (Inr repo, verified')" "repo_db repo = Inr cdb"
    "next_card_in env now cdb db = Inr n"
  using assms by (auto simp: next_card_def and_then_Inr split: prod.splits sum.splits)

lemma answer_eq:
  assumes "gate_repository ctx verified = (Inr repo, verified')" "repo_db repo = Inr cdb"
  shows "answer env now ctx verified k g expected dur db =
    (case answer_in env now cdb k g expected dur db of (res, db') \<Rightarrow> (res, verified', db'))"
  using assms by (simp add: answer_def)

lemma app_decode [simp]: "env_decode (app_env rc z rnk below rng decode) = decode"
  by (simp add: app_env_def)

section \<open>Serving and answering\<close>

text \<open>C1: When a card was served and nothing else has been written since, answering it with the token it carries
  succeeds whatever the grade: the store stays consistent, the card's last review is the time of the answer, one
  entry is appended to the log and no other card changes.\<close>
theorem served_card_can_be_answered:
  assumes ok: "db_ok db" and now: "stamp_ok now" and doc: "fsrs_documented rc"
    and fit: "times_fit (app_env rc z rnk below rng decode) later"
    and served: "next_card (app_env rc z rnk below rng decode) now ctx verified db = (Inr n, verified')"
    and view: "next_view n = Some v"
  shows "\<exists>counts db'. answer (app_env rc z rnk below rng decode) later ctx verified' (view_key v) g (view_expected v) dur db
           = (Inr counts, verified', db')
         \<and> db_ok db' \<and> last_review_of db' (view_key v) = Some later
         \<and> (\<exists>l. log_rows db' = log_rows db @ [l]) \<and> (\<forall>j. j \<noteq> view_key v \<longrightarrow> card_of db' j = card_of db j)"
proof -
  let ?env = "app_env rc z rnk below rng decode"
  obtain repo cdb where gate: "gate_repository ctx verified = (Inr repo, verified')" "repo_db repo = Inr cdb"
    and next_in: "next_card_in ?env now cdb db = Inr n"
    using served by (rule next_cardE)
  note token = app.served_token [OF ok now next_in view]
  obtain db' where w: "write_answer ?env later cdb (view_key v) g (view_expected v) dur db = Inr db'"
    using app.write_answer_succeeds [OF ok doc] token by (metis option.distinct(1))
  note pres = app.write_answer_preserves [OF ok doc fit w]
  obtain p where "make_plan ?env later cdb (stored_settings decode db) db' = Inr p"
    using plan_total [OF pres(1)] by blast
  then have "answer_in ?env later cdb (view_key v) g (view_expected v) dur db = (Inr (plan_counts p), db')"
    using w by (simp add: answer_in_def)
  moreover have "\<exists>l. log_rows db' = log_rows db @ [l]"
    using app.write_answerE [OF ok doc fit w] record_review_log by metis
  ultimately show ?thesis
    using pres by (simp add: answer_eq [OF gate_repository_again [OF gate(1)] gate(2)])
qed

theorem served_card_can_be_answered_witness:
  "\<exists>n v counts db'. next_card sample_env T0 sample_ctx None empty_db = (Inr n, Some 0) \<and> next_view n = Some v
     \<and> answer sample_env (T0 + DAY) sample_ctx (Some 0) (view_key v) GOOD (view_expected v) None empty_db
        = (Inr counts, Some 0, db')"
proof -
  obtain n v where nv: "next_card sample_env T0 sample_ctx None empty_db = (Inr n, Some 0)" "next_view n = Some v"
    using sample_served by blast
  show ?thesis
    using served_card_can_be_answered [OF db_ok_empty sample_times(1) sample_documented
        sample_fit(2) [unfolded sample_env_def] nv(1) [unfolded sample_env_def] nv(2), of GOOD None] nv
    unfolding sample_env_def by blast
qed

text \<open>A token is good for one answer: once an answer has been stored, a second answer to the same card with the
  same token (a double submit, or a second tab) is refused as stale and changes nothing, whatever its grade.\<close>
theorem token_is_used_once:
  assumes ok: "db_ok db" and doc: "fsrs_documented rc" and fit: "times_fit (app_env rc z rnk below rng decode) now"
    and first: "answer (app_env rc z rnk below rng decode) now ctx verified k g token dur db = (Inr cnts, verified', db')"
    and moved: "token \<noteq> Some now"
  shows "answer (app_env rc z rnk below rng decode) later ctx verified' k g' token dur' db' = (Inl (SStale k), verified', db')"
proof -
  let ?env = "app_env rc z rnk below rng decode"
  obtain repo cdb where gate: "gate_repository ctx verified = (Inr repo, verified')" "repo_db repo = Inr cdb"
    and in1: "answer_in ?env now cdb k g token dur db = (Inr cnts, db')"
    using first by (auto simp: answer_def split: prod.splits sum.splits)
  have w: "write_answer ?env now cdb k g token dur db = Inr db'"
    using in1 by (auto simp: answer_in_def split: sum.splits)
  note pres = app.write_answer_preserves [OF ok doc fit w]
  have "load_item cdb k \<noteq> None" using app.write_answerE [OF ok doc fit w] by metis
  then have "write_answer ?env later cdb k g' token dur' db' = Inl (SStale k)"
    using pres(2) moved by (auto simp: app.write_answer_eq [OF pres(1)])
  then show ?thesis
    by (simp add: answer_eq [OF gate_repository_again [OF gate(1)] gate(2)] answer_in_def)
qed

theorem token_is_used_once_witness:
  "\<exists>counts db'. answer sample_env T0 sample_ctx None sample_key GOOD None None empty_db = (Inr counts, Some 0, db')
     \<and> answer sample_env (T0 + DAY) sample_ctx (Some 0) sample_key EASY None None db' = (Inl (SStale sample_key), Some 0, db')"
proof -
  have gate: "gate_repository sample_ctx None = (Inr \<lparr>repo_handle = 0, repo_file = Readable sample_content\<rparr>, Some 0)"
    by (simp add: gate_repository_def sample_ctx_def schema_verified_def sample_content_def)
  obtain db' where w: "write_answer sample_env T0 sample_content sample_key GOOD None None empty_db = Inr db'"
    using app.write_answer_succeeds [OF db_ok_empty sample_documented, of sample_content sample_key]
    unfolding sample_env_def by (metis last_review_empty option.distinct(1) sample_load)
  then have "db_ok db'"
    using app.write_answer_preserves(1) [OF db_ok_empty sample_documented sample_fit(1) [unfolded sample_env_def]]
    unfolding sample_env_def by blast
  then obtain p where "make_plan sample_env T0 sample_content (stored_settings (env_decode sample_env) empty_db) db' = Inr p"
    using plan_total by blast
  then have first: "answer sample_env T0 sample_ctx None sample_key GOOD None None empty_db = (Inr (plan_counts p), Some 0, db')"
    using w by (simp add: answer_eq [OF gate, of sample_content] repo_db_def answer_in_def)
  from token_is_used_once [OF db_ok_empty sample_documented sample_fit(1) [unfolded sample_env_def]
      first [unfolded sample_env_def]]
  show ?thesis using first unfolding sample_env_def by blast
qed

text \<open>What a result of \<open>next_card\<close> may be, given the due cards that were scanned and the plan.\<close>

definition good_offer ::
  "progress_db \<Rightarrow> content_db \<Rightarrow> review_settings \<Rightarrow> instant \<Rightarrow> stored_card list \<Rightarrow> session_plan \<Rightarrow> next_card_view \<Rightarrow> bool" where
  "good_offer db cdb s now due p n \<longleftrightarrow>
     (case next_view n of
       Some v \<Rightarrow> (\<exists>c \<in> set due. shows_card cdb c v)
         \<or> (\<forall>c \<in> set due. load_item cdb (stored_key c) = None) \<and> view_is_new v \<and> view_expected v = None
           \<and> card_of db (view_key v) = None \<and> load_item cdb (view_key v) = Some (view_item v)
           \<and> enabled_for_type (type_enabled s) (key_type (view_key v))
           \<and> (\<forall>ty. new_keys p ty \<noteq> [] \<longrightarrow> share_of p ty \<le> share_of p (key_type (view_key v)))
     | None \<Rightarrow> (\<forall>c \<in> set due. load_item cdb (stored_key c) = None) \<and> (\<forall>ty. new_keys p ty = [])
         \<and> next_due_after db now = Inr (next_due_at n))"



text \<open>C27: A daily limit is kept: with a limit set for a type, the new cards on offer are cards never studied before and
  are at most the limit less the cards of the type introduced in the current study day.\<close>
theorem daily_limit_kept:
  assumes ok: "db_ok db" and valid: "settings_ok s"
    and plan: "make_plan (app_env rc z rnk below rng decode) now cdb s db = Inr p"
    and limited: "0 < limit_for_type (new_limits s) ty"
  shows "int (length (new_keys p ty)) \<le>
           max 0 (limit_for_type (new_limits s) ty - introduced_today (app_env rc z rnk below rng decode) now s db ty)
       \<and> (\<forall>k \<in> set (new_keys p ty). card_of db k = None \<and> key_type k = ty)"
  using app.new_keys_within_allowance [OF ok plan settings_okD(5,6) [OF valid] limited] app.new_keys_facts [OF ok plan]
  by blast

theorem daily_limit_kept_witness:
  "\<exists>p. make_plan sample_env T0 sample_content default_settings empty_db = Inr p
     \<and> int (length (new_keys p KANA)) \<le> max 0 (20 - introduced_today sample_env T0 default_settings empty_db KANA)"
proof -
  obtain p where p: "make_plan sample_env T0 sample_content default_settings empty_db = Inr p"
    using make_plan_total [OF db_ok_empty] settings_okD(5,6) [OF default_settings_ok] by blast
  have lim: "limit_for_type (new_limits default_settings) KANA = 20"
    by (simp add: default_settings_def default_limits_def)
  from daily_limit_kept [OF db_ok_empty default_settings_ok p [unfolded sample_env_def], of KANA] p
  show ?thesis unfolding sample_env_def lim by auto
qed

section \<open>The progress store\<close>

text \<open>Every store that reviews and saved settings can lead to from an empty one is consistent: one row per card, its
  repetitions and lapses are those of its review log, its last review is the last entry of its log, exactly the first
  entry of a card is marked as new, and every value read back decodes.\<close>
theorem reached_stores_consistent:
  assumes "reached db"
  shows "db_ok db"
  using assms by (rule reached_db_ok)

theorem reached_stores_consistent_witness:
  "\<exists>db. record_review sample_key (new_schedule T0) sample_schedule GOOD (lit ''flip'') None empty_db = Inr db
      \<and> card_rows db \<noteq> [] \<and> db_ok db"
proof -
  obtain db where db: "record_review sample_key (new_schedule T0) sample_schedule GOOD (lit ''flip'') None empty_db = Inr db"
      "card_rows db \<noteq> []"
    by (simp add: record_review_new new_schedule_def sample_schedule_def empty_db_def)
  then show ?thesis
    using reached_stores_consistent [OF reached_review [OF reached_empty sample_schedule_ok db(1)]] by blast
qed

text \<open>C13: Recording a review refines the update of a map from cards to their schedules: the reviewed card gets the new
  schedule, one more repetition and, when a card in review was failed, one more lapse (a first review starts the counters);
  every other card is as before and one entry is appended to the log.\<close>
theorem record_review_refines_update:
  assumes ok: "db_ok db" and after: "schedule_ok a" and rec: "record_review k b a g mode dur db = Inr db'"
  shows "card_of db' = (card_of db)(k \<mapsto> reviewed_card b a g k (card_of db k))
       \<and> (\<exists>l. log_rows db' = log_rows db @ [l] \<and> log_key l = key_columns k)"
  using card_of_record [OF assms] record_review_log [OF rec] by blast

theorem record_review_refines_update_witness:
  "\<exists>db. record_review sample_key (new_schedule T0) sample_schedule AGAIN (lit ''flip'') None empty_db = Inr db
      \<and> card_of db sample_key =
          Some \<lparr>stored_key = sample_key, stored_schedule = sample_schedule, stored_reps = 1, stored_lapses = 0\<rparr>"
proof -
  obtain db where db: "record_review sample_key (new_schedule T0) sample_schedule AGAIN (lit ''flip'') None empty_db = Inr db"
    by (simp add: record_review_new new_schedule_def sample_schedule_def empty_db_def)
  have none: "card_of empty_db sample_key = None" by (simp add: card_of_def empty_db_def)
  show ?thesis
    using record_review_refines_update [OF db_ok_empty sample_schedule_ok db] db
    by (auto simp: reviewed_card_def none)
qed

text \<open>The write is a compare-and-set: after a review based on some state of a card was recorded, a second review based
  on the same state is refused as stale, as long as the first one moved the card's last review.\<close>
theorem stale_review_refused:
  assumes "db_ok db" and "schedule_ok a" and "record_review k b a g mode dur db = Inr db'"
    and "sched_state b \<noteq> NEW \<longrightarrow> sched_last_review a \<noteq> sched_last_review b"
    and "\<And>u. sched_last_review b = Some u \<Longrightarrow> stamp_ok u"
    and "sched_last_review a' \<noteq> None"
  shows "record_review k b a' g' mode' dur' db' = Inl (StaleRow k)"
  using assms by (rule record_twice)

theorem stale_review_refused_witness:
  "\<exists>db. record_review sample_key (new_schedule T0) sample_schedule GOOD (lit ''flip'') None empty_db = Inr db
      \<and> record_review sample_key (new_schedule T0) sample_schedule EASY (lit ''flip'') None db = Inl (StaleRow sample_key)"
proof -
  obtain db where db: "record_review sample_key (new_schedule T0) sample_schedule GOOD (lit ''flip'') None empty_db = Inr db"
    by (simp add: record_review_new new_schedule_def sample_schedule_def empty_db_def)
  have "sched_last_review sample_schedule \<noteq> None" "sched_state (new_schedule T0) = NEW"
    "\<And>u. sched_last_review (new_schedule T0) = Some u \<Longrightarrow> stamp_ok u"
    by (simp_all add: sample_schedule_def new_schedule_def)
  then show ?thesis
    using stale_review_refused [OF db_ok_empty sample_schedule_ok db] db by blast
qed

text \<open>C28: \<open>due_cards\<close> returns stored cards that are due, earliest first and at most the limit, and leaves out a due card
  only when the limit is reached and every returned card was due no later.\<close>
theorem due_cards_are_earliest:
  assumes "db_ok db" and "stamp_ok now" and "due_cards db now limit = Inr cs" and "0 \<le> limit"
  shows "sorted (map due_of cs) \<and> int (length cs) \<le> limit
     \<and> (\<forall>c \<in> set cs. card_of db (stored_key c) = Some c \<and> due_of c \<le> now)
     \<and> (\<forall>k c. card_of db k = Some c \<and> due_of c \<le> now \<and> c \<notin> set cs
           \<longrightarrow> int (length cs) = limit \<and> (\<forall>d \<in> set cs. due_of d \<le> due_of c))"
  using due_cards_correct [OF assms] by blast

theorem due_cards_are_earliest_witness:
  "\<exists>db c. record_review sample_key (new_schedule T0) sample_schedule GOOD (lit ''flip'') None empty_db = Inr db
      \<and> card_of db sample_key = Some c
      \<and> (\<exists>cs. due_cards db (T0 + DAY) 1 = Inr cs \<and> (c \<in> set cs \<or> int (length cs) = 1))"
proof -
  obtain db where db: "record_review sample_key (new_schedule T0) sample_schedule GOOD (lit ''flip'') None empty_db = Inr db"
    by (simp add: record_review_new new_schedule_def sample_schedule_def empty_db_def)
  note ok = record_review_preserves [OF db_ok_empty sample_schedule_ok db]
  obtain cs where cs: "due_cards db (T0 + DAY) 1 = Inr cs" using due_cards_eq [OF ok] by blast
  define c where "c = reviewed_card (new_schedule T0) sample_schedule GOOD sample_key (card_of empty_db sample_key)"
  have c: "card_of db sample_key = Some c" by (simp add: card_of_record [OF db_ok_empty sample_schedule_ok db] c_def)
  moreover have "due_of c \<le> T0 + DAY" by (simp add: c_def reviewed_card_def card_of_def empty_db_def sample_schedule_def)
  ultimately have "c \<in> set cs \<or> int (length cs) = 1"
    using due_cards_are_earliest [OF ok sample_times(2) cs] by auto
  then show ?thesis using db c cs by blast
qed

text \<open>Every studied card has exactly one log entry marked as a first review, and a card never studied has none, so
  over any division of time into study days a card counts against exactly one day's allowance.\<close>
theorem introduced_exactly_once:
  assumes "db_ok db"
  shows "length (filter (\<lambda>l. first_review l \<and> log_key l = key_columns k) (log_rows db))
       = (if card_of db k = None then 0 else 1)"
  using assms by (rule introduced_once)

theorem introduced_exactly_once_witness:
  "\<exists>db. record_review sample_key (new_schedule T0) sample_schedule GOOD (lit ''flip'') None empty_db = Inr db
      \<and> length (filter (\<lambda>l. first_review l \<and> log_key l = key_columns sample_key) (log_rows db)) = 1"
proof -
  obtain db where db: "record_review sample_key (new_schedule T0) sample_schedule GOOD (lit ''flip'') None empty_db = Inr db"
    by (simp add: record_review_new new_schedule_def sample_schedule_def empty_db_def)
  show ?thesis
    using introduced_exactly_once [OF record_review_preserves [OF db_ok_empty sample_schedule_ok db], of sample_key] db
      card_of_record [OF db_ok_empty sample_schedule_ok db] by simp
qed

text \<open>The settings last saved are the settings in force, whatever other rows of the settings table were written since;
  a stored document that does not decode to valid settings counts as the defaults, so the settings in force are always valid.\<close>
theorem saved_settings_in_force:
  assumes "decode (encode s) = Some s" and "settings_ok s" and "\<forall>(k, v) \<in> set others. k \<noteq> SETTINGS_KEY"
  shows "stored_settings decode (fold (\<lambda>(k, v). set_setting k v) others (save_settings encode s db)) = s
       \<and> settings_ok (stored_settings decode db')"
  unfolding stored_settings_def save_settings_def
  using app_settings.loaded_after_save [where decode = decode and encode = encode, OF assms] by simp

theorem saved_settings_in_force_witness:
  "stored_settings (\<lambda>_. Some default_settings)
     (fold (\<lambda>(k, v). set_setting k v) [(lit ''x'', lit ''1'')] (save_settings (\<lambda>_. lit ''doc'') default_settings empty_db))
     = default_settings"
  using saved_settings_in_force [of "\<lambda>_. Some default_settings" "\<lambda>_. lit ''doc''" default_settings
      "[(lit ''x'', lit ''1'')]" empty_db]
  by (simp add: SETTINGS_KEY_def)

end
