(* ===== verification/KanaSource.thy ===== *)
theory KanaSource
  imports AnswerKey
begin

text \<open>
  \<^verbatim>\<open>services/kana_source.py\<close>: the static kana tables and the study set built from them.  Characters
  are given by code point; the tables have the source's rows in the source's order.
\<close>

definition kana_table :: "(string \<times> (ustr \<times> string) list) list \<Rightarrow> (ustr \<times> (ustr \<times> ustr) list) list" where
  "kana_table t = map (\<lambda>(g, rows). (lit g, map (\<lambda>(c, r). (c, lit r)) rows)) t"

definition BASIC_TABLE :: "(ustr \<times> (ustr \<times> ustr) list) list" where
  "BASIC_TABLE = kana_table
     [(''vowels'', [([0x3042], ''a''), ([0x3044], ''i''), ([0x3046], ''u''), ([0x3048], ''e''), ([0x304A], ''o'')]),
      (''k'', [([0x304B], ''ka''), ([0x304D], ''ki''), ([0x304F], ''ku''), ([0x3051], ''ke''), ([0x3053], ''ko'')]),
      (''s'', [([0x3055], ''sa''), ([0x3057], ''shi''), ([0x3059], ''su''), ([0x305B], ''se''), ([0x305D], ''so'')]),
      (''t'', [([0x305F], ''ta''), ([0x3061], ''chi''), ([0x3064], ''tsu''), ([0x3066], ''te''), ([0x3068], ''to'')]),
      (''n'', [([0x306A], ''na''), ([0x306B], ''ni''), ([0x306C], ''nu''), ([0x306D], ''ne''), ([0x306E], ''no'')]),
      (''h'', [([0x306F], ''ha''), ([0x3072], ''hi''), ([0x3075], ''fu''), ([0x3078], ''he''), ([0x307B], ''ho'')]),
      (''m'', [([0x307E], ''ma''), ([0x307F], ''mi''), ([0x3080], ''mu''), ([0x3081], ''me''), ([0x3082], ''mo'')]),
      (''y'', [([0x3084], ''ya''), ([0x3086], ''yu''), ([0x3088], ''yo'')]),
      (''r'', [([0x3089], ''ra''), ([0x308A], ''ri''), ([0x308B], ''ru''), ([0x308C], ''re''), ([0x308D], ''ro'')]),
      (''w'', [([0x308F], ''wa''), ([0x3092], ''wo'')]),
      (''n-final'', [([0x3093], ''n'')])]"

definition DAKUTEN_TABLE :: "(ustr \<times> (ustr \<times> ustr) list) list" where
  "DAKUTEN_TABLE = kana_table
     [(''g'', [([0x304C], ''ga''), ([0x304E], ''gi''), ([0x3050], ''gu''), ([0x3052], ''ge''), ([0x3054], ''go'')]),
      (''z'', [([0x3056], ''za''), ([0x3058], ''ji''), ([0x305A], ''zu''), ([0x305C], ''ze''), ([0x305E], ''zo'')]),
      (''d'', [([0x3060], ''da''), ([0x3062], ''ji''), ([0x3065], ''zu''), ([0x3067], ''de''), ([0x3069], ''do'')]),
      (''b'', [([0x3070], ''ba''), ([0x3073], ''bi''), ([0x3076], ''bu''), ([0x3079], ''be''), ([0x307C], ''bo'')]),
      (''p'', [([0x3071], ''pa''), ([0x3074], ''pi''), ([0x3077], ''pu''), ([0x307A], ''pe''), ([0x307D], ''po'')])]"

definition SMALL_Y :: "ustr list" where
  "SMALL_Y = [[0x3083], [0x3085], [0x3087]]"

definition YOUON_TABLE :: "(ustr \<times> ustr list) list" where
  "YOUON_TABLE = map (\<lambda>(b, rs). (b, map lit rs))
     [([0x304D], [''kya'', ''kyu'', ''kyo'']),
      ([0x3057], [''sha'', ''shu'', ''sho'']),
      ([0x3061], [''cha'', ''chu'', ''cho'']),
      ([0x306B], [''nya'', ''nyu'', ''nyo'']),
      ([0x3072], [''hya'', ''hyu'', ''hyo'']),
      ([0x307F], [''mya'', ''myu'', ''myo'']),
      ([0x308A], [''rya'', ''ryu'', ''ryo'']),
      ([0x304E], [''gya'', ''gyu'', ''gyo'']),
      ([0x3058], [''ja'', ''ju'', ''jo'']),
      ([0x3073], [''bya'', ''byu'', ''byo'']),
      ([0x3074], [''pya'', ''pyu'', ''pyo''])]"

type_synonym kana_row = "ustr \<times> ustr \<times> ustr \<times> kana_kind"

definition table_entries :: "kana_kind \<Rightarrow> (ustr \<times> (ustr \<times> ustr) list) list \<Rightarrow> kana_row list" where
  "table_entries kind table =
     concat (map (\<lambda>(g, rows). map (\<lambda>(c, romaji). (c, romaji, g, kind)) rows) table)"

definition hiragana_entries :: "kana_row list" where
  "hiragana_entries =
     table_entries BASIC BASIC_TABLE @ table_entries DAKUTEN DAKUTEN_TABLE
     @ concat (map (\<lambda>(base, romaji_forms).
         map (\<lambda>(small, romaji). (base @ small, romaji, lit ''youon'', YOUON)) (zip SMALL_Y romaji_forms))
       YOUON_TABLE)"

definition to_katakana :: "ustr \<Rightarrow> ustr" where
  "to_katakana txt = map (\<lambda>c. if 0x3041 \<le> c \<and> c \<le> 0x3096 then c + 0x60 else c) txt"

definition kana_of_row :: "kana_script \<Rightarrow> (ustr \<Rightarrow> ustr) \<Rightarrow> kana_row \<Rightarrow> kana" where
  "kana_of_row script convert row =
     (case row of (ch, romaji, g, kind) \<Rightarrow>
        let glyph = convert ch in
        \<lparr>kana_item_id = kana_id script glyph, kana_script = script, kana_char = glyph,
         kana_romaji = romaji, kana_kind = kind, kana_group = g\<rparr>)"

definition all_kana :: "kana list" where
  "all_kana =
     map (kana_of_row HIRAGANA (\<lambda>t. t)) hiragana_entries
     @ map (kana_of_row KATAKANA to_katakana) hiragana_entries"

section \<open>The study set\<close>

lemmas kana_tables =
  table_entries_def kana_table_def BASIC_TABLE_def DAKUTEN_TABLE_def YOUON_TABLE_def SMALL_Y_def

lemma length_hiragana_entries: "length hiragana_entries = 104"
  by (simp add: hiragana_entries_def kana_tables)

lemma distinct_hiragana: "distinct (map fst hiragana_entries)"
  by (simp add: hiragana_entries_def kana_tables)

lemma hiragana_block: "\<forall>row \<in> set hiragana_entries. \<forall>c \<in> set (fst row). 0x3041 \<le> c \<and> c \<le> 0x3096"
  by (simp add: hiragana_entries_def kana_tables)

definition in_block :: "ustr \<Rightarrow> bool" where
  "in_block s \<longleftrightarrow> (\<forall>c \<in> set s. 0x3041 \<le> c \<and> c \<le> 0x3096)"

lemma to_katakana_block: "in_block s \<Longrightarrow> to_katakana s = map (\<lambda>c. c + 0x60) s"
  by (simp add: in_block_def to_katakana_def)

lemma to_katakana_inj: "in_block s \<Longrightarrow> in_block t \<Longrightarrow> to_katakana s = to_katakana t \<longleftrightarrow> s = t"
  by (simp add: to_katakana_block inj_map_eq_map inj_on_def)

lemma distinct_katakana: "distinct (map to_katakana (map fst hiragana_entries))"
proof -
  have "inj_on to_katakana (set (map fst hiragana_entries))"
    using hiragana_block by (intro inj_onI) (auto simp: in_block_def intro: to_katakana_inj [THEN iffD1, rotated 2])
  with distinct_hiragana show ?thesis by (simp only: distinct_map)
qed

lemma all_kana_ids:
  "map kana_item_id all_kana =
     map (kana_id HIRAGANA) (map fst hiragana_entries)
     @ map (kana_id KATAKANA) (map to_katakana (map fst hiragana_entries))"
  by (simp add: all_kana_def kana_of_row_def case_prod_beta Let_def comp_def)

lemma distinct_all_kana_ids: "distinct (map kana_item_id all_kana)"
proof -
  have "distinct (map (kana_id sc) cs) \<longleftrightarrow> distinct cs" for sc cs
    by (simp add: distinct_map inj_on_def)
  moreover have "set (map (kana_id HIRAGANA) cs) \<inter> set (map (kana_id KATAKANA) ds) = {}" for cs ds
    by auto
  ultimately show ?thesis
    unfolding all_kana_ids distinct_append using distinct_hiragana distinct_katakana by blast
qed

end
