(* ===== verification/CoreProperties.thy ===== *)
theory CoreProperties
  imports StudyDay Timestamps Availability KanaSource Distractors
begin

text \<open>
  The properties of the components below the review session: study days, timestamps, content,
  the content database and its gate, policies, availability, answers and distractors.
\<close>

section \<open>Study days\<close>

text \<open>C26: In an ordinary zone the study day of an instant contains it, and it is the study day of every instant in it: the
  study days tile the time line whatever changes of offset the zone has.\<close>
theorem study_days_tile:
  assumes "rollover_ok r z" and "study_day_window (Aware t) r z = Inr (start, stop)"
  shows "start \<le> t \<and> t < stop
     \<and> (\<forall>u. study_day_window (Aware u) r z = Inr (start, stop) \<longleftrightarrow> start \<le> u \<and> u < stop)"
proof -
  have hour: "0 \<le> r" "r \<le> 23" using assms(1) by (simp_all add: rollover_ok_def)
  define k where "k = study_index r z t"
  have w: "start = day_start r z k" "stop = day_start r z (k + 1)"
    using assms(2) study_day_window_eq [OF hour, of t z] by (simp_all add: k_def)
  have inside: "start \<le> u \<and> u < stop \<longleftrightarrow> study_index r z u = k" for u
    unfolding w by (rule in_window_iff [OF assms(1)])
  have "study_day_window (Aware u) r z = Inr (start, stop) \<longleftrightarrow> study_index r z u = k" for u
  proof
    assume "study_day_window (Aware u) r z = Inr (start, stop)"
    then have same: "day_start r z (study_index r z u) = start" "day_start r z (study_index r z u + 1) = stop"
      using study_day_window_eq [OF hour, of u z] by simp_all
    have "start \<le> t \<and> t < stop" using inside k_def by simp
    then show "study_index r z u = k" using in_window_iff [OF assms(1), of "study_index r z u" t] same k_def by simp
  next
    assume "study_index r z u = k"
    then show "study_day_window (Aware u) r z = Inr (start, stop)"
      using study_day_window_eq [OF hour, of u z] w by simp
  qed
  then show ?thesis using inside k_def by simp
qed

theorem study_days_tile_witness:
  "rollover_ok 4 UTC \<and> study_day_window (Aware (3 * HOUR + DAY)) 4 UTC = Inr (4 * HOUR, 4 * HOUR + DAY)
     \<and> 4 * HOUR \<le> 3 * HOUR + DAY"
proof -
  have ok: "rollover_ok 4 UTC" by (rule rollover_ok_UTC) simp_all
  have w: "study_day_window (Aware (3 * HOUR + DAY)) 4 UTC = Inr (4 * HOUR, 4 * HOUR + DAY)"
    by (simp add: study_day_window_def Let_def time_units)
  show ?thesis using study_days_tile [OF ok w] ok w by blast
qed

text \<open>When moreover no rollover is skipped by a change of offset, two instants have the same study date exactly when they
  lie in the same study day.\<close>
theorem study_date_names_the_day:
  assumes "rollover_ok r z" and "daily_shown z (r * HOUR)"
  shows "study_date (Aware t) r z = study_date (Aware u) r z
     \<longleftrightarrow> study_day_window (Aware t) r z = study_day_window (Aware u) r z"
proof -
  have hour: "0 \<le> r" "r \<le> 23" using assms(1) by (simp_all add: rollover_ok_def)
  have "day_start r z (study_index r z t) = day_start r z (study_index r z u) \<longleftrightarrow> study_index r z t = study_index r z u"
    by (metis study_index_day_start [OF assms])
  then show ?thesis
    using study_date_index [OF assms] study_day_window_eq [OF hour] by auto
qed

theorem study_date_names_the_day_witness:
  "study_date (Aware (3 * HOUR + DAY)) 4 UTC = study_date (Aware (5 * HOUR)) 4 UTC"
proof -
  have "study_day_window (Aware (3 * HOUR + DAY)) 4 UTC = study_day_window (Aware (5 * HOUR)) 4 UTC"
    by (simp add: study_day_window_def Let_def time_units)
  then show ?thesis
    using study_date_names_the_day [OF rollover_ok_UTC [of 4] UTC_ordinary(3)] by simp
qed

text \<open>A zone that moves its clocks from 00:01 to 01:01, as America/St_Johns did from 1987 to 2011, and one that moves
  them from 23:00 to 24:00, as America/Nuuk does.\<close>

definition gap_after_midnight :: tz where
  "gap_after_midnight = Tz (- (3 * HOUR + HOUR div 2)) [(100 * DAY + 3 * HOUR + 31 * 60 * SECOND, - (2 * HOUR + HOUR div 2))]"

definition gap_before_midnight :: tz where
  "gap_before_midnight = Tz (- (2 * HOUR)) [(100 * DAY + HOUR, - HOUR)]"

text \<open>With a rollover at 01:00 strictly inside such a change, the window of an instant just after the change starts later
  than the instant: it does not contain "now".\<close>
theorem window_can_miss_now:
  "\<exists>t start stop. study_day_window (Aware t) 1 gap_after_midnight = Inr (start, stop) \<and> t < start"
  by (rule exI [of _ "100 * DAY + 3 * HOUR + 33 * 60 * SECOND"])
    (simp add: study_day_window_def gap_after_midnight_def Let_def time_units)

text \<open>When the skipped hour ends at midnight and the rollover is its start, two study days that follow each other have the
  same date, and the date of the first one is never shown.\<close>
theorem study_date_can_repeat:
  "\<exists>t u. study_day_window (Aware t) 23 gap_before_midnight \<noteq> study_day_window (Aware u) 23 gap_before_midnight
     \<and> study_date (Aware t) 23 gap_before_midnight = study_date (Aware u) 23 gap_before_midnight"
  by (rule exI [of _ "100 * DAY + 3 * HOUR"], rule exI [of _ "101 * DAY + 3 * HOUR"])
    (simp add: study_date_def study_day_window_def gap_before_midnight_def Let_def time_units)

section \<open>Timestamps\<close>

text \<open>C33: The stored strings compare as the instants do and read back as the instant they were written from, for the years
  with four digits; so the string comparisons in the queries are comparisons of times.\<close>
theorem timestamps_faithful:
  assumes "stamp_ok t" and "stamp_ok u"
  shows "(stamp t \<le> stamp u \<longleftrightarrow> t \<le> u) \<and> (stamp t < stamp u \<longleftrightarrow> t < u)
     \<and> Option.bind (format_timestamp (Aware t)) parse_timestamp = Some t"
  using stamp_le_iff [OF assms] stamp_less_iff [OF assms] format_parse [OF assms(1)] by blast

theorem timestamps_faithful_witness:
  "stamp 63000000000000000 < stamp (63000000000000000 + 1)
   \<and> Option.bind (format_timestamp (Aware 63000000000000000)) parse_timestamp = Some 63000000000000000"
proof -
  have "stamp_ok 63000000000000000" "stamp_ok (63000000000000000 + 1)"
    by (simp_all add: stamp_ok_def DAY_def days_before_year_def)
  from timestamps_faithful [OF this] show ?thesis by simp
qed

section \<open>Content\<close>

text \<open>A kanji has a derived level exactly when a word of the deck uses it, and it is the easiest level among those words;
  only kanji get levels and none twice.\<close>
theorem kanji_level_is_easiest:
  "map_of (derive_kanji_levels vs) ch = (if levels_using vs ch = {} then None else Some (Max (levels_using vs ch)))
   \<and> distinct (map fst (derive_kanji_levels vs)) \<and> (\<forall>c \<in> fst ` set (derive_kanji_levels vs). is_kanji c)"
  using derive_kanji_levels_lookup derive_kanji_levels_distinct derive_kanji_levels_kanji by blast

theorem kanji_level_is_easiest_witness:
  "map_of (derive_kanji_levels []) [0x4E00] = None"
  using kanji_level_is_easiest [of "[]" "[0x4E00]"] by (simp add: levels_using_def)

text \<open>The kana study set is 104 hiragana and the same 104 in katakana, every one under its own id.\<close>
theorem kana_set_complete:
  "distinct (map kana_item_id all_kana) \<and> length (filter (\<lambda>k. kana_script k = HIRAGANA) all_kana) = 104
   \<and> length (filter (\<lambda>k. kana_script k = KATAKANA) all_kana) = 104"
proof -
  have split: "filter (\<lambda>k. kana_script k = sc) all_kana
      = (if sc = HIRAGANA then map (kana_of_row HIRAGANA (\<lambda>t. t)) hiragana_entries
         else map (kana_of_row KATAKANA to_katakana) hiragana_entries)" for sc
    by (cases sc) (simp_all add: all_kana_def filter_map comp_def kana_of_row_def case_prod_beta Let_def)
  show ?thesis unfolding split using distinct_all_kana_ids by (simp add: length_hiragana_entries)
qed

text \<open>There are katakana with one romaji, as their hiragana counterparts, of which the card of the one does not accept the other:
  the table of homophones holds the hiragana pairs only.\<close>
theorem katakana_homophones_missing:
  "table_get HOMOPHONE_KANA [0x3058] = [[0x3062]]
   \<and> (\<exists>a b. a \<in> set all_kana \<and> b \<in> set all_kana \<and> kana_script a = KATAKANA \<and> kana_script b = KATAKANA
        \<and> kana_char a = to_katakana [0x3058] \<and> kana_char b = to_katakana [0x3062] \<and> kana_romaji a = kana_romaji b
        \<and> kana_char b \<notin> set (accepted_answers_for SOUND_TO_GLYPH (KanaItem a)))"
proof
  show "table_get HOMOPHONE_KANA [0x3058] = [[0x3062]]"
    by (simp add: table_get_def HOMOPHONE_KANA_def)
  define row where "row c = (c, lit ''ji'', if c = [0x3058] then lit ''z'' else lit ''d'', DAKUTEN)" for c :: ustr
  have mem: "row [0x3058] \<in> set hiragana_entries" "row [0x3062] \<in> set hiragana_entries"
    by (simp_all add: row_def hiragana_entries_def kana_tables)
  define a where "a = kana_of_row KATAKANA to_katakana (row [0x3058])"
  define b where "b = kana_of_row KATAKANA to_katakana (row [0x3062])"
  have "a \<in> set all_kana" "b \<in> set all_kana"
    using mem by (auto simp: all_kana_def a_def b_def)
  moreover have "kana_script a = KATAKANA" "kana_script b = KATAKANA" "kana_char a = to_katakana [0x3058]"
      "kana_char b = to_katakana [0x3062]" "kana_romaji a = kana_romaji b"
    by (simp_all add: a_def b_def kana_of_row_def row_def Let_def)
  moreover have "kana_char b \<notin> set (accepted_answers_for SOUND_TO_GLYPH (KanaItem a))"
    by (simp add: a_def b_def kana_of_row_def row_def to_katakana_def Let_def kana_answers_def table_get_def HOMOPHONE_KANA_def)
  ultimately show "\<exists>a b. a \<in> set all_kana \<and> b \<in> set all_kana \<and> kana_script a = KATAKANA \<and> kana_script b = KATAKANA
        \<and> kana_char a = to_katakana [0x3058] \<and> kana_char b = to_katakana [0x3062] \<and> kana_romaji a = kana_romaji b
        \<and> kana_char b \<notin> set (accepted_answers_for SOUND_TO_GLYPH (KanaItem a))" by blast
qed

section \<open>The content database\<close>

definition content_valid :: "kana list \<Rightarrow> kanji list \<Rightarrow> vocab list \<Rightarrow> (ustr \<times> ustr) list \<Rightarrow> bool" where
  "content_valid kanas kanjis vocabs meta \<longleftrightarrow>
     distinct (map fst meta) \<and> distinct (map kana_item_id kanas) \<and> distinct (map kanji_item_id kanjis)
     \<and> distinct (map vocab_item_id vocabs)"


lemma get_row_of_map:
  "distinct (map key xs) \<Longrightarrow> get_row (map (\<lambda>x. (key x, c x, x)) xs) i = find (\<lambda>x. key x = i) xs"
  by (induction xs) (auto simp: get_row_def)

lemma find_distinct: "distinct (map key xs) \<Longrightarrow> find (\<lambda>x. key x = i) xs = Some y \<longleftrightarrow> y \<in> set xs \<and> key y = i"
  by (induction xs) (auto simp: image_iff)



text \<open>The operations on the gate: a refresh finds a file or none, a request asks for the repository.\<close>

datatype gate_op = Refresh "content_file option" | Request

fun gate_step :: "gate_op \<Rightarrow> app_context \<times> nat option \<Rightarrow> app_context \<times> nat option" where
  "gate_step (Refresh found) (ctx, verified) = (refresh_content_repo found ctx, verified)"
| "gate_step Request (ctx, verified) = (ctx, snd (gate_repository ctx verified))"

definition gate_sound :: "app_context \<times> nat option \<Rightarrow> bool" where
  "gate_sound s \<longleftrightarrow> (case s of (ctx, verified) \<Rightarrow>
     (\<forall>h. verified = Some h \<longrightarrow> h < next_handle ctx)
     \<and> (\<forall>repo. ctx_repo ctx = Some repo \<longrightarrow> repo_handle repo < next_handle ctx
          \<and> (verified = Some (repo_handle repo) \<longrightarrow> verify_file (repo_file repo) = None)))"

lemma gate_sound_step:
  assumes "gate_sound s"
  shows "gate_sound (gate_step op s)"
proof (cases op)
  case (Refresh found)
  then show ?thesis using assms
    by (cases s; cases found) (auto simp: gate_sound_def refresh_content_repo_def)
next
  case Request
  then show ?thesis using assms
    by (cases s) (auto simp: gate_sound_def gate_repository_def split: option.splits)
qed

text \<open>Whatever refreshes and requests came before, the gate hands out a repository only when its file was found readable and
  with the schema version of this program, although it verifies each repository only once.\<close>
theorem gate_hands_out_verified:
  assumes "gate_repository ctx verified = (Inr repo, verified')"
    and "fold gate_step ops (\<lparr>ctx_repo = None, next_handle = 0\<rparr>, None) = (ctx, verified)"
  shows "\<exists>db. repo_file repo = Readable db \<and> schema_verified db"
proof -
  have start: "gate_sound (\<lparr>ctx_repo = None, next_handle = 0\<rparr>, None)" by (simp add: gate_sound_def)
  have "gate_sound (fold gate_step ops s)" if "gate_sound s" for s
    using that
  proof (induction ops arbitrary: s)
    case (Cons op ops)
    then show ?case using gate_sound_step [OF Cons.prems, of op] by simp
  qed simp
  then have "gate_sound (ctx, verified)" using start assms(2) by metis
  then have "verify_file (repo_file repo) = None"
    using assms(1) by (auto simp: gate_sound_def gate_repository_def split: option.splits if_splits)
  then show ?thesis by (cases "repo_file repo") (auto split: if_splits)
qed

theorem gate_hands_out_verified_witness:
  "\<exists>repo. gate_repository \<lparr>ctx_repo = Some \<lparr>repo_handle = 0, repo_file = Readable \<lparr>meta_rows =
        [(lit ''schema_version'', CONTENT_SCHEMA_VERSION)], kana_rows = [], kanji_rows = [], vocab_rows = []\<rparr>\<rparr>,
        next_handle = 1\<rparr> None = (Inr repo, Some 0)
     \<and> (\<exists>db. repo_file repo = Readable db \<and> schema_verified db)"
proof -
  let ?db = "\<lparr>meta_rows = [(lit ''schema_version'', CONTENT_SCHEMA_VERSION)], kana_rows = [], kanji_rows = [], vocab_rows = []\<rparr>"
  let ?ctx = "\<lparr>ctx_repo = Some \<lparr>repo_handle = 0, repo_file = Readable ?db\<rparr>, next_handle = 1\<rparr>"
  have g: "gate_repository ?ctx None = (Inr \<lparr>repo_handle = 0, repo_file = Readable ?db\<rparr>, Some 0)"
    by (simp add: gate_repository_def schema_verified_def)
  have "fold gate_step [Refresh (Some (Readable ?db))] (\<lparr>ctx_repo = None, next_handle = 0\<rparr>, None) = (?ctx, None)"
    by (simp add: refresh_content_repo_def)
  from gate_hands_out_verified [OF g this] g show ?thesis by blast
qed

section \<open>New cards\<close>

text \<open>C31: Under mastery unlock the new cards are exactly the unintroduced cards of kana and of the levels all of whose easier levels
  have the threshold share of their cards in review; so the levels open from the easiest on.\<close>
theorem mastery_unlocks_in_order:
  "k \<in> set (mastery_select threshold ty cat sts None) \<longleftrightarrow>
     map_of sts k = None \<and> key_type k = ty
     \<and> (\<exists>e \<in> set cat. key_item_id k = entry_item_id e
          \<and> (\<forall>l. entry_level e = Some l \<longrightarrow> (\<forall>m. l < m \<longrightarrow> level_mastered threshold ty cat sts m)))"
  by (auto simp: mastery_select_def take_limited_def set_candidates in_entry_keys level_in_def unlocked_levels_iff
      split: option.splits)

theorem mastery_unlocks_in_order_witness:
  "card (lit ''x'') KANJI_TO_MEANING \<in> set (mastery_select 1 KANJI
     [\<lparr>entry_item_id = lit ''x'', entry_type = KANJI, entry_level = Some N5, entry_position = 0\<rparr>] [] None)"
proof -
  have "\<not> N5 < m" for m by (cases m) (simp_all add: less_jlpt_level_def)
  then show ?thesis unfolding mastery_unlocks_in_order by (simp add: key_type_def)
qed

text \<open>Whichever policy the settings choose, it offers only cards never reviewed, of the asked type and from the catalogue, none
  twice, in study order (levels from the easiest, then catalogue order), and a limit takes a prefix of what it offers without one.\<close>
theorem policies_keep_contract:
  assumes "distinct (map entry_item_id cat)"
  shows "(\<forall>k \<in> set (create_new_card_policy s ty cat sts limit). map_of sts k = None \<and> key_type k = ty
            \<and> (\<exists>e \<in> set cat. key_item_id k = entry_item_id e))
     \<and> distinct (create_new_card_policy s ty cat sts limit)
     \<and> create_new_card_policy s ty cat sts (Some n) = take (nat n) (create_new_card_policy s ty cat sts None)
     \<and> (\<exists>es. map entry_item_id es = map key_item_id (create_new_card_policy s ty cat sts limit)
          \<and> sorted (map study_position es) \<and> set es \<subseteq> set cat)"
  using chosen.select_new [of _ s ty cat sts limit] chosen.select_catalog [of _ s ty cat sts limit]
  by (intro conjI ballI chosen.select_distinct [OF assms] chosen.select_limit chosen.select_order) blast+

theorem policies_keep_contract_witness:
  "distinct (create_new_card_policy default_settings KANA
     [\<lparr>entry_item_id = lit ''x'', entry_type = KANA, entry_level = None, entry_position = 0\<rparr>] [] None)"
  using policies_keep_contract [of "[\<lparr>entry_item_id = lit ''x'', entry_type = KANA, entry_level = None, entry_position = 0\<rparr>]"
      default_settings KANA "[]" None 0] by simp

text \<open>A type gets new cards exactly when it is enabled and, if the kana gate guards it, the share of kana cards in review has
  reached the threshold; an open gate stays open while cards in review stay there, and is open when all kana are.\<close>
theorem kana_gate_opens:
  assumes "\<And>k. map_of sts k = Some REVIEW \<Longrightarrow> map_of sts' k = Some REVIEW"
    and "allowed (the (map_of (type_availability s es sts) ty))"
  shows "allowed (the (map_of (type_availability s es sts') ty))
     \<and> enabled_for_type (type_enabled s) ty
     \<and> (gates (kana_gate s) ty \<longrightarrow> (\<forall>v. kana_share es sts = Some v \<longrightarrow> gate_threshold (kana_gate s) \<le> v))"
proof -
  have now: "enabled_for_type (type_enabled s) ty"
    "gates (kana_gate s) ty \<longrightarrow> (\<forall>v. kana_share es sts = Some v \<longrightarrow> gate_threshold (kana_gate s) \<le> v)"
    using assms(2) by (simp_all add: allowed_iff)
  have "gate_threshold (kana_gate s) \<le> v'" if g: "gates (kana_gate s) ty" and v': "kana_share es sts' = Some v'" for v'
  proof -
    obtain v where v: "kana_share es sts = Some v" using v' by (cases "es = []") (auto simp: kana_share_eq)
    then have "v \<le> v'" using kana_share_mono [OF assms(1) _ v'] by blast
    then show ?thesis using now(2) g v by force
  qed
  then show ?thesis using now by (simp add: allowed_iff)
qed

theorem kana_gate_opens_witness:
  "allowed (the (map_of (type_availability default_settings [] []) KANJI))"
proof -
  have "allowed (the (map_of (type_availability default_settings [] []) KANJI))"
    by (simp add: allowed_iff default_settings_def default_enabled_def default_gate_def)
  from kana_gate_opens [of "[]" "[]", OF _ this] show ?thesis by blast
qed

section \<open>Multiple choice\<close>

text \<open>C32: The options of a multiple-choice card are, in some order, the card's first accepted answer and at most three others, all
  different, each the first answer of another item of the type and script; there are fewer than three others only when every
  different answer such an item has is among the options.\<close>
theorem choices_are_sound:
  assumes "draws_below below" and "choices_for below k it s db r = Some cs"
  shows "\<exists>ds. mset cs = mset (hd (accepted_answers_for (key_direction k) it) # ds)
     \<and> distinct (hd (accepted_answers_for (key_direction k) it) # ds) \<and> length ds \<le> WANTED \<and> set ds \<subseteq> offerable db k it
     \<and> (length ds < WANTED \<longrightarrow> offerable db k it \<subseteq> insert (hd (accepted_answers_for (key_direction k) it)) (set ds))"
  using choices_for_spec [OF assms] by blast

text \<open>Two hiragana with one sound, as the kana study set has them.\<close>

definition hira_ji :: "nat \<Rightarrow> kana" where
  "hira_ji c = kana_of_row HIRAGANA (\<lambda>t. t) ([c], lit ''ji'', lit ''z'', DAKUTEN)"

definition ji_content :: content_db where
  "ji_content = \<lparr>meta_rows = [], kana_rows = map (\<lambda>k. (kana_item_id k, lit ''hira'', k)) [hira_ji 0x3058, hira_ji 0x3062],
     kanji_rows = [], vocab_rows = []\<rparr>"

definition ji_key :: card_key where
  "ji_key = card (kana_item_id (hira_ji 0x3058)) SOUND_TO_GLYPH"

definition first_draw :: "unit \<Rightarrow> nat \<Rightarrow> nat \<times> unit" where
  "first_draw r n = (0, r)"

lemma ji_choices:
  "choices_for first_draw ji_key (KanaItem (hira_ji 0x3058)) default_settings ji_content () = Some [[0x3062], [0x3058]]"
  by (simp add: choices_for_def ji_key_def hira_ji_def kana_of_row_def Let_def kana_answers_def table_get_def
      HOMOPHONE_KANA_def catalog_entries_def ji_content_def key_type_def ranked_pool_def same_level_band_def
      active_band_def rest_band_def is_active_def item_level_def item_script_def shuffle_list_def first_draw_def
      swap_at_def offered_def get_row_def WANTED_def kana_id_def lit_def)

theorem choices_are_sound_witness:
  "\<exists>ds. mset [[0x3062], [0x3058]] = mset (hd (accepted_answers_for SOUND_TO_GLYPH (KanaItem (hira_ji 0x3058))) # ds)
     \<and> length ds \<le> WANTED"
proof -
  have "draws_below first_draw" by (simp add: draws_below_def first_draw_def)
  from choices_are_sound [OF this ji_choices] show ?thesis by (auto simp: ji_key_def)
qed

text \<open>A distractor can be a right answer: a card can offer two glyphs of one sound, both of which are accepted answers of the card.\<close>
theorem distractor_can_be_accepted:
  "\<exists>below k it db cs. choices_for below k it default_settings db () = Some cs
     \<and> distinct cs \<and> length cs = 2 \<and> set cs \<subseteq> set (accepted_answers_for (key_direction k) it)"
  by (rule exI [of _ first_draw], rule exI [of _ ji_key], rule exI [of _ "KanaItem (hira_ji 0x3058)"],
      rule exI [of _ ji_content], rule exI [of _ "[[0x3062], [0x3058]]"])
    (simp add: ji_choices, simp add: ji_key_def hira_ji_def kana_of_row_def Let_def kana_answers_def table_get_def
      HOMOPHONE_KANA_def)

end
