(* ===== verification/Auth.thy ===== *)
theory Auth
  imports Timestamps
begin

text \<open>
  \<^verbatim>\<open>services/auth.py\<close>, \<^verbatim>\<open>services/session_revocations.py\<close> and \<^verbatim>\<open>db/revoked_session_store.py\<close>: tokens of
  login sessions and their revocation.  PyJWT, the password hasher and the random ids are parameters.
  The protocol \<^verbatim>\<open>SessionRevocations\<close> is the locale \<open>session_revocations\<close>, interpreted on both of its
  implementations; the durable one also keeps its laws over a restart.
\<close>

section \<open>Settings and tokens\<close>

record auth_settings =
  auth_username :: ustr
  password_hash :: ustr
  jwt_secret :: ustr
  access_ttl_minutes :: int
  refresh_ttl_days :: int

datatype token_type = Access | Refresh

fun typ_value :: "token_type \<Rightarrow> ustr" where
  "typ_value Access = lit ''access''"
| "typ_value Refresh = lit ''refresh''"

record claims =
  cl_sub :: ustr
  cl_sid :: ustr
  cl_typ :: ustr
  cl_iat :: instant
  cl_exp :: instant
  cl_jti :: ustr

text \<open>
  PyJWT: \<open>jwt_decode\<close> takes the token, the secret and the time, and gives \<open>None\<close> for every
  \<^verbatim>\<open>InvalidTokenError\<close> (a bad signature, an expired token, a missing claim).
\<close>

record 'tok jwt =
  jwt_encode :: "claims \<Rightarrow> ustr \<Rightarrow> 'tok"
  jwt_decode :: "'tok \<Rightarrow> ustr \<Rightarrow> instant \<Rightarrow> claims option"

record 'tok token_pair =
  access_token :: 'tok
  refresh_token :: 'tok
  expires_in :: int
  token_kind :: ustr

record session_claims =
  sc_username :: ustr
  sc_sid :: ustr

datatype auth_error = InvalidToken | WrongTypeOrSubject | SessionRevoked

definition MINUTE :: int where
  "MINUTE = 60 * SECOND"

definition access_ttl :: "auth_settings \<Rightarrow> int" where
  "access_ttl cfg = access_ttl_minutes cfg * MINUTE"

definition refresh_ttl :: "auth_settings \<Rightarrow> int" where
  "refresh_ttl cfg = refresh_ttl_days cfg * DAY"

text \<open>\<open>verify\<close> is the hasher: \<open>None\<close> for an unknown hash format.\<close>

definition verify_credentials ::
  "(ustr \<Rightarrow> ustr \<Rightarrow> bool option) \<Rightarrow> auth_settings \<Rightarrow> ustr \<Rightarrow> ustr \<Rightarrow> ustr \<Rightarrow> bool" where
  "verify_credentials verify cfg dummy_hash username password =
     (let user_ok = (username = auth_username cfg);
          candidate = (if user_ok then password_hash cfg else dummy_hash);
          password_ok = (case verify password candidate of None \<Rightarrow> False | Some b \<Rightarrow> b)
      in user_ok \<and> password_ok)"

definition token_claims :: "instant \<Rightarrow> ustr \<Rightarrow> ustr \<Rightarrow> token_type \<Rightarrow> int \<Rightarrow> ustr \<Rightarrow> claims" where
  "token_claims now username sid typ lifetime jti =
     \<lparr>cl_sub = username, cl_sid = sid, cl_typ = typ_value typ, cl_iat = now, cl_exp = now + lifetime, cl_jti = jti\<rparr>"

text \<open>The random ids of one call: a session id for a new login and one for each token.\<close>

record fresh_ids =
  fresh_sid :: ustr
  fresh_access :: ustr
  fresh_refresh :: ustr

definition pair_claims :: "auth_settings \<Rightarrow> instant \<Rightarrow> fresh_ids \<Rightarrow> ustr \<Rightarrow> ustr option \<Rightarrow> claims \<times> claims" where
  "pair_claims cfg now ids username sid =
     (let session_id = (case sid of None \<Rightarrow> fresh_sid ids | Some s \<Rightarrow> if s = [] then fresh_sid ids else s)
      in (token_claims now username session_id Access (access_ttl cfg) (fresh_access ids),
          token_claims now username session_id Refresh (refresh_ttl cfg) (fresh_refresh ids)))"

definition issue_tokens ::
  "'tok jwt \<Rightarrow> auth_settings \<Rightarrow> instant \<Rightarrow> fresh_ids \<Rightarrow> ustr \<Rightarrow> ustr option \<Rightarrow> 'tok token_pair" where
  "issue_tokens jwt cfg now ids username sid =
     (case pair_claims cfg now ids username sid of (a, r) \<Rightarrow>
        \<lparr>access_token = jwt_encode jwt a (jwt_secret cfg), refresh_token = jwt_encode jwt r (jwt_secret cfg),
         expires_in = access_ttl cfg div SECOND, token_kind = lit ''bearer''\<rparr>)"

definition decode_token ::
  "'tok jwt \<Rightarrow> auth_settings \<Rightarrow> (ustr \<Rightarrow> bool) \<Rightarrow> instant \<Rightarrow> 'tok \<Rightarrow> token_type \<Rightarrow> auth_error + session_claims" where
  "decode_token jwt cfg is_revoked now tok expected =
     (case jwt_decode jwt tok (jwt_secret cfg) now of
        None \<Rightarrow> Inl InvalidToken
      | Some c \<Rightarrow>
          if cl_typ c \<noteq> typ_value expected \<or> cl_sub c \<noteq> auth_username cfg then Inl WrongTypeOrSubject
          else if is_revoked (cl_sid c) then Inl SessionRevoked
          else Inr \<lparr>sc_username = cl_sub c, sc_sid = cl_sid c\<rparr>)"

definition authenticate_session ::
  "'tok jwt \<Rightarrow> auth_settings \<Rightarrow> (ustr \<Rightarrow> bool) \<Rightarrow> instant \<Rightarrow> 'tok \<Rightarrow> auth_error + session_claims" where
  "authenticate_session jwt cfg is_revoked now tok = decode_token jwt cfg is_revoked now tok Access"

definition authenticate ::
  "'tok jwt \<Rightarrow> auth_settings \<Rightarrow> (ustr \<Rightarrow> bool) \<Rightarrow> instant \<Rightarrow> 'tok \<Rightarrow> auth_error + ustr" where
  "authenticate jwt cfg is_revoked now tok = map_sum id sc_username (decode_token jwt cfg is_revoked now tok Access)"

definition refresh_tokens ::
  "'tok jwt \<Rightarrow> auth_settings \<Rightarrow> (ustr \<Rightarrow> bool) \<Rightarrow> instant \<Rightarrow> fresh_ids \<Rightarrow> 'tok \<Rightarrow> auth_error + 'tok token_pair" where
  "refresh_tokens jwt cfg is_revoked now ids tok =
     and_then (decode_token jwt cfg is_revoked now tok Refresh) (\<lambda>c.
       Inr (issue_tokens jwt cfg now ids (sc_username c) (Some (sc_sid c))))"

section \<open>Where revocations are remembered\<close>

text \<open>\<^verbatim>\<open>MemorySessionRevocations\<close>: a dictionary.\<close>

type_synonym memory_revocations = "(ustr \<times> instant) list"

definition memory_revoke :: "instant \<Rightarrow> ustr \<Rightarrow> instant \<Rightarrow> memory_revocations \<Rightarrow> memory_revocations" where
  "memory_revoke now sid expires s = AList.update sid expires s"

definition memory_is_revoked :: "memory_revocations \<Rightarrow> ustr \<Rightarrow> bool" where
  "memory_is_revoked s sid \<longleftrightarrow> map_of s sid \<noteq> None"

definition memory_expiry :: "memory_revocations \<Rightarrow> ustr \<Rightarrow> instant option" where
  "memory_expiry s sid = map_of s sid"

text \<open>\<^verbatim>\<open>RevokedSessionStore\<close>: the rows of the table and the dictionary of the process.\<close>

record revoked_store =
  revoked_rows :: "(ustr \<times> ustr) list"
  revoked_memory :: "(ustr \<times> instant) list"

definition live_rows :: "instant \<Rightarrow> (ustr \<times> ustr) list \<Rightarrow> (ustr \<times> ustr) list" where
  "live_rows now rows = filter (\<lambda>(_, expires_at). \<not> expires_at \<le> stamp now) rows"

text \<open>\<^verbatim>\<open>load\<close>; \<open>None\<close> when a row does not parse.\<close>

definition store_load :: "instant \<Rightarrow> revoked_store \<Rightarrow> revoked_store option" where
  "store_load now s =
     (let rows = live_rows now (revoked_rows s) in
      map_option (\<lambda>mem. \<lparr>revoked_rows = rows, revoked_memory = mem\<rparr>)
        (those (map (\<lambda>(sid, expires_at). map_option (\<lambda>t. (sid, t)) (parse_timestamp expires_at)) rows)))"

definition store_is_revoked :: "revoked_store \<Rightarrow> ustr \<Rightarrow> bool" where
  "store_is_revoked s sid \<longleftrightarrow> map_of (revoked_memory s) sid \<noteq> None"

text \<open>\<^verbatim>\<open>revoke\<close>; when the transaction fails (\<open>write_ok\<close> is false) it raises and nothing changes.\<close>

definition store_revoke :: "bool \<Rightarrow> instant \<Rightarrow> ustr \<Rightarrow> instant \<Rightarrow> revoked_store \<Rightarrow> bool \<times> revoked_store" where
  "store_revoke write_ok now sid expires s =
     (if \<not> write_ok then (False, s)
      else (True, \<lparr>revoked_rows = AList.update sid (stamp expires) (live_rows now (revoked_rows s)),
                   revoked_memory = AList.update sid expires
                     (filter (\<lambda>(_, until). now < until) (revoked_memory s))\<rparr>))"

text \<open>\<^verbatim>\<open>AuthService.revoke\<close> over the durable store: the session id or the error, and the store.\<close>

definition revoke_session ::
  "'tok jwt \<Rightarrow> auth_settings \<Rightarrow> bool \<Rightarrow> instant \<Rightarrow> 'tok \<Rightarrow> revoked_store
     \<Rightarrow> (auth_error option + ustr) \<times> revoked_store" where
  "revoke_session jwt cfg write_ok now tok s =
     (case decode_token jwt cfg (store_is_revoked s) now tok Refresh of
        Inl e \<Rightarrow> (Inl (Some e), s)
      | Inr c \<Rightarrow> (case store_revoke write_ok now (sc_sid c) (now + refresh_ttl cfg) s of
                    (False, s) \<Rightarrow> (Inl None, s)
                  | (True, s) \<Rightarrow> (Inr (sc_sid c), s)))"

section \<open>The protocol as a contract\<close>

locale session_revocations =
  fixes valid :: "'s \<Rightarrow> bool"
    and expiry :: "'s \<Rightarrow> ustr \<Rightarrow> instant option"
    and revoke :: "instant \<Rightarrow> ustr \<Rightarrow> instant \<Rightarrow> 's \<Rightarrow> 's"
  assumes revoke_valid: "valid s \<Longrightarrow> stamp_ok now \<Longrightarrow> stamp_ok e \<Longrightarrow> valid (revoke now sid e s)"
    and revoke_same: "expiry (revoke now sid e s) sid = Some e"
    and revoke_keeps: "x \<noteq> sid \<Longrightarrow> expiry s x = Some u \<Longrightarrow> now < u \<Longrightarrow> expiry (revoke now sid e s) x = Some u"
    and revoke_only: "x \<noteq> sid \<Longrightarrow> valid s \<Longrightarrow> expiry (revoke now sid e s) x = Some u \<Longrightarrow> expiry s x = Some u"
begin

lemma revoked_after: "x = sid \<or> (\<exists>u. expiry s x = Some u \<and> now < u) \<Longrightarrow> expiry (revoke now sid e s) x \<noteq> None"
  using revoke_same revoke_keeps by (cases "x = sid") auto

lemma lost_only_when_lapsed:
  "expiry s x = Some u \<Longrightarrow> expiry (revoke now sid e s) x = None \<Longrightarrow> u \<le> now"
  using revoked_after [of x sid s now e] by (auto simp: not_less [symmetric])

lemma revoked_later:
  assumes "expiry s x = Some u" and "\<forall>(now, sid, e) \<in> set rs. now < u \<and> sid \<noteq> x"
  shows "expiry (fold (\<lambda>(now, sid, e). revoke now sid e) rs s) x = Some u"
  using assms
proof (induction rs arbitrary: s)
  case (Cons r rs)
  obtain now sid e where r: "r = (now, sid, e)" by (metis prod_cases3)
  then have "expiry (revoke now sid e s) x = Some u" using Cons.prems by (intro revoke_keeps) auto
  then show ?case using Cons r by simp
qed simp

end

locale durable_revocations = session_revocations +
  fixes reload :: "instant \<Rightarrow> 'a \<Rightarrow> 'a option"
  assumes reload_total: "valid s \<Longrightarrow> stamp_ok now \<Longrightarrow> \<exists>s'. reload now s = Some s'"
    and reload_valid: "valid s \<Longrightarrow> stamp_ok now \<Longrightarrow> reload now s = Some s' \<Longrightarrow> valid s'"
    and reload_keeps: "valid s \<Longrightarrow> stamp_ok now \<Longrightarrow> reload now s = Some s' \<Longrightarrow> expiry s x = Some u \<Longrightarrow> now < u
      \<Longrightarrow> expiry s' x = Some u"
    and reload_only: "valid s \<Longrightarrow> stamp_ok now \<Longrightarrow> reload now s = Some s' \<Longrightarrow> expiry s' x = Some u \<Longrightarrow> expiry s x = Some u"
begin

lemma reload_lost_only_when_lapsed:
  "valid s \<Longrightarrow> stamp_ok now \<Longrightarrow> reload now s = Some s' \<Longrightarrow> expiry s x = Some u \<Longrightarrow> expiry s' x = None \<Longrightarrow> u \<le> now"
  using reload_keeps [of s now s' x u] by (auto simp: not_less [symmetric])

end

interpretation memory: session_revocations "\<lambda>_. True" memory_expiry memory_revoke
  by unfold_locales (auto simp: memory_expiry_def memory_revoke_def update_conv')

text \<open>Table and dictionary agree, and every time fits the stored strings.\<close>

definition store_valid :: "revoked_store \<Rightarrow> bool" where
  "store_valid s \<longleftrightarrow>
     distinct (map fst (revoked_memory s))
     \<and> revoked_rows s = map (\<lambda>(sid, t). (sid, stamp t)) (revoked_memory s)
     \<and> (\<forall>(sid, t) \<in> set (revoked_memory s). stamp_ok t)"

definition store_expiry :: "revoked_store \<Rightarrow> ustr \<Rightarrow> instant option" where
  "store_expiry s sid = map_of (revoked_memory s) sid"

lemma live_rows_stamped:
  assumes "stamp_ok now" "\<forall>(sid, t) \<in> set m. stamp_ok t"
  shows "live_rows now (map (\<lambda>(sid, t). (sid, stamp t)) m) = map (\<lambda>(sid, t). (sid, stamp t)) (filter (\<lambda>(_, t). now < t) m)"
  using assms(2)
proof (induction m)
  case (Cons x m)
  obtain sid t where x: "x = (sid, t)" by fastforce
  have "stamp t \<le> stamp now \<longleftrightarrow> t \<le> now" using Cons.prems assms(1) x by (intro stamp_le_iff) auto
  then show ?case using Cons x by (auto simp: live_rows_def not_le)
qed (simp add: live_rows_def)

lemma update_map_values:
  "AList.update k (f v) (map (\<lambda>(x, t). (x, f t)) m) = map (\<lambda>(x, t). (x, f t)) (AList.update k v m)"
  by (induction m) auto

lemma map_of_filter_values:
  "distinct (map fst m) \<Longrightarrow> map_of (filter (\<lambda>(_, t). P t) m) x = (case map_of m x of None \<Rightarrow> None | Some t \<Rightarrow> if P t then Some t else None)"
proof (induction m)
  case (Cons y m)
  then show ?case by (cases y) (auto simp: map_of_eq_None_iff split: option.splits dest: weak_map_of_SomeI)
qed simp

lemma map_of_filter_keeps: "map_of m x = Some t \<Longrightarrow> P t \<Longrightarrow> map_of (filter (\<lambda>(_, t). P t) m) x = Some t"
  by (induction m) (auto split: if_splits)

lemma set_update_subset: "set (AList.update k v m) \<subseteq> insert (k, v) (set m)"
  by (induction m) auto

lemma store_valid_revoke:
  assumes ok: "store_valid s" and now: "stamp_ok now" and e: "stamp_ok e"
  shows "store_valid (snd (store_revoke True now sid e s))"
proof -
  let ?m = "filter (\<lambda>(_, until). now < until) (revoked_memory s)"
  have rows: "live_rows now (revoked_rows s) = map (\<lambda>(sid, t). (sid, stamp t)) ?m"
    using ok now unfolding store_valid_def by (metis live_rows_stamped)
  have "distinct (map fst ?m)" using ok by (simp add: store_valid_def distinct_map_filter)
  moreover have "\<forall>(x, t) \<in> set (AList.update sid e ?m). stamp_ok t"
    using ok e set_update_subset [of sid e ?m] by (fastforce simp: store_valid_def)
  ultimately show ?thesis
    by (simp add: store_revoke_def store_valid_def rows update_map_values distinct_update)
qed

lemma store_load_eq:
  assumes ok: "store_valid s" and now: "stamp_ok now"
  shows "store_load now s = Some \<lparr>revoked_rows = map (\<lambda>(sid, t). (sid, stamp t)) (filter (\<lambda>(_, t). now < t) (revoked_memory s)),
     revoked_memory = filter (\<lambda>(_, t). now < t) (revoked_memory s)\<rparr>"
proof -
  let ?m = "filter (\<lambda>(_, until). now < until) (revoked_memory s)"
  have rows: "live_rows now (revoked_rows s) = map (\<lambda>(sid, t). (sid, stamp t)) ?m"
    using ok now unfolding store_valid_def by (metis live_rows_stamped)
  have those: "those (map (\<lambda>(sid, expires_at). map_option (\<lambda>t. (sid, t)) (parse_timestamp expires_at)) (map (\<lambda>(sid, t). (sid, stamp t)) m))
      = Some m" if "\<forall>(sid, t) \<in> set m. stamp_ok t" for m
    using that by (induction m) (auto simp: parse_stamp)
  have fit: "\<forall>(sid, t) \<in> set ?m. stamp_ok t" using ok by (auto simp: store_valid_def)
  show ?thesis unfolding store_load_def rows Let_def those [OF fit] by simp
qed

lemma store_expiry_filter:
  "store_valid s \<Longrightarrow> map_of (filter (\<lambda>(_, until). now < until) (revoked_memory s)) x
     = (case store_expiry s x of None \<Rightarrow> None | Some t \<Rightarrow> if now < t then Some t else None)"
  by (simp add: store_valid_def store_expiry_def map_of_filter_values)


interpretation stored: durable_revocations store_valid store_expiry
  "\<lambda>now sid e s. snd (store_revoke True now sid e s)" store_load
proof
  fix s s' :: revoked_store and now e u :: instant and sid x :: ustr
  have revoked: "store_expiry (snd (store_revoke True now sid e s)) x =
      (if x = sid then Some e else map_of (filter (\<lambda>(_, until). now < until) (revoked_memory s)) x)"
    by (simp add: store_expiry_def store_revoke_def update_conv')
  show "store_valid s \<Longrightarrow> stamp_ok now \<Longrightarrow> stamp_ok e \<Longrightarrow> store_valid (snd (store_revoke True now sid e s))"
    by (rule store_valid_revoke)
  show "store_expiry (snd (store_revoke True now sid e s)) sid = Some e"
    by (simp add: store_expiry_def store_revoke_def update_conv')
  show "x \<noteq> sid \<Longrightarrow> store_expiry s x = Some u \<Longrightarrow> now < u \<Longrightarrow>
      store_expiry (snd (store_revoke True now sid e s)) x = Some u"
    by (simp add: revoked) (simp add: store_expiry_def map_of_filter_keeps)
  show "x \<noteq> sid \<Longrightarrow> store_valid s \<Longrightarrow> store_expiry (snd (store_revoke True now sid e s)) x = Some u \<Longrightarrow>
      store_expiry s x = Some u"
    by (simp add: revoked store_expiry_filter split: option.splits if_splits)
  show "store_valid s \<Longrightarrow> stamp_ok now \<Longrightarrow> \<exists>s'. store_load now s = Some s'"
    by (simp add: store_load_eq)
  show "store_valid s \<Longrightarrow> stamp_ok now \<Longrightarrow> store_load now s = Some s' \<Longrightarrow> store_valid s'"
    by (auto simp: store_load_eq) (auto simp: store_valid_def distinct_map_filter)
  show "store_valid s \<Longrightarrow> stamp_ok now \<Longrightarrow> store_load now s = Some s' \<Longrightarrow> store_expiry s x = Some u \<Longrightarrow> now < u \<Longrightarrow>
      store_expiry s' x = Some u"
    using store_expiry_filter [of s now x] by (auto simp: store_load_eq) (simp add: store_expiry_def)
  show "store_valid s \<Longrightarrow> stamp_ok now \<Longrightarrow> store_load now s = Some s' \<Longrightarrow> store_expiry s' x = Some u \<Longrightarrow>
      store_expiry s x = Some u"
    using store_expiry_filter [of s now x]
    by (auto simp: store_load_eq split: option.splits if_splits) (simp_all add: store_expiry_def)
qed

end
