(* ===== verification/AuthMachine.thy ===== *)
theory AuthMachine
  imports Auth
begin

text \<open>
  The life of login sessions as a state machine: time passes, the user logs in, exchanges refresh
  tokens, logs out, and the service restarts, possibly with other settings.  Two ghost components
  record what was issued and which sessions were ended; no step reads them.
\<close>

section \<open>States and steps\<close>

record auth_state =
  as_cfg :: auth_settings
  as_now :: instant
  as_store :: revoked_store
  as_issued :: "claims set"
  as_ended :: "ustr set"

text \<open>The bounds that \<^verbatim>\<open>validate_service_config\<close> checks.\<close>

definition auth_config_ok :: "auth_settings \<Rightarrow> bool" where
  "auth_config_ok cfg \<longleftrightarrow> 1 \<le> access_ttl_minutes cfg \<and> access_ttl_minutes cfg \<le> 1440
     \<and> 1 \<le> refresh_ttl_days cfg \<and> refresh_ttl_days cfg \<le> 365"

lemma access_ttl_le_refresh_ttl: "auth_config_ok cfg \<Longrightarrow> access_ttl cfg \<le> refresh_ttl cfg"
  by (simp add: auth_config_ok_def access_ttl_def refresh_ttl_def MINUTE_def DAY_def SECOND_def HOUR_def)

lemma refresh_ttl_positive: "auth_config_ok cfg \<Longrightarrow> 0 < refresh_ttl cfg"
  by (simp add: auth_config_ok_def refresh_ttl_def DAY_def SECOND_def HOUR_def)

text \<open>
  What PyJWT promises of a presented token: it is accepted only when claims with its subject,
  session and type were issued, and only before their expiry.
\<close>

definition genuine :: "'tok jwt \<Rightarrow> ustr \<Rightarrow> claims set \<Rightarrow> 'tok \<Rightarrow> bool" where
  "genuine jwt secret issued tok \<longleftrightarrow> (\<forall>t c. jwt_decode jwt tok secret t = Some c \<longrightarrow>
     (\<exists>c0 \<in> issued. cl_sub c0 = cl_sub c \<and> cl_sid c0 = cl_sid c \<and> cl_typ c0 = cl_typ c \<and> t < cl_exp c0))"

definition accepts :: "'tok jwt \<Rightarrow> auth_state \<Rightarrow> 'tok \<Rightarrow> token_type \<Rightarrow> auth_error + session_claims" where
  "accepts jwt s tok expected =
     decode_token jwt (as_cfg s) (store_is_revoked (as_store s)) (as_now s) tok expected"

definition add_issued :: "claims \<times> claims \<Rightarrow> auth_state \<Rightarrow> auth_state" where
  "add_issued p s = s\<lparr>as_issued := {fst p, snd p} \<union> as_issued s\<rparr>"

text \<open>
  \<open>grow\<close> is the operator's discipline: with it, a restart never shortens the lifetime of refresh
  tokens.  A logout may fail to write (\<open>write_ok\<close>), and ends nothing then.
\<close>

inductive auth_step :: "'tok jwt \<Rightarrow> bool \<Rightarrow> auth_state \<Rightarrow> auth_state \<Rightarrow> bool"
  for jwt :: "'tok jwt" and grow :: bool where
  tick: "as_now s \<le> t \<Longrightarrow> stamp_ok t \<Longrightarrow> auth_step jwt grow s (s\<lparr>as_now := t\<rparr>)"
| login: "fresh_sid ids \<notin> cl_sid ` as_issued s \<Longrightarrow>
    auth_step jwt grow s (add_issued (pair_claims (as_cfg s) (as_now s) ids (auth_username (as_cfg s)) None) s)"
| renew: "genuine jwt (jwt_secret (as_cfg s)) (as_issued s) tok \<Longrightarrow> accepts jwt s tok Refresh = Inr c \<Longrightarrow>
    fresh_sid ids \<notin> cl_sid ` as_issued s \<Longrightarrow>
    auth_step jwt grow s (add_issued (pair_claims (as_cfg s) (as_now s) ids (sc_username c) (Some (sc_sid c))) s)"
| logout: "genuine jwt (jwt_secret (as_cfg s)) (as_issued s) tok \<Longrightarrow>
    stamp_ok (as_now s + refresh_ttl (as_cfg s)) \<Longrightarrow>
    revoke_session jwt (as_cfg s) write_ok (as_now s) tok (as_store s) = (r, store) \<Longrightarrow>
    auth_step jwt grow s (s\<lparr>as_store := store,
      as_ended := (case r of Inl _ \<Rightarrow> as_ended s | Inr sid \<Rightarrow> insert sid (as_ended s))\<rparr>)"
| restart: "store_load (as_now s) (as_store s) = Some store \<Longrightarrow> auth_config_ok cfg \<Longrightarrow>
    (grow \<Longrightarrow> refresh_ttl (as_cfg s) \<le> refresh_ttl cfg) \<Longrightarrow>
    auth_step jwt grow s (s\<lparr>as_cfg := cfg, as_store := store\<rparr>)"

definition first_start :: "auth_settings \<Rightarrow> instant \<Rightarrow> auth_state" where
  "first_start cfg now = \<lparr>as_cfg = cfg, as_now = now,
     as_store = \<lparr>revoked_rows = [], revoked_memory = []\<rparr>, as_issued = {}, as_ended = {}\<rparr>"

inductive auth_reach :: "'tok jwt \<Rightarrow> bool \<Rightarrow> auth_state \<Rightarrow> bool" for jwt :: "'tok jwt" and grow :: bool where
  start: "auth_config_ok cfg \<Longrightarrow> stamp_ok now \<Longrightarrow> auth_reach jwt grow (first_start cfg now)"
| go: "auth_reach jwt grow s \<Longrightarrow> auth_step jwt grow s s' \<Longrightarrow> auth_reach jwt grow s'"

section \<open>The invariant\<close>

definition lifetimes_bounded :: "auth_state \<Rightarrow> bool" where
  "lifetimes_bounded s \<longleftrightarrow> (\<forall>c \<in> as_issued s. cl_exp c \<le> as_now s + refresh_ttl (as_cfg s))"

definition ended_covered :: "auth_state \<Rightarrow> bool" where
  "ended_covered s \<longleftrightarrow> (\<forall>c \<in> as_issued s. cl_sid c \<in> as_ended s \<longrightarrow> cl_exp c \<le> as_now s
     \<or> (\<exists>u. store_expiry (as_store s) (cl_sid c) = Some u \<and> cl_exp c \<le> u))"

definition auth_inv :: "auth_state \<Rightarrow> bool" where
  "auth_inv s \<longleftrightarrow> auth_config_ok (as_cfg s) \<and> stamp_ok (as_now s) \<and> store_valid (as_store s)
     \<and> lifetimes_bounded s \<and> ended_covered s \<and> as_ended s \<subseteq> cl_sid ` as_issued s"

lemma store_is_revoked_iff: "store_is_revoked s sid \<longleftrightarrow> store_expiry s sid \<noteq> None"
  by (simp add: store_is_revoked_def store_expiry_def)

lemma decode_token_acceptD:
  assumes "decode_token jwt cfg is_revoked now tok expected = Inr c"
  obtains k where "jwt_decode jwt tok (jwt_secret cfg) now = Some k" "cl_sid k = sc_sid c" "cl_sub k = sc_username c"
    "cl_typ k = typ_value expected" "\<not> is_revoked (sc_sid c)" "sc_username c = auth_username cfg"
  using assms by (auto simp: decode_token_def split: option.splits if_splits)

lemma accepted_is_live:
  assumes inv: "auth_inv s" and tok: "genuine jwt (jwt_secret (as_cfg s)) (as_issued s) tok"
    and acc: "accepts jwt s tok expected = Inr c"
  shows "sc_sid c \<notin> as_ended s \<and> sc_sid c \<in> cl_sid ` as_issued s"
proof -
  from acc obtain k where k: "jwt_decode jwt tok (jwt_secret (as_cfg s)) (as_now s) = Some k" "cl_sid k = sc_sid c"
    and open_: "\<not> store_is_revoked (as_store s) (sc_sid c)"
    unfolding accepts_def by (rule decode_token_acceptD)
  from tok k obtain c0 where c0: "c0 \<in> as_issued s" "cl_sid c0 = sc_sid c" "as_now s < cl_exp c0"
    unfolding genuine_def by metis
  have "sc_sid c \<notin> as_ended s"
  proof
    assume "sc_sid c \<in> as_ended s"
    with inv c0 have "store_expiry (as_store s) (sc_sid c) \<noteq> None"
      unfolding auth_inv_def ended_covered_def by fastforce
    with open_ show False by (simp add: store_is_revoked_iff)
  qed
  with c0 show ?thesis by (metis image_eqI)
qed

lemma pair_claims_expiry:
  "auth_config_ok cfg \<Longrightarrow> c \<in> {fst (pair_claims cfg now ids u sid), snd (pair_claims cfg now ids u sid)} \<Longrightarrow>
     cl_exp c \<le> now + refresh_ttl cfg"
  using access_ttl_le_refresh_ttl [of cfg] by (auto simp: pair_claims_def token_claims_def Let_def)

lemma pair_claims_sid:
  "c \<in> {fst (pair_claims cfg now ids u sid), snd (pair_claims cfg now ids u sid)} \<Longrightarrow>
     cl_sid c = fresh_sid ids \<or> sid = Some (cl_sid c)"
  by (auto simp: pair_claims_def token_claims_def Let_def split: option.splits if_splits)

lemma add_issued_inv:
  assumes inv: "auth_inv s" and "fresh_sid ids \<notin> cl_sid ` as_issued s"
    and "case sid of None \<Rightarrow> True | Some x \<Rightarrow> x \<notin> as_ended s"
  shows "auth_inv (add_issued (pair_claims (as_cfg s) (as_now s) ids u sid) s)"
proof -
  let ?p = "pair_claims (as_cfg s) (as_now s) ids u sid"
  have live: "cl_sid c \<notin> as_ended s" if "c \<in> {fst ?p, snd ?p}" for c
    using pair_claims_sid [OF that] assms by (auto simp: auth_inv_def)
  have "lifetimes_bounded (add_issued ?p s)"
    using inv pair_claims_expiry [of "as_cfg s" _ "as_now s" ids u sid]
    by (auto simp: auth_inv_def lifetimes_bounded_def add_issued_def)
  moreover have "ended_covered (add_issued ?p s)"
    using inv live by (auto simp: auth_inv_def ended_covered_def add_issued_def)
  ultimately show ?thesis using inv by (auto simp: auth_inv_def add_issued_def)
qed

lemma revoke_session_cases:
  assumes "revoke_session jwt cfg w now tok st = (r, st')"
  obtains (refused) e where "r = Inl e" "st' = st"
  | (ended) c where "decode_token jwt cfg (store_is_revoked st) now tok Refresh = Inr c" "r = Inr (sc_sid c)"
      "st' = snd (store_revoke True now (sc_sid c) (now + refresh_ttl cfg) st)"
  using assms by (cases w) (auto simp: revoke_session_def store_revoke_def split: sum.splits)

lemma ended_inv:
  assumes inv: "auth_inv s" and fits: "stamp_ok (as_now s + refresh_ttl (as_cfg s))" and sid: "sid \<in> cl_sid ` as_issued s"
  shows "auth_inv (s\<lparr>as_store := snd (store_revoke True (as_now s) sid (as_now s + refresh_ttl (as_cfg s)) (as_store s)),
    as_ended := insert sid (as_ended s)\<rparr>)" (is "auth_inv ?s")
proof -
  have "store_valid (as_store ?s)"
    using inv fits by (simp add: auth_inv_def store_valid_revoke)
  moreover have "ended_covered ?s"
    unfolding ended_covered_def
  proof (intro ballI impI)
    fix c assume c: "c \<in> as_issued ?s" and e: "cl_sid c \<in> as_ended ?s"
    show "cl_exp c \<le> as_now ?s \<or> (\<exists>u. store_expiry (as_store ?s) (cl_sid c) = Some u \<and> cl_exp c \<le> u)"
    proof (cases "cl_sid c = sid")
      case True
      then show ?thesis using inv c stored.revoke_same by (simp add: auth_inv_def lifetimes_bounded_def)
    next
      case False
      with e have "cl_sid c \<in> as_ended s" by simp
      then have "cl_exp c \<le> as_now s \<or> (\<exists>u. store_expiry (as_store s) (cl_sid c) = Some u \<and> cl_exp c \<le> u)"
        using inv c by (simp add: auth_inv_def ended_covered_def)
      then show ?thesis
      proof
        assume "\<exists>u. store_expiry (as_store s) (cl_sid c) = Some u \<and> cl_exp c \<le> u"
        then obtain u where "store_expiry (as_store s) (cl_sid c) = Some u" "cl_exp c \<le> u" by blast
        with False show ?thesis using stored.revoke_keeps [of "cl_sid c" sid "as_store s" u "as_now s"]
          by (cases "as_now s < u") auto
      qed simp
    qed
  qed
  ultimately show ?thesis using inv sid by (simp add: auth_inv_def lifetimes_bounded_def)
qed

lemma restart_inv:
  assumes inv: "auth_inv s" and load: "store_load (as_now s) (as_store s) = Some store" and ok: "auth_config_ok cfg"
    and grow: "refresh_ttl (as_cfg s) \<le> refresh_ttl cfg"
  shows "auth_inv (s\<lparr>as_cfg := cfg, as_store := store\<rparr>)" (is "auth_inv ?s")
proof -
  have v: "store_valid (as_store s)" and n: "stamp_ok (as_now s)" using inv by (auto simp: auth_inv_def)
  have "ended_covered ?s"
    unfolding ended_covered_def
  proof (intro ballI impI)
    fix c assume "c \<in> as_issued ?s" "cl_sid c \<in> as_ended ?s"
    then have "cl_exp c \<le> as_now s \<or> (\<exists>u. store_expiry (as_store s) (cl_sid c) = Some u \<and> cl_exp c \<le> u)"
      using inv by (simp add: auth_inv_def ended_covered_def)
    then show "cl_exp c \<le> as_now ?s \<or> (\<exists>u. store_expiry (as_store ?s) (cl_sid c) = Some u \<and> cl_exp c \<le> u)"
      using stored.reload_keeps [OF v n load, of "cl_sid c"] by (auto simp: not_less [symmetric])
  qed
  then show ?thesis using inv ok grow stored.reload_valid [OF v n load]
    by (fastforce simp: auth_inv_def lifetimes_bounded_def)
qed

lemma auth_step_inv: "auth_step jwt True s s' \<Longrightarrow> auth_inv s \<Longrightarrow> auth_inv s'"
proof (induction rule: auth_step.induct)
  case (tick s t)
  then show ?case by (fastforce simp: auth_inv_def lifetimes_bounded_def ended_covered_def)
next
  case (login ids s)
  then show ?case by (intro add_issued_inv) auto
next
  case (renew s tok c ids)
  then show ?case using accepted_is_live [of s jwt tok Refresh c] by (intro add_issued_inv) auto
next
  case (logout s tok write_ok r store)
  from logout(3) show ?case
  proof (cases rule: revoke_session_cases)
    case refused
    then show ?thesis using logout.prems by simp
  next
    case (ended c)
    then have "accepts jwt s tok Refresh = Inr c" by (simp add: accepts_def)
    then have "sc_sid c \<in> cl_sid ` as_issued s"
      using accepted_is_live [OF logout.prems logout(1)] by blast
    then show ?thesis using ended_inv [OF logout.prems logout(2)] ended by simp
  qed
next
  case (restart s store cfg)
  then show ?case by (intro restart_inv) auto
qed

lemma auth_reach_inv: "auth_reach jwt True s \<Longrightarrow> auth_inv s"
proof (induction rule: auth_reach.induct)
  case (start cfg now)
  then show ?case
    by (simp add: auth_inv_def first_start_def store_valid_def lifetimes_bounded_def ended_covered_def)
next
  case (go s s')
  then show ?case by (blast intro: auth_step_inv)
qed

end
