(* ===== verification/AuthProperties.thy ===== *)
theory AuthProperties
  imports AuthMachine
begin

text \<open>
  Properties of login sessions, with a token library for the witnesses: a token is its claims with
  the secret they were signed with.
\<close>

definition plain_jwt :: "(claims \<times> ustr) jwt" where
  "plain_jwt = \<lparr>jwt_encode = Pair,
     jwt_decode = (\<lambda>(c, k) secret t. if k = secret \<and> t < cl_exp c then Some c else None)\<rparr>"

lemma plain_jwt_genuine: "c \<in> issued \<Longrightarrow> genuine plain_jwt secret issued (c, k)"
  by (auto simp: genuine_def plain_jwt_def)

definition sample_auth :: "int \<Rightarrow> auth_settings" where
  "sample_auth days = \<lparr>auth_username = lit ''user'', password_hash = lit ''$argon2'', jwt_secret = lit ''secret'',
     access_ttl_minutes = 15, refresh_ttl_days = days\<rparr>"

definition sample_ids :: fresh_ids where
  "sample_ids = \<lparr>fresh_sid = lit ''sid'', fresh_access = lit ''a'', fresh_refresh = lit ''r''\<rparr>"

definition A0 :: instant where
  "A0 = 63000000000000000"

abbreviation sample_pair :: "claims \<times> claims" where
  "sample_pair \<equiv> pair_claims (sample_auth 30) A0 sample_ids (lit ''user'') None"

definition logged_in :: auth_state where
  "logged_in = add_issued sample_pair (first_start (sample_auth 30) A0)"

text \<open>The session is ended while the lifetime of refresh tokens is \<open>days\<close>.\<close>

definition logged_out :: "int \<Rightarrow> auth_state" where
  "logged_out days = logged_in\<lparr>as_cfg := sample_auth days,
     as_store := snd (store_revoke True A0 (lit ''sid'') (A0 + refresh_ttl (sample_auth days)) (as_store logged_in)),
     as_ended := {lit ''sid''}\<rparr>"

lemmas sample_simps = sample_auth_def sample_ids_def pair_claims_def token_claims_def refresh_ttl_def access_ttl_def
  DAY_def HOUR_def MINUTE_def SECOND_def Let_def

lemma sample_fits: "A0 \<le> t \<Longrightarrow> t \<le> A0 + 400 * DAY \<Longrightarrow> stamp_ok t"
  by (simp add: stamp_ok_def days_before_year_def A0_def DAY_def HOUR_def SECOND_def)

lemma sample_auth_ok: "1 \<le> days \<Longrightarrow> days \<le> 365 \<Longrightarrow> auth_config_ok (sample_auth days)"
  by (simp add: auth_config_ok_def sample_auth_def)

lemma logged_in_issued: "as_issued logged_in = {fst sample_pair, snd sample_pair}"
  by (simp add: logged_in_def add_issued_def first_start_def)

lemma logged_in_reached: "auth_reach plain_jwt grow logged_in"
proof -
  have "auth_reach plain_jwt grow (first_start (sample_auth 30) A0)"
    by (rule auth_reach.start) (simp_all add: sample_auth_ok sample_fits DAY_def HOUR_def SECOND_def)
  moreover have "auth_step plain_jwt grow (first_start (sample_auth 30) A0) logged_in"
    using auth_step.login [of sample_ids "first_start (sample_auth 30) A0" plain_jwt grow]
    by (simp add: logged_in_def first_start_def sample_auth_def)
  ultimately show ?thesis by (rule auth_reach.go)
qed

lemma logged_out_reached:
  assumes "1 \<le> days" "days \<le> 365" "grow \<Longrightarrow> 30 \<le> days"
  shows "auth_reach plain_jwt grow (logged_out days)"
proof -
  let ?s = "logged_in\<lparr>as_cfg := sample_auth days\<rparr>"
  have empty: "store_load A0 (as_store logged_in) = Some (as_store logged_in)"
    by (simp add: logged_in_def add_issued_def first_start_def store_load_def live_rows_def)
  have "auth_step plain_jwt grow logged_in (logged_in\<lparr>as_cfg := sample_auth days, as_store := as_store logged_in\<rparr>)"
    using assms empty by (intro auth_step.restart)
      (simp_all add: sample_auth_ok logged_in_def add_issued_def first_start_def, simp add: sample_simps)
  then have r: "auth_reach plain_jwt grow ?s"
    using logged_in_reached by (auto intro: auth_reach.go)
  have dec: "decode_token plain_jwt (sample_auth days) (store_is_revoked (as_store logged_in)) A0
      (snd sample_pair, lit ''secret'') Refresh = Inr \<lparr>sc_username = lit ''user'', sc_sid = lit ''sid''\<rparr>"
    by (simp add: decode_token_def plain_jwt_def sample_simps store_is_revoked_def logged_in_def add_issued_def first_start_def)
  have "auth_step plain_jwt grow ?s (?s\<lparr>as_store := as_store (logged_out days),
      as_ended := (case (Inr (lit ''sid'') :: auth_error option + ustr) of Inl _ \<Rightarrow> as_ended ?s | Inr sid \<Rightarrow> insert sid (as_ended ?s))\<rparr>)"
  proof (rule auth_step.logout)
    show "genuine plain_jwt (jwt_secret (as_cfg ?s)) (as_issued ?s) (snd sample_pair, lit ''secret'')"
      by (rule plain_jwt_genuine) (simp add: logged_in_issued)
    show "stamp_ok (as_now ?s + refresh_ttl (as_cfg ?s))"
      using assms by (simp add: logged_in_def add_issued_def first_start_def, intro sample_fits) (simp_all add: sample_simps)
    show "revoke_session plain_jwt (as_cfg ?s) True (as_now ?s) (snd sample_pair, lit ''secret'') (as_store ?s)
        = (Inr (lit ''sid''), as_store (logged_out days))"
      using dec by (simp add: revoke_session_def logged_out_def logged_in_def add_issued_def first_start_def store_revoke_def)
  qed
  then have "auth_step plain_jwt grow ?s (logged_out days)"
    by (simp add: logged_out_def logged_in_def add_issued_def first_start_def)
  with r show ?thesis by (rule auth_reach.go)
qed

section \<open>Ended sessions\<close>



text \<open>When a restart may shorten the lifetime of refresh tokens, a session that was ended can come back: the
  revocation lasts for the new lifetime only, its row is deleted at the next start, and a refresh token
  issued under the old lifetime is accepted again.\<close>
theorem shortened_lifetime_revives_session:
  "\<exists>s tok c. auth_reach plain_jwt False s \<and> genuine plain_jwt (jwt_secret (as_cfg s)) (as_issued s) tok
     \<and> sc_sid c \<in> as_ended s
     \<and> decode_token plain_jwt (as_cfg s) (store_is_revoked (as_store s)) (as_now s) tok Refresh = Inr c"
proof -
  define late where "late = (logged_out 1)\<lparr>as_now := A0 + 2 * DAY\<rparr>"
  have "auth_reach plain_jwt False (logged_out 1)" by (rule logged_out_reached) simp_all
  moreover have "auth_step plain_jwt False (logged_out 1) late"
    unfolding late_def by (rule auth_step.tick)
      (simp_all add: sample_fits DAY_def HOUR_def SECOND_def logged_out_def logged_in_def add_issued_def first_start_def)
  ultimately have reach: "auth_reach plain_jwt False late" by (rule auth_reach.go)
  have mem: "revoked_memory (as_store late) = [(lit ''sid'', A0 + DAY)]"
    by (simp add: late_def logged_out_def store_revoke_def logged_in_def add_issued_def first_start_def refresh_ttl_def sample_auth_def)
  have "store_valid (as_store late)"
    by (simp add: late_def logged_out_def logged_in_def add_issued_def first_start_def)
       (rule store_valid_revoke, simp_all add: store_valid_def sample_fits sample_simps)
  then have load: "store_load (as_now late) (as_store late) = Some \<lparr>revoked_rows = [], revoked_memory = []\<rparr>"
    by (subst store_load_eq) (simp_all add: mem, simp_all add: late_def sample_fits DAY_def HOUR_def SECOND_def)
  define last where "last = late\<lparr>as_cfg := sample_auth 1, as_store := \<lparr>revoked_rows = [], revoked_memory = []\<rparr>\<rparr>"
  have "auth_step plain_jwt False late last"
    unfolding last_def by (rule auth_step.restart) (simp_all add: load sample_auth_ok)
  with reach have "auth_reach plain_jwt False last" by (rule auth_reach.go)
  moreover have "genuine plain_jwt (jwt_secret (as_cfg last)) (as_issued last) (snd sample_pair, lit ''secret'')"
    by (rule plain_jwt_genuine) (simp add: last_def late_def logged_out_def logged_in_issued)
  moreover have "decode_token plain_jwt (as_cfg last) (store_is_revoked (as_store last)) (as_now last)
      (snd sample_pair, lit ''secret'') Refresh = Inr \<lparr>sc_username = lit ''user'', sc_sid = lit ''sid''\<rparr>"
    by (simp add: last_def late_def decode_token_def plain_jwt_def sample_simps store_is_revoked_def A0_def)
  moreover have "lit ''sid'' \<in> as_ended last" by (simp add: last_def late_def logged_out_def)
  ultimately show ?thesis by (metis session_claims.select_convs(2))
qed

section \<open>Tokens of a live session\<close>

text \<open>
  PyJWT on its own tokens, with the same secret: it gives the claims back until a second before they
  expire (it keeps whole seconds), and refuses them from their expiry on.
\<close>

definition jwt_documented :: "'tok jwt \<Rightarrow> bool" where
  "jwt_documented jwt \<longleftrightarrow> (\<forall>c secret t.
     (cl_exp c \<le> t \<longrightarrow> jwt_decode jwt (jwt_encode jwt c secret) secret t = None)
     \<and> (cl_iat c \<le> t \<and> t \<le> cl_exp c - SECOND \<longrightarrow>
        (\<exists>k. jwt_decode jwt (jwt_encode jwt c secret) secret t = Some k
             \<and> cl_sub k = cl_sub c \<and> cl_sid k = cl_sid c \<and> cl_typ k = cl_typ c)))"

lemma plain_jwt_documented: "jwt_documented plain_jwt"
  by (auto simp: jwt_documented_def plain_jwt_def SECOND_def)

lemma decode_expired:
  "jwt_documented jwt \<Longrightarrow> cl_exp c \<le> t \<Longrightarrow>
     decode_token jwt cfg ended t (jwt_encode jwt c (jwt_secret cfg)) expected = Inl InvalidToken"
  by (simp add: decode_token_def jwt_documented_def)

lemma decode_issued:
  assumes "jwt_documented jwt" "cl_iat c \<le> t" "t \<le> cl_exp c - SECOND"
  shows "decode_token jwt cfg ended t (jwt_encode jwt c (jwt_secret cfg)) expected =
    (if cl_typ c \<noteq> typ_value expected \<or> cl_sub c \<noteq> auth_username cfg then Inl WrongTypeOrSubject
     else if ended (cl_sid c) then Inl SessionRevoked else Inr \<lparr>sc_username = cl_sub c, sc_sid = cl_sid c\<rparr>)"
proof -
  from assms obtain k where "jwt_decode jwt (jwt_encode jwt c (jwt_secret cfg)) (jwt_secret cfg) t = Some k"
      "cl_sub k = cl_sub c" "cl_sid k = cl_sid c" "cl_typ k = cl_typ c"
    unfolding jwt_documented_def by blast
  then show ?thesis by (simp add: decode_token_def)
qed

lemma typ_value_inject [simp]: "typ_value a = typ_value b \<longleftrightarrow> a = b"
  by (cases a; cases b) (simp_all add: lit_def)

lemma issued_access:
  assumes "jwt_documented jwt" "now \<le> t" "t \<le> now + access_ttl cfg - SECOND" "\<not> ended sid" "sid \<noteq> []"
  shows "authenticate_session jwt cfg ended t (access_token (issue_tokens jwt cfg now ids (auth_username cfg) (Some sid)))
    = Inr \<lparr>sc_username = auth_username cfg, sc_sid = sid\<rparr>"
  using assms by (simp add: authenticate_session_def issue_tokens_def pair_claims_def token_claims_def decode_issued Let_def)

text \<open>C15: The tokens of a login are what they are for: the access token authenticates its user and session, and the
  refresh token buys a new pair of the same session, up to a second before their expiry and while the session is
  not revoked; neither passes for the other, and both are refused from their expiry on.\<close>
theorem issued_tokens_work:
  fixes ids ids' :: fresh_ids
  defines "sid \<equiv> fresh_sid ids"
  assumes jwt: "jwt_documented jwt" and cfg: "auth_config_ok cfg" and sid: "sid \<noteq> []" and live: "\<not> ended sid"
    and p: "p = issue_tokens jwt cfg now ids (auth_username cfg) None" and t: "now \<le> t"
  shows "(t \<le> now + access_ttl cfg - SECOND \<longrightarrow>
        authenticate_session jwt cfg ended t (access_token p) = Inr \<lparr>sc_username = auth_username cfg, sc_sid = sid\<rparr>
        \<and> refresh_tokens jwt cfg ended t ids' (access_token p) = Inl WrongTypeOrSubject)
    \<and> (t \<le> now + refresh_ttl cfg - SECOND \<longrightarrow>
        refresh_tokens jwt cfg ended t ids' (refresh_token p)
          = Inr (issue_tokens jwt cfg t ids' (auth_username cfg) (Some sid))
        \<and> authenticate_session jwt cfg ended t (access_token (issue_tokens jwt cfg t ids' (auth_username cfg) (Some sid)))
          = Inr \<lparr>sc_username = auth_username cfg, sc_sid = sid\<rparr>
        \<and> authenticate_session jwt cfg ended t (refresh_token p) = Inl WrongTypeOrSubject)
    \<and> (now + access_ttl cfg \<le> t \<longrightarrow> authenticate_session jwt cfg ended t (access_token p) = Inl InvalidToken)
    \<and> (now + refresh_ttl cfg \<le> t \<longrightarrow> refresh_tokens jwt cfg ended t ids' (refresh_token p) = Inl InvalidToken)"
proof -
  have ttl: "SECOND \<le> access_ttl cfg"
    using cfg by (simp add: auth_config_ok_def access_ttl_def MINUTE_def SECOND_def)
  have a: "access_token p = jwt_encode jwt (token_claims now (auth_username cfg) sid Access (access_ttl cfg) (fresh_access ids)) (jwt_secret cfg)"
    and r: "refresh_token p = jwt_encode jwt (token_claims now (auth_username cfg) sid Refresh (refresh_ttl cfg) (fresh_refresh ids)) (jwt_secret cfg)"
    by (simp_all add: p issue_tokens_def pair_claims_def sid_def Let_def)
  show ?thesis
    unfolding a r refresh_tokens_def using jwt live sid t ttl
    by (auto simp: authenticate_session_def decode_issued decode_expired token_claims_def
        issued_access [unfolded authenticate_session_def])
qed

theorem issued_tokens_work_witness:
  "authenticate_session plain_jwt (sample_auth 30) (\<lambda>_. False) (A0 + MINUTE)
     (access_token (issue_tokens plain_jwt (sample_auth 30) A0 sample_ids (lit ''user'') None))
   = Inr \<lparr>sc_username = lit ''user'', sc_sid = lit ''sid''\<rparr>"
  using issued_tokens_work [where ids = sample_ids and jwt = plain_jwt and cfg = "sample_auth 30" and ended = "\<lambda>_. False"
      and now = A0 and t = "A0 + MINUTE", OF plain_jwt_documented sample_auth_ok _ _ refl]
  by (simp add: sample_simps lit_def)

end
