(* ===== verification/Throttle.thy ===== *)
theory Throttle
  imports PyFloat Auth "HOL-Library.AList"
begin

text \<open>
  \<^verbatim>\<open>services/login_throttle.py\<close> and the login route of \<^verbatim>\<open>api/routers/auth.py\<close>.  Times are Python
  floats of the monotonic clock; every reading of the clock is an argument.  The route awaits the password
  check between \<open>login_begin\<close> and \<open>login_finish\<close>, so attempts interleave: \<open>login_step\<close>.
\<close>

section \<open>The throttle\<close>

definition PRUNE_THRESHOLD :: nat where
  "PRUNE_THRESHOLD = 1024"

record throttle =
  th_max :: nat
  th_window :: rat
  th_failures :: "(ustr \<times> rat list) list"

definition new_throttle :: "nat \<Rightarrow> rat \<Rightarrow> throttle" where
  "new_throttle max_failures window = \<lparr>th_max = max_failures, th_window = window, th_failures = []\<rparr>"

definition recent :: "rat \<Rightarrow> ustr \<Rightarrow> throttle \<Rightarrow> rat list \<times> throttle" where
  "recent now key th =
     (case map_of (th_failures th) key of
        None \<Rightarrow> ([], th)
      | Some failures \<Rightarrow>
          (let horizon = fl (now - th_window th);
               failures = dropWhile (\<lambda>x. x \<le> horizon) failures
           in (failures, th\<lparr>th_failures :=
                 (if failures = [] then AList.delete key (th_failures th)
                  else AList.update key failures (th_failures th))\<rparr>)))"

definition retry_after :: "rat \<Rightarrow> rat \<Rightarrow> ustr \<Rightarrow> throttle \<Rightarrow> rat option \<times> throttle" where
  "retry_after now later key th =
     (case recent now key th of (failures, th) \<Rightarrow>
        if length failures < th_max th then (None, th)
        else (Some (max 0 (fl (fl (hd failures + th_window th) - later))), th))"

definition record_failure :: "rat \<Rightarrow> rat \<Rightarrow> ustr \<Rightarrow> throttle \<Rightarrow> throttle" where
  "record_failure now later key th =
     (let th = (if PRUNE_THRESHOLD < length (th_failures th)
                then fold (\<lambda>stale th. snd (recent now stale th)) (map fst (th_failures th)) th else th);
          failures = (case map_of (th_failures th) key of None \<Rightarrow> [] | Some fs \<Rightarrow> fs)
      in th\<lparr>th_failures := AList.update key (failures @ [later]) (th_failures th)\<rparr>)"

definition reset_failures :: "ustr \<Rightarrow> throttle \<Rightarrow> throttle" where
  "reset_failures key th = th\<lparr>th_failures := AList.delete key (th_failures th)\<rparr>"

section \<open>The login route\<close>

definition client_host :: "ustr option \<Rightarrow> ustr" where
  "client_host host = (case host of None \<Rightarrow> lit ''unknown'' | Some h \<Rightarrow> h)"

datatype 'tok login_result = TooManyRequests int | InvalidCredentials | Tokens "'tok token_pair"

text \<open>Up to the await: \<open>None\<close> when the attempt goes on to the password check.\<close>

definition login_begin :: "rat \<Rightarrow> rat \<Rightarrow> rat \<Rightarrow> ustr \<Rightarrow> throttle \<Rightarrow> 'tok login_result option \<times> throttle" where
  "login_begin now later latest client th =
     (case retry_after now later client th of
        (Some wait, th) \<Rightarrow> (Some (TooManyRequests \<lceil>wait\<rceil>), th)
      | (None, th) \<Rightarrow> (None, record_failure later latest client th))"

definition login_finish ::
  "'tok jwt \<Rightarrow> auth_settings \<Rightarrow> instant \<Rightarrow> fresh_ids \<Rightarrow> bool \<Rightarrow> ustr \<Rightarrow> throttle \<Rightarrow> 'tok login_result \<times> throttle" where
  "login_finish jwt cfg now ids valid client th =
     (if \<not> valid then (InvalidCredentials, th)
      else (Tokens (issue_tokens jwt cfg now ids (auth_username cfg) None), reset_failures client th))"

section \<open>What the throttle remembers\<close>

definition remembered :: "throttle \<Rightarrow> ustr \<Rightarrow> rat list" where
  "remembered th key = (case map_of (th_failures th) key of None \<Rightarrow> [] | Some fs \<Rightarrow> fs)"

abbreviation live :: "rat \<Rightarrow> throttle \<Rightarrow> rat list \<Rightarrow> rat list" where
  "live now th xs \<equiv> dropWhile (\<lambda>x. x \<le> fl (now - th_window th)) xs"

lemma recent_result [simp]: "fst (recent now key th) = live now th (remembered th key)"
  by (simp add: recent_def remembered_def Let_def split: option.splits)

lemma remembered_recent:
  "remembered (snd (recent now key th)) x = (if x = key then live now th (remembered th key) else remembered th x)"
  by (auto simp: recent_def remembered_def Let_def delete_conv' update_conv' split: option.splits) (metis dropWhile_eq_Nil_conv)

lemma recent_frame [simp]: "th_window (snd (recent now key th)) = th_window th" "th_max (snd (recent now key th)) = th_max th"
  by (simp_all add: recent_def Let_def split: option.splits)

lemma dropWhile_twice: "dropWhile P (dropWhile P xs) = dropWhile P xs"
  by (induction xs) auto

lemma prune_remembered:
  "th_window (fold (\<lambda>k th. snd (recent now k th)) ks th) = th_window th
   \<and> th_max (fold (\<lambda>k th. snd (recent now k th)) ks th) = th_max th
   \<and> remembered (fold (\<lambda>k th. snd (recent now k th)) ks th) x =
       (if x \<in> set ks then live now th (remembered th x) else remembered th x)"
  by (induction ks arbitrary: th) (auto simp: remembered_recent dropWhile_twice)

definition pruned :: "rat \<Rightarrow> throttle \<Rightarrow> throttle" where
  "pruned now th = (if PRUNE_THRESHOLD < length (th_failures th)
     then fold (\<lambda>stale th. snd (recent now stale th)) (map fst (th_failures th)) th else th)"

lemma remembered_record:
  "remembered (record_failure now later key th) x = remembered (pruned now th) x @ (if x = key then [later] else [])"
  by (simp add: record_failure_def Let_def pruned_def remembered_def update_conv')

lemma remembered_prune_cases:
  obtains "remembered (record_failure now later key th) x = remembered th x @ (if x = key then [later] else [])"
  | "remembered (record_failure now later key th) x = live now th (remembered th x) @ (if x = key then [later] else [])"
proof -
  have "remembered (pruned now th) x \<in> {remembered th x, live now th (remembered th x)}"
    by (simp add: pruned_def prune_remembered)
  then show ?thesis using that by (auto simp: remembered_record)
qed

lemma record_failure_frame [simp]:
  "th_window (record_failure now later key th) = th_window th" "th_max (record_failure now later key th) = th_max th"
  by (simp_all add: record_failure_def Let_def prune_remembered)

lemma reset_remembered: "remembered (reset_failures key th) x = (if x = key then [] else remembered th x)"
  by (simp add: reset_failures_def remembered_def delete_conv')

section \<open>Attempts over time\<close>

text \<open>
  The state of the route for all clients, with a ghost: \<open>attempts\<close> lists, per client, when it was let
  through to the password check since its last successful login.  Nothing reads it.
\<close>

record login_state =
  ls_throttle :: throttle
  ls_now :: rat
  attempts :: "ustr \<Rightarrow> rat list"

inductive login_step :: "login_state \<Rightarrow> login_state \<Rightarrow> bool" where
  clock: "ls_now s \<le> t \<Longrightarrow> login_step s (s\<lparr>ls_now := t\<rparr>)"
| refused: "ls_now s \<le> later \<Longrightarrow>
    login_begin (ls_now s) later latest client (ls_throttle s) = (Some (r :: unit login_result), th) \<Longrightarrow>
    login_step s (s\<lparr>ls_throttle := th\<rparr>)"
| tried: "ls_now s \<le> later \<Longrightarrow> later \<le> latest \<Longrightarrow>
    login_begin (ls_now s) later latest client (ls_throttle s) = (None :: unit login_result option, th) \<Longrightarrow>
    login_step s (s\<lparr>ls_throttle := th, ls_now := latest,
      attempts := (attempts s)(client := attempts s client @ [latest])\<rparr>)"
| finished: "login_finish jwt cfg now ids valid client (ls_throttle s) = (r :: unit login_result, th) \<Longrightarrow>
    login_step s (s\<lparr>ls_throttle := th,
      attempts := (if valid then (attempts s)(client := []) else attempts s)\<rparr>)"

inductive login_reach :: "nat \<Rightarrow> rat \<Rightarrow> login_state \<Rightarrow> bool" for max_failures :: nat and window :: rat where
  fresh: "login_reach max_failures window \<lparr>ls_throttle = new_throttle max_failures window, ls_now = t, attempts = (\<lambda>_. [])\<rparr>"
| further: "login_reach max_failures window s \<Longrightarrow> login_step s s' \<Longrightarrow> login_reach max_failures window s'"

definition within_window :: "login_state \<Rightarrow> rat list \<Rightarrow> rat list" where
  "within_window s xs = filter (\<lambda>x. fl (ls_now s - th_window (ls_throttle s)) < x) xs"

text \<open>The throttle remembers the attempts but for an outdated prefix.\<close>

definition tracks :: "rat \<Rightarrow> rat \<Rightarrow> rat list \<Rightarrow> rat list \<Rightarrow> bool" where
  "tracks now window ghost mem \<longleftrightarrow> sorted ghost \<and> (\<forall>x \<in> set ghost. x \<le> now)
     \<and> (\<exists>old. ghost = old @ mem \<and> (\<forall>x \<in> set old. x \<le> fl (now - window)))"

definition login_inv :: "nat \<Rightarrow> rat \<Rightarrow> login_state \<Rightarrow> bool" where
  "login_inv m w s \<longleftrightarrow> th_max (ls_throttle s) = m \<and> th_window (ls_throttle s) = w
     \<and> (\<forall>client. tracks (ls_now s) w (attempts s client) (remembered (ls_throttle s) client)
          \<and> length (within_window s (attempts s client)) \<le> m)"

lemma dropWhile_sorted: "sorted xs \<Longrightarrow> dropWhile (\<lambda>x. x \<le> h) xs = filter (\<lambda>x. h < x) (xs :: rat list)"
  by (induction xs) (auto intro!: filter_True [symmetric])

lemma length_filter_weaken: "(\<And>x. P x \<Longrightarrow> Q x) \<Longrightarrow> length (filter P xs) \<le> length (filter Q xs)"
  by (induction xs) (auto intro: le_SucI)

lemma tracks_later: "tracks now w ghost mem \<Longrightarrow> now \<le> t \<Longrightarrow> tracks t w ghost mem"
  unfolding tracks_def using fl_mono [of "now - w" "t - w"] by fastforce

lemma tracks_live:
  assumes "tracks now w ghost mem"
  shows "tracks now w ghost (dropWhile (\<lambda>x. x \<le> fl (now - w)) mem)"
proof -
  from assms obtain old where o: "ghost = old @ mem" "\<forall>x \<in> set old. x \<le> fl (now - w)" unfolding tracks_def by blast
  have "ghost = (old @ takeWhile (\<lambda>x. x \<le> fl (now - w)) mem) @ dropWhile (\<lambda>x. x \<le> fl (now - w)) mem" using o by simp
  moreover have "\<forall>x \<in> set (old @ takeWhile (\<lambda>x. x \<le> fl (now - w)) mem). x \<le> fl (now - w)"
    using o by (auto dest: set_takeWhileD)
  ultimately show ?thesis using assms unfolding tracks_def by blast
qed

lemma tracks_filter:
  assumes "tracks now w ghost mem"
  shows "filter (\<lambda>x. fl (now - w) < x) ghost = dropWhile (\<lambda>x. x \<le> fl (now - w)) mem"
proof -
  from assms obtain old where o: "ghost = old @ mem" "\<forall>x \<in> set old. x \<le> fl (now - w)" "sorted ghost" unfolding tracks_def by blast
  then have "filter (\<lambda>x. fl (now - w) < x) old = []" by (auto simp: not_less)
  with o show ?thesis by (simp add: dropWhile_sorted sorted_append)
qed

lemma tracks_append: "tracks now w ghost mem \<Longrightarrow> tracks now w (ghost @ [now]) (mem @ [now])"
  unfolding tracks_def by (auto simp: sorted_append)

lemma within_window_later:
  "ls_now s \<le> t \<Longrightarrow> length (within_window (s\<lparr>ls_now := t\<rparr>) xs) \<le> length (within_window s xs)"
  unfolding within_window_def using fl_mono [of "ls_now s - th_window (ls_throttle s)" "t - th_window (ls_throttle s)"]
  by (intro length_filter_weaken) auto

lemma login_begin_refused:
  assumes "login_begin now later latest client th = (Some r, th')"
  shows "th' = snd (recent now client th)"
  using assms by (auto simp: login_begin_def retry_after_def split: prod.splits option.splits if_splits)

lemma login_begin_tried:
  assumes "login_begin now later latest client th = (None, th')"
  shows "length (live now th (remembered th client)) < th_max th
    \<and> th' = record_failure later latest client (snd (recent now client th))"
proof -
  obtain fs th1 where r: "recent now client th = (fs, th1)" by fastforce
  then have "fs = live now th (remembered th client)" using recent_result [of now client th] by simp
  moreover have "th_max th1 = th_max th" using recent_frame(2) [of now client th] r by simp
  ultimately show ?thesis using r assms
    by (auto simp: login_begin_def retry_after_def split: if_splits)
qed

lemma tracks_recent:
  "tracks now (th_window th) ghost (remembered th x) \<Longrightarrow> tracks now (th_window th) ghost (remembered (snd (recent now k th)) x)"
  using tracks_live by (auto simp: remembered_recent)

lemma tracks_recorded:
  assumes "tracks later (th_window th) ghost (remembered th x)" "later \<le> latest"
  shows "tracks latest (th_window th) (if x = key then ghost @ [latest] else ghost) (remembered (record_failure later latest key th) x)"
proof (rule remembered_prune_cases [of later latest key th x])
  assume r: "remembered (record_failure later latest key th) x = remembered th x @ (if x = key then [latest] else [])"
  have "tracks latest (th_window th) ghost (remembered th x)" using assms by (rule tracks_later)
  with r show ?thesis by (auto intro: tracks_append)
next
  assume r: "remembered (record_failure later latest key th) x =
    live later th (remembered th x) @ (if x = key then [latest] else [])"
  have "tracks latest (th_window th) ghost (live later th (remembered th x))"
    using tracks_live [OF assms(1)] assms(2) by (rule tracks_later)
  with r show ?thesis by (auto intro: tracks_append)
qed

lemma login_step_inv: "login_step s s' \<Longrightarrow> login_inv m w s \<Longrightarrow> login_inv m w s'"
proof (induction rule: login_step.induct)
  case (clock s t)
  have "tracks t w (attempts s c) (remembered (ls_throttle s) c)
      \<and> length (within_window (s\<lparr>ls_now := t\<rparr>) (attempts s c)) \<le> m" for c
  proof
    show "tracks t w (attempts s c) (remembered (ls_throttle s) c)"
      using clock by (auto simp: login_inv_def intro: tracks_later)
    have "length (within_window s (attempts s c)) \<le> m" using clock.prems by (simp add: login_inv_def)
    with within_window_later [OF clock(1)] show "length (within_window (s\<lparr>ls_now := t\<rparr>) (attempts s c)) \<le> m"
      by (rule order_trans)
  qed
  then show ?case using clock by (simp add: login_inv_def)
next
  case (refused s later latest client r th)
  have th: "th = snd (recent (ls_now s) client (ls_throttle s))" using refused(2) by (rule login_begin_refused)
  have "tracks (ls_now s) w (attempts s c) (remembered th c)" for c
    using refused.prems tracks_recent [of "ls_now s" "ls_throttle s"] by (auto simp: login_inv_def th)
  moreover have "th_window (ls_throttle s) = w" using refused.prems by (simp add: login_inv_def)
  ultimately show ?case using refused.prems by (simp add: login_inv_def within_window_def th)
next
  case (tried s later latest client th)
  let ?th = "ls_throttle s"
  let ?s = "s\<lparr>ls_throttle := th, ls_now := latest, attempts := (attempts s)(client := attempts s client @ [latest])\<rparr>"
  have few: "length (live (ls_now s) ?th (remembered ?th client)) < th_max ?th"
    and th: "th = record_failure later latest client (snd (recent (ls_now s) client ?th))"
    using login_begin_tried [OF tried(3)] by auto
  have w: "th_window ?th = w" "th_max ?th = m"
    and tr: "tracks (ls_now s) w (attempts s c) (remembered ?th c)"
    and le: "length (within_window s (attempts s c)) \<le> m" for c
    using tried.prems by (auto simp: login_inv_def)
  have "tracks latest w (attempts ?s c) (remembered th c)" for c
  proof -
    have "tracks later w (attempts s c) (remembered (snd (recent (ls_now s) client ?th)) c)"
      using tracks_recent [of "ls_now s" ?th "attempts s c" c client] tr [of c] tried(1) w tracks_later by auto
    then show ?thesis
      using tracks_recorded [of later "snd (recent (ls_now s) client ?th)" "attempts s c" c latest client] tried(2) w th
      by (cases "c = client") auto
  qed
  moreover have "length (within_window ?s (attempts ?s c)) \<le> m" for c
  proof (cases "c = client")
    case True
    have later: "ls_now s \<le> latest" using tried(1,2) by simp
    have "length (within_window s (attempts s client)) < m"
      using few tracks_filter [OF tr [of client]] w by (simp add: within_window_def)
    then have "length (within_window (s\<lparr>ls_now := latest\<rparr>) (attempts s client)) < m"
      using within_window_later [OF later, of "attempts s client"] by (rule order_le_less_trans [rotated])
    then have "Suc (length (within_window ?s (attempts s client))) \<le> m"
      using th w by (simp add: within_window_def)
    moreover have "length (within_window ?s [latest]) \<le> 1" by (simp add: within_window_def)
    ultimately show ?thesis using True by (simp add: within_window_def split: if_splits)
  next
    case False
    then show ?thesis using le [of c] within_window_later [of s latest "attempts s c"] tried(1,2) th w
      by (simp add: within_window_def)
  qed
  ultimately show ?case using th w by (simp add: login_inv_def)
next
  case (finished jwt cfg now ids valid client s r th)
  have th: "th = (if valid then reset_failures client (ls_throttle s) else ls_throttle s)"
    using finished(1) by (auto simp: login_finish_def split: if_splits)
  have "tracks t w [] []" for t by (simp add: tracks_def)
  then show ?case using finished.prems
    by (auto simp: login_inv_def th reset_remembered within_window_def) (simp_all add: reset_failures_def)
qed

lemma login_reach_inv: "login_reach m w s \<Longrightarrow> login_inv m w s"
proof (induction rule: login_reach.induct)
  case (fresh t)
  then show ?case by (simp add: login_inv_def new_throttle_def remembered_def tracks_def within_window_def)
next
  case (further s s')
  then show ?case by (blast intro: login_step_inv)
qed

section \<open>Properties\<close>

text \<open>C17: However logins interleave, no client address gets more than \<open>max_failures\<close> attempts through to the
  password check in any window of time, counted since its last successful login; and an attempt is refused
  with 429 exactly when that many attempts are still in the window.\<close>
theorem guesses_are_bounded:
  assumes "login_reach max_failures window s"
  shows "length (filter (\<lambda>x. fl (ls_now s - window) < x) (attempts s client)) \<le> max_failures
    \<and> (fst (login_begin (ls_now s) later latest client (ls_throttle s)) = (None :: unit login_result option)
        \<longleftrightarrow> length (filter (\<lambda>x. fl (ls_now s - window) < x) (attempts s client)) < max_failures)"
proof -
  have inv: "login_inv max_failures window s" using assms by (rule login_reach_inv)
  then have w: "th_window (ls_throttle s) = window" "th_max (ls_throttle s) = max_failures"
    and tr: "tracks (ls_now s) window (attempts s client) (remembered (ls_throttle s) client)"
    and le: "length (within_window s (attempts s client)) \<le> max_failures"
    by (auto simp: login_inv_def)
  have "fst (login_begin (ls_now s) later latest client (ls_throttle s)) = (None :: unit login_result option)
      \<longleftrightarrow> length (live (ls_now s) (ls_throttle s) (remembered (ls_throttle s) client)) < max_failures"
    using recent_result [of "ls_now s" client "ls_throttle s"] recent_frame(2) [of "ls_now s" client "ls_throttle s"] w
    by (auto simp: login_begin_def retry_after_def split: prod.splits simp del: recent_result recent_frame)
  then show ?thesis using le tracks_filter [OF tr] w by (simp add: within_window_def)
qed

theorem guesses_are_bounded_witness:
  "fst (login_begin 0 0 0 (lit ''host'') (new_throttle 5 60)) = (None :: unit login_result option)"
  using guesses_are_bounded [OF login_reach.fresh [of 5 60 0], of "lit ''host''"] by simp

end
