(* ===== verification/Sockets.thy ===== *)
theory Sockets
  imports AuthMachine "HOL-Library.AList"
begin

text \<open>
  \<^verbatim>\<open>orchestration/pending_auth_gate.py\<close>, \<^verbatim>\<open>orchestration/session_sockets.py\<close>,
  \<^verbatim>\<open>orchestration/session_logout.py\<close> and the handshake of \<^verbatim>\<open>api/routers/ws.py\<close>.  A socket is a value
  of type \<open>'c\<close>.  The handlers run interleaved at their awaits; \<open>ws_step\<close> has one rule per stretch of
  code between two awaits.
\<close>

section \<open>The gate for unauthenticated sockets\<close>

definition MAX_PENDING_AUTH :: int where
  "MAX_PENDING_AUTH = 16"

record pending_gate =
  pg_limit :: int
  pg_pending :: int

text \<open>\<open>None\<close> stands for the \<^verbatim>\<open>ValueError\<close> of a limit below 1.\<close>

definition new_pending_gate :: "int \<Rightarrow> pending_gate option" where
  "new_pending_gate limit = (if limit < 1 then None else Some \<lparr>pg_limit = limit, pg_pending = 0\<rparr>)"

definition try_enter :: "pending_gate \<Rightarrow> bool \<times> pending_gate" where
  "try_enter g = (if pg_limit g \<le> pg_pending g then (False, g) else (True, g\<lparr>pg_pending := pg_pending g + 1\<rparr>))"

definition leave_gate :: "pending_gate \<Rightarrow> pending_gate" where
  "leave_gate g = g\<lparr>pg_pending := max 0 (pg_pending g - 1)\<rparr>"

section \<open>Open sockets by session\<close>

type_synonym 'c session_sockets = "(ustr \<times> 'c list) list"

definition sockets_of :: "'c session_sockets \<Rightarrow> ustr \<Rightarrow> 'c list" where
  "sockets_of reg sid = (case map_of reg sid of None \<Rightarrow> [] | Some cs \<Rightarrow> cs)"

definition register_socket :: "ustr \<Rightarrow> 'c \<Rightarrow> 'c session_sockets \<Rightarrow> 'c session_sockets" where
  "register_socket sid c reg = AList.update sid (List.insert c (sockets_of reg sid)) reg"

definition unregister_socket :: "ustr \<Rightarrow> 'c \<Rightarrow> 'c session_sockets \<Rightarrow> 'c session_sockets" where
  "unregister_socket sid c reg =
     (case map_of reg sid of
        None \<Rightarrow> reg
      | Some cs \<Rightarrow> (let cs = removeAll c cs in if cs = [] then AList.delete sid reg else AList.update sid cs reg))"

definition count_sockets :: "ustr option \<Rightarrow> 'c session_sockets \<Rightarrow> nat" where
  "count_sockets sid reg =
     (case sid of Some sid \<Rightarrow> length (sockets_of reg sid) | None \<Rightarrow> sum_list (map (length \<circ> snd) reg))"

text \<open>What a \<^verbatim>\<open>close\<close> does: it works, the peer is gone already, or it fails otherwise (and is logged).\<close>

datatype close_outcome = Closed | AlreadyGone | CloseFailed

fun close_sockets :: "('c \<Rightarrow> close_outcome) \<Rightarrow> 'c list \<Rightarrow> 'c list \<times> nat" where
  "close_sockets outcome [] = ([], 0)"
| "close_sockets outcome (c # cs) =
     (case close_sockets outcome cs of (asked, warnings) \<Rightarrow>
        (c # asked, (if outcome c = CloseFailed then warnings + 1 else warnings)))"

definition close_session :: "('c \<Rightarrow> close_outcome) \<Rightarrow> ustr \<Rightarrow> 'c session_sockets \<Rightarrow> nat" where
  "close_session outcome sid reg = length (fst (close_sockets outcome (sockets_of reg sid)))"

lemma close_sockets_all [simp]: "fst (close_sockets outcome cs) = cs"
  by (induction cs) (auto split: prod.splits)

text \<open>
  \<^verbatim>\<open>logout_session\<close>: the error of a failed write, or whether a session was revoked, with the store and
  the sockets it goes on to close one after the other.
\<close>

definition logout_session ::
  "'tok jwt \<Rightarrow> auth_settings \<Rightarrow> bool \<Rightarrow> instant \<Rightarrow> 'tok \<Rightarrow> revoked_store \<Rightarrow> 'c session_sockets
     \<Rightarrow> bool option \<times> revoked_store \<times> 'c list" where
  "logout_session jwt cfg write_ok now tok store reg =
     (case revoke_session jwt cfg write_ok now tok store of
        (Inl None, store) \<Rightarrow> (None, store, [])
      | (Inl (Some _), store) \<Rightarrow> (Some False, store, [])
      | (Inr sid, store) \<Rightarrow> (Some True, store, sockets_of reg sid))"

section \<open>The handshake\<close>

definition MAX_AUTH_MESSAGE_CHARS :: nat where
  "MAX_AUTH_MESSAGE_CHARS = 8192"

text \<open>The first frame: \<open>None\<close> when none came in time.\<close>

datatype frame = Disconnect | Frame "ustr option"

datatype handshake =
  Session session_claims | Disconnected | Timeout | NotText | Oversized | Malformed | InvalidAccess

text \<open>\<open>parse\<close> is the JSON parser with the model \<^verbatim>\<open>WsAuthMessage\<close>: the token of a well-formed message.\<close>

definition check_first_message ::
  "(ustr \<Rightarrow> 'tok option) \<Rightarrow> ('tok \<Rightarrow> auth_error + session_claims) \<Rightarrow> frame \<Rightarrow> handshake" where
  "check_first_message parse auth message =
     (case message of
        Disconnect \<Rightarrow> Disconnected
      | Frame None \<Rightarrow> NotText
      | Frame (Some text) \<Rightarrow>
          if MAX_AUTH_MESSAGE_CHARS < length text then Oversized
          else (case parse text of
                  None \<Rightarrow> Malformed
                | Some tok \<Rightarrow> (case auth tok of Inl _ \<Rightarrow> InvalidAccess | Inr c \<Rightarrow> Session c)))"

definition ws_authenticate ::
  "(ustr \<Rightarrow> 'tok option) \<Rightarrow> ('tok \<Rightarrow> auth_error + session_claims) \<Rightarrow> frame option \<Rightarrow> session_claims option \<times> bool" where
  "ws_authenticate parse auth message =
     (let outcome = (case message of None \<Rightarrow> Timeout | Some m \<Rightarrow> check_first_message parse auth m)
      in case outcome of
           Session c \<Rightarrow> (Some c, False)
         | Disconnected \<Rightarrow> (None, False)
         | _ \<Rightarrow> (None, True))"

section \<open>Connections over time\<close>

text \<open>A connection: not there, waiting for its first message, being refused, streaming, or over.\<close>

datatype phase = Absent | Waiting | Refusing | Streaming ustr | Over

record 'c ws_state =
  ws_auth :: auth_state
  ws_gate :: pending_gate
  ws_sockets :: "'c session_sockets"
  ws_phase :: "'c \<Rightarrow> phase"
  ws_todo :: "'c list"
  ws_asked :: "'c set"

text \<open>\<open>ws_todo\<close>: the sockets logouts in progress still have to close; \<open>ws_asked\<close>: those they have.\<close>

inductive ws_step :: "(ustr \<Rightarrow> 'tok option) \<Rightarrow> 'tok jwt \<Rightarrow> 'c ws_state \<Rightarrow> 'c ws_state \<Rightarrow> bool"
  for parse :: "ustr \<Rightarrow> 'tok option" and jwt :: "'tok jwt" where
  others: "auth_step jwt True (ws_auth s) a \<Longrightarrow> as_store a = as_store (ws_auth s) \<Longrightarrow> as_ended a = as_ended (ws_auth s) \<Longrightarrow>
    ws_step parse jwt s (s\<lparr>ws_auth := a\<rparr>)"
| admitted: "ws_phase s c = Absent \<Longrightarrow> try_enter (ws_gate s) = (True, g) \<Longrightarrow>
    ws_step parse jwt s (s\<lparr>ws_gate := g, ws_phase := (ws_phase s)(c := Waiting)\<rparr>)"
| rejected: "ws_phase s c = Absent \<Longrightarrow> try_enter (ws_gate s) = (False, g) \<Longrightarrow>
    ws_step parse jwt s (s\<lparr>ws_gate := g, ws_phase := (ws_phase s)(c := Over)\<rparr>)"
| authenticated: "ws_phase s c = Waiting \<Longrightarrow> parse msg = Some tok \<Longrightarrow>
    genuine jwt (jwt_secret (as_cfg (ws_auth s))) (as_issued (ws_auth s)) tok \<Longrightarrow>
    ws_authenticate parse (\<lambda>tok. accepts jwt (ws_auth s) tok Access) (Some (Frame (Some msg))) = (Some k, refuse) \<Longrightarrow>
    ws_step parse jwt s (s\<lparr>ws_gate := leave_gate (ws_gate s),
      ws_sockets := register_socket (sc_sid k) c (ws_sockets s),
      ws_phase := (ws_phase s)(c := Streaming (sc_sid k))\<rparr>)"
| refused: "ws_phase s c = Waiting \<Longrightarrow>
    ws_authenticate parse (\<lambda>tok. accepts jwt (ws_auth s) tok Access) message = (None, True) \<Longrightarrow>
    ws_step parse jwt s (s\<lparr>ws_phase := (ws_phase s)(c := Refusing)\<rparr>)"
| left: "ws_phase s c \<in> {Waiting, Refusing} \<Longrightarrow>
    ws_step parse jwt s (s\<lparr>ws_gate := leave_gate (ws_gate s), ws_phase := (ws_phase s)(c := Over)\<rparr>)"
| streamed: "ws_phase s c = Streaming sid \<Longrightarrow>
    ws_step parse jwt s (s\<lparr>ws_sockets := unregister_socket sid c (ws_sockets s), ws_phase := (ws_phase s)(c := Over)\<rparr>)"
| logged_out: "genuine jwt (jwt_secret (as_cfg (ws_auth s))) (as_issued (ws_auth s)) tok \<Longrightarrow>
    stamp_ok (as_now (ws_auth s) + refresh_ttl (as_cfg (ws_auth s))) \<Longrightarrow>
    logout_session jwt (as_cfg (ws_auth s)) write_ok (as_now (ws_auth s)) tok (as_store (ws_auth s)) (ws_sockets s)
      = (r, store, closing) \<Longrightarrow>
    revoke_session jwt (as_cfg (ws_auth s)) write_ok (as_now (ws_auth s)) tok (as_store (ws_auth s)) = (q, store) \<Longrightarrow>
    ws_step parse jwt s (s\<lparr>ws_auth := (ws_auth s)\<lparr>as_store := store,
        as_ended := (case q of Inl _ \<Rightarrow> as_ended (ws_auth s) | Inr sid \<Rightarrow> insert sid (as_ended (ws_auth s)))\<rparr>,
      ws_todo := ws_todo s @ closing\<rparr>)"
| closed: "ws_todo s = before @ c # after \<Longrightarrow>
    ws_step parse jwt s (s\<lparr>ws_todo := before @ after, ws_asked := insert c (ws_asked s)\<rparr>)"

definition quiet_service :: "auth_state \<Rightarrow> pending_gate \<Rightarrow> 'c ws_state" where
  "quiet_service a g = \<lparr>ws_auth = a, ws_gate = g, ws_sockets = [], ws_phase = (\<lambda>_. Absent), ws_todo = [], ws_asked = {}\<rparr>"

inductive ws_reach :: "(ustr \<Rightarrow> 'tok option) \<Rightarrow> 'tok jwt \<Rightarrow> int \<Rightarrow> 'c ws_state \<Rightarrow> bool"
  for parse :: "ustr \<Rightarrow> 'tok option" and jwt :: "'tok jwt" and limit :: int where
  started: "auth_reach jwt True a \<Longrightarrow> new_pending_gate limit = Some g \<Longrightarrow> ws_reach parse jwt limit (quiet_service a g)"
| further: "ws_reach parse jwt limit s \<Longrightarrow> ws_step parse jwt s s' \<Longrightarrow> ws_reach parse jwt limit s'"

section \<open>The invariant\<close>

definition unauthenticated :: "'c ws_state \<Rightarrow> 'c set" where
  "unauthenticated s = {c. ws_phase s c \<in> {Waiting, Refusing}}"

definition gate_inv :: "int \<Rightarrow> 'c ws_state \<Rightarrow> bool" where
  "gate_inv limit s \<longleftrightarrow> finite (unauthenticated s) \<and> pg_pending (ws_gate s) = int (card (unauthenticated s))
     \<and> pg_pending (ws_gate s) \<le> limit \<and> pg_limit (ws_gate s) = limit"

definition registry_inv :: "'c ws_state \<Rightarrow> bool" where
  "registry_inv s \<longleftrightarrow> (\<forall>sid. distinct (sockets_of (ws_sockets s) sid)
     \<and> set (sockets_of (ws_sockets s) sid) = {c. ws_phase s c = Streaming sid})"

definition closing_inv :: "'c ws_state \<Rightarrow> bool" where
  "closing_inv s \<longleftrightarrow> (\<forall>c sid. ws_phase s c = Streaming sid \<longrightarrow> sid \<in> as_ended (ws_auth s) \<longrightarrow>
     c \<in> ws_asked s \<union> set (ws_todo s))"

lemma sockets_of_register:
  "sockets_of (register_socket sid c reg) x = (if x = sid then List.insert c (sockets_of reg sid) else sockets_of reg x)"
  by (simp add: register_socket_def sockets_of_def update_conv')

lemma sockets_of_unregister:
  "sockets_of (unregister_socket sid c reg) x = (if x = sid then removeAll c (sockets_of reg sid) else sockets_of reg x)"
  by (auto simp: unregister_socket_def sockets_of_def update_conv' delete_conv' Let_def split: option.splits)

lemma unauthenticated_simps [simp]:
  "unauthenticated (s\<lparr>ws_auth := a\<rparr>) = unauthenticated s"
  "unauthenticated (s\<lparr>ws_gate := g\<rparr>) = unauthenticated s"
  "unauthenticated (s\<lparr>ws_sockets := r\<rparr>) = unauthenticated s"
  "unauthenticated (s\<lparr>ws_todo := t\<rparr>) = unauthenticated s"
  "unauthenticated (s\<lparr>ws_asked := k\<rparr>) = unauthenticated s"
  "unauthenticated (s\<lparr>ws_phase := (ws_phase s)(c := p)\<rparr>) =
     (if p \<in> {Waiting, Refusing} then insert c (unauthenticated s) else unauthenticated s - {c})"
  by (auto simp: unauthenticated_def)

lemma leave_gate_inv:
  assumes "gate_inv limit s" "c \<in> unauthenticated s" "p \<notin> {Waiting, Refusing}"
  shows "gate_inv limit (s\<lparr>ws_gate := leave_gate (ws_gate s), ws_phase := (ws_phase s)(c := p)\<rparr>)"
proof -
  have "unauthenticated (s\<lparr>ws_gate := leave_gate (ws_gate s), ws_phase := (ws_phase s)(c := p)\<rparr>) = unauthenticated s - {c}"
    using assms(3) by (auto simp: unauthenticated_def)
  moreover have "0 < card (unauthenticated s)" using assms by (auto simp: gate_inv_def card_gt_0_iff)
  ultimately show ?thesis using assms by (simp add: gate_inv_def leave_gate_def card_Diff_singleton)
qed

lemma logout_session_closing:
  assumes "logout_session jwt cfg w now tok st reg = (r, st', cs)" "revoke_session jwt cfg w now tok st = (q, st')"
  shows "cs = (case q of Inl _ \<Rightarrow> [] | Inr sid \<Rightarrow> sockets_of reg sid)"
  using assms by (auto simp: logout_session_def split: option.splits sum.splits)

lemma gate_step: "ws_step parse jwt s s' \<Longrightarrow> gate_inv limit s \<Longrightarrow> gate_inv limit s'"
proof (induction rule: ws_step.induct)
  case (admitted s c g)
  then have "c \<notin> unauthenticated s" by (simp add: unauthenticated_def)
  moreover have "unauthenticated (s\<lparr>ws_gate := g, ws_phase := (ws_phase s)(c := Waiting)\<rparr>) = insert c (unauthenticated s)"
    by (auto simp: unauthenticated_def)
  ultimately show ?case using admitted by (auto simp: gate_inv_def try_enter_def split: if_splits)
next
  case (authenticated s c msg tok k refuse)
  then have "gate_inv limit (s\<lparr>ws_gate := leave_gate (ws_gate s), ws_phase := (ws_phase s)(c := Streaming (sc_sid k))\<rparr>)"
    by (intro leave_gate_inv) (simp_all add: unauthenticated_def)
  then show ?case by (simp add: gate_inv_def unauthenticated_def)
next
  case (refused s c message)
  then have "unauthenticated (s\<lparr>ws_phase := (ws_phase s)(c := Refusing)\<rparr>) = unauthenticated s"
    by (auto simp: unauthenticated_def)
  then show ?case using refused by (simp add: gate_inv_def del: unauthenticated_simps)
next
  case (left s c)
  then show ?case by (intro leave_gate_inv) (simp_all add: unauthenticated_def)
next
  case (rejected s c g)
  then have "unauthenticated (s\<lparr>ws_gate := g, ws_phase := (ws_phase s)(c := Over)\<rparr>) = unauthenticated s"
    by (auto simp: unauthenticated_def)
  then show ?case using rejected by (auto simp: gate_inv_def try_enter_def split: if_splits)
next
  case (streamed s c sid)
  then have "unauthenticated (s\<lparr>ws_sockets := r, ws_phase := (ws_phase s)(c := Over)\<rparr>) = unauthenticated s" for r
    by (auto simp: unauthenticated_def)
  then show ?case using streamed by (simp add: gate_inv_def)
qed (simp_all add: gate_inv_def)

lemma registry_step: "ws_step parse jwt s s' \<Longrightarrow> registry_inv s \<Longrightarrow> registry_inv s'"
proof (induction rule: ws_step.induct)
  case (authenticated s c msg tok k refuse)
  then show ?case by (auto simp: registry_inv_def sockets_of_register)
next
  case (streamed s c sid)
  then show ?case by (auto simp: registry_inv_def sockets_of_unregister distinct_removeAll)
qed (auto simp: registry_inv_def)

lemma ws_auth_step: "ws_step parse jwt s s' \<Longrightarrow> auth_step jwt True (ws_auth s) (ws_auth s') \<or> ws_auth s' = ws_auth s"
  by (induction rule: ws_step.induct) (auto intro: auth_step.logout)

lemma closing_step:
  assumes "ws_step parse jwt s s'" "closing_inv s" "registry_inv s" "auth_inv (ws_auth s)"
  shows "closing_inv s'"
  using assms
proof (induction rule: ws_step.induct)
  case (authenticated s c msg tok k refuse)
  then have "accepts jwt (ws_auth s) tok Access = Inr k"
    by (auto simp: ws_authenticate_def check_first_message_def Let_def split: if_splits sum.splits)
  then have "sc_sid k \<notin> as_ended (ws_auth s)" using accepted_is_live [of "ws_auth s" jwt tok Access k] authenticated by simp
  then show ?case using authenticated.prems by (auto simp: closing_inv_def)
next
  case (logged_out s tok write_ok r store closing q)
  then show ?case using logout_session_closing [OF logged_out(3,4)]
    by (auto simp: closing_inv_def registry_inv_def split: sum.splits)
next
  case (closed s before c after)
  then show ?case by (auto simp: closing_inv_def)
qed (auto simp: closing_inv_def split: if_splits)

lemma ws_reach_inv:
  assumes "ws_reach parse jwt limit s"
  shows "gate_inv limit s \<and> registry_inv s \<and> closing_inv s \<and> auth_reach jwt True (ws_auth s)"
  using assms
proof (induction rule: ws_reach.induct)
  case (started a g)
  then show ?case
    by (auto simp: gate_inv_def registry_inv_def closing_inv_def quiet_service_def unauthenticated_def
        new_pending_gate_def sockets_of_def split: if_splits)
next
  case (further s s')
  then have "auth_reach jwt True (ws_auth s')"
    using ws_auth_step [of parse jwt s s'] auth_reach.go by metis
  then show ?case using further gate_step registry_step closing_step auth_reach_inv by blast
qed

end
