(* ===== verification/StreamProperties.thy ===== *)
theory StreamProperties
  imports Sockets AuthProperties
begin

text \<open>
  Properties of the connections of the task stream, with a sample run: one connection authenticates, its
  session is logged out and the connection is closed.
\<close>

section \<open>A sample run\<close>

abbreviation sample_token :: "claims \<times> ustr" where
  "sample_token \<equiv> (fst sample_pair, lit ''secret'')"

definition sample_gate :: pending_gate where
  "sample_gate = \<lparr>pg_limit = 16, pg_pending = 0\<rparr>"

definition connected :: "unit ws_state" where
  "connected = (quiet_service logged_in sample_gate)\<lparr>ws_gate := sample_gate\<lparr>pg_pending := 1\<rparr>, ws_phase := (\<lambda>_. Waiting)\<rparr>"

definition streaming :: "unit ws_state" where
  "streaming = connected\<lparr>ws_gate := sample_gate, ws_sockets := [(lit ''sid'', [()])], ws_phase := (\<lambda>_. Streaming (lit ''sid''))\<rparr>"

definition stream_closed :: "unit ws_state" where
  "stream_closed = streaming\<lparr>ws_auth := logged_in\<lparr>as_store :=
       snd (store_revoke True A0 (lit ''sid'') (A0 + refresh_ttl (sample_auth 30)) (as_store logged_in)), as_ended := {lit ''sid''}\<rparr>,
     ws_asked := {()}\<rparr>"

abbreviation sample_parse :: "ustr \<Rightarrow> (claims \<times> ustr) option" where
  "sample_parse \<equiv> (\<lambda>_. Some sample_token)"

lemma logged_in_simps:
  "as_cfg logged_in = sample_auth 30" "as_now logged_in = A0" "as_ended logged_in = {}"
  "as_store logged_in = \<lparr>revoked_rows = [], revoked_memory = []\<rparr>"
  by (simp_all add: logged_in_def add_issued_def first_start_def)

lemma connected_reached: "ws_reach sample_parse plain_jwt 16 connected"
proof -
  have "ws_reach sample_parse plain_jwt 16 (quiet_service logged_in sample_gate :: unit ws_state)"
    by (rule ws_reach.started [OF logged_in_reached]) (simp add: new_pending_gate_def sample_gate_def)
  moreover have "ws_step sample_parse plain_jwt (quiet_service logged_in sample_gate) connected"
    using ws_step.admitted [of "quiet_service logged_in sample_gate" "()" "sample_gate\<lparr>pg_pending := 1\<rparr>" sample_parse plain_jwt]
    by (simp add: connected_def quiet_service_def try_enter_def sample_gate_def fun_upd_def)
  ultimately show ?thesis by (rule ws_reach.further)
qed

lemma streaming_reached: "ws_reach sample_parse plain_jwt 16 streaming"
proof -
  have acc: "accepts plain_jwt logged_in sample_token Access = Inr \<lparr>sc_username = lit ''user'', sc_sid = lit ''sid''\<rparr>"
    by (simp add: accepts_def decode_token_def plain_jwt_def sample_simps store_is_revoked_def logged_in_simps)
  have "ws_step sample_parse plain_jwt connected (connected\<lparr>ws_gate := leave_gate (ws_gate connected),
      ws_sockets := register_socket (sc_sid \<lparr>sc_username = lit ''user'', sc_sid = lit ''sid''\<rparr>) () (ws_sockets connected),
      ws_phase := (ws_phase connected)(() := Streaming (sc_sid \<lparr>sc_username = lit ''user'', sc_sid = lit ''sid''\<rparr>))\<rparr>)"
  proof (rule ws_step.authenticated [where tok = sample_token and msg = "[]" and refuse = False])
    show "genuine plain_jwt (jwt_secret (as_cfg (ws_auth connected))) (as_issued (ws_auth connected)) sample_token"
      by (rule plain_jwt_genuine) (simp add: connected_def quiet_service_def logged_in_issued)
    show "ws_authenticate sample_parse (\<lambda>tok. accepts plain_jwt (ws_auth connected) tok Access) (Some (Frame (Some []))) =
        (Some \<lparr>sc_username = lit ''user'', sc_sid = lit ''sid''\<rparr>, False)"
      using acc by (simp add: ws_authenticate_def check_first_message_def connected_def quiet_service_def)
  qed (simp_all add: connected_def)
  then have "ws_step sample_parse plain_jwt connected streaming"
    by (simp add: streaming_def connected_def leave_gate_def register_socket_def sockets_of_def quiet_service_def
        sample_gate_def fun_upd_def)
  with connected_reached show ?thesis by (rule ws_reach.further)
qed

lemma stream_closed_reached: "ws_reach sample_parse plain_jwt 16 stream_closed"
proof -
  let ?tok = "(snd sample_pair, lit ''secret'')"
  define mid where "mid = stream_closed\<lparr>ws_todo := [()], ws_asked := {}\<rparr>"
  have auth: "ws_auth streaming = logged_in" by (simp add: streaming_def connected_def quiet_service_def)
  have dec: "decode_token plain_jwt (sample_auth 30) (store_is_revoked (as_store logged_in)) A0 ?tok Refresh
      = Inr \<lparr>sc_username = lit ''user'', sc_sid = lit ''sid''\<rparr>"
    by (simp add: decode_token_def plain_jwt_def sample_simps store_is_revoked_def logged_in_simps)
  have rev: "revoke_session plain_jwt (sample_auth 30) True A0 ?tok (as_store logged_in)
      = (Inr (lit ''sid''), as_store (ws_auth stream_closed))"
    using dec by (simp add: revoke_session_def stream_closed_def store_revoke_def)
  have "ws_step sample_parse plain_jwt streaming (streaming\<lparr>ws_auth := (ws_auth streaming)\<lparr>as_store := as_store (ws_auth stream_closed),
        as_ended := (case (Inr (lit ''sid'') :: auth_error option + ustr) of Inl _ \<Rightarrow> as_ended (ws_auth streaming)
          | Inr sid \<Rightarrow> insert sid (as_ended (ws_auth streaming)))\<rparr>,
      ws_todo := ws_todo streaming @ [()]\<rparr>)"
  proof (rule ws_step.logged_out)
    show "genuine plain_jwt (jwt_secret (as_cfg (ws_auth streaming))) (as_issued (ws_auth streaming)) ?tok"
      by (rule plain_jwt_genuine) (simp add: auth logged_in_issued)
    show "stamp_ok (as_now (ws_auth streaming) + refresh_ttl (as_cfg (ws_auth streaming)))"
      by (simp add: auth logged_in_simps, rule sample_fits) (simp_all add: sample_simps)
    show "revoke_session plain_jwt (as_cfg (ws_auth streaming)) True (as_now (ws_auth streaming)) ?tok (as_store (ws_auth streaming))
        = (Inr (lit ''sid''), as_store (ws_auth stream_closed))"
      using rev by (simp add: auth logged_in_simps)
    then show "logout_session plain_jwt (as_cfg (ws_auth streaming)) True (as_now (ws_auth streaming)) ?tok (as_store (ws_auth streaming))
        (ws_sockets streaming) = (Some True, as_store (ws_auth stream_closed), [()])"
      by (simp add: logout_session_def) (simp add: streaming_def sockets_of_def)
  qed
  then have "ws_step sample_parse plain_jwt streaming mid"
    by (simp add: mid_def stream_closed_def streaming_def connected_def quiet_service_def logged_in_simps)
  with streaming_reached have "ws_reach sample_parse plain_jwt 16 mid" by (rule ws_reach.further)
  moreover have "ws_step sample_parse plain_jwt mid stream_closed"
    using ws_step.closed [of mid "[]" "()" "[]" sample_parse plain_jwt]
    by (simp add: mid_def stream_closed_def streaming_def connected_def quiet_service_def)
  ultimately show ?thesis by (rule ws_reach.further)
qed

section \<open>Properties\<close>

text \<open>C19: However connections come, authenticate, fail and go, the gate counts exactly the connections that have not
  authenticated yet, never more than its limit, a further one is refused exactly when the limit is reached, and
  the registry lists exactly the streaming connections of each session.\<close>
theorem sockets_accounted:
  assumes "ws_reach parse jwt limit s"
  shows "pg_pending (ws_gate s) = int (card (unauthenticated s)) \<and> card (unauthenticated s) \<le> nat limit
    \<and> (fst (try_enter (ws_gate s)) \<longleftrightarrow> int (card (unauthenticated s)) < limit)
    \<and> set (sockets_of (ws_sockets s) sid) = {c. ws_phase s c = Streaming sid}
    \<and> count_sockets (Some sid) (ws_sockets s) = card {c. ws_phase s c = Streaming sid}"
proof -
  have g: "gate_inv limit s" and r: "registry_inv s" using ws_reach_inv [OF assms] by auto
  have "count_sockets (Some sid) (ws_sockets s) = card (set (sockets_of (ws_sockets s) sid))"
    using r by (simp add: count_sockets_def registry_inv_def distinct_card [symmetric])
  then show ?thesis using g r by (auto simp: gate_inv_def registry_inv_def try_enter_def)
qed

theorem sockets_accounted_witness:
  "pg_pending (ws_gate connected) = 1 \<and> fst (try_enter (ws_gate connected))
     \<and> count_sockets (Some (lit ''sid'')) (ws_sockets streaming) = 1"
  using sockets_accounted [OF connected_reached] sockets_accounted [OF streaming_reached, of "lit ''sid''"]
  by (simp add: connected_def streaming_def unauthenticated_def)

text \<open>C18: A logout ends the streams of its session: once the logouts under way have closed what they found, every
  connection still streaming for an ended session has been asked to close, also one that was
  authenticating while the logout ran.\<close>
theorem logout_closes_streams:
  assumes "ws_reach parse jwt limit s" and "ws_todo s = []"
    and "sid \<in> as_ended (ws_auth s)" and "ws_phase s c = Streaming sid"
  shows "c \<in> ws_asked s"
  using ws_reach_inv [OF assms(1)] assms(2-4) by (auto simp: closing_inv_def)

theorem logout_closes_streams_witness: "() \<in> ws_asked stream_closed"
  using logout_closes_streams [OF stream_closed_reached, of "lit ''sid''" "()"]
  by (simp add: stream_closed_def streaming_def connected_def quiet_service_def)

end
