(* ===== verification/Furigana.thy ===== *)
theory Furigana
  imports Content
begin

text \<open>
  \<^verbatim>\<open>services/furigana.py\<close>: the parser of furigana markup.  The two regular expressions are matched by
  hand: the classes of their repetitions exclude the character that follows, so the longest run is the only
  candidate and there is nothing to backtrack into.
\<close>

section \<open>Tags\<close>

text \<open>\<^verbatim>\<open>(<[^>]*>)\<close> at the front of a text: the tag and the rest.\<close>

definition tag_at :: "ustr \<Rightarrow> (ustr \<times> ustr) option" where
  "tag_at xs =
     (case xs of
        [] \<Rightarrow> None
      | x # ys \<Rightarrow>
          if x \<noteq> 60 then None
          else (case dropWhile (\<lambda>c. c \<noteq> 62) ys of
                  [] \<Rightarrow> None
                | _ # rest \<Rightarrow> Some (60 # takeWhile (\<lambda>c. c \<noteq> 62) ys @ [62], rest)))"

lemma length_dropWhile_Cons: "dropWhile P ys = z # zs \<Longrightarrow> length zs < length ys"
  using length_dropWhile_le [of P ys] by simp

lemma tag_at_shorter: "tag_at (x # ys) = Some (t, rest) \<Longrightarrow> length rest < Suc (length ys)"
  by (auto simp: tag_at_def dest!: length_dropWhile_Cons split: if_splits list.splits)

text \<open>\<^verbatim>\<open>_TAG.split(text)\<close>: texts and tags in turn; \<open>acc\<close> is the current text, reversed.\<close>

function split_tags :: "ustr \<Rightarrow> ustr \<Rightarrow> ustr list" where
  "split_tags acc [] = [rev acc]"
| "split_tags acc (x # xs) =
     (case tag_at (x # xs) of
        Some (tag, rest) \<Rightarrow> rev acc # tag # split_tags [] rest
      | None \<Rightarrow> split_tags (x # acc) xs)"
  by pat_completeness auto

termination
  by (relation "measure (\<lambda>(acc, xs). length xs)") (auto dest: tag_at_shorter)

section \<open>Rubies\<close>

definition base_char :: "nat \<Rightarrow> bool" where
  "base_char c \<longleftrightarrow> \<not> is_space c \<and> c \<noteq> 91 \<and> c \<noteq> 93"

text \<open>\<^verbatim>\<open>([^\s\[\]]+)\[([^\]]+)\]\<close> at the front: base, reading and the rest.\<close>

definition ruby_body :: "ustr \<Rightarrow> (ustr \<times> ustr \<times> ustr) option" where
  "ruby_body xs =
     (let base = takeWhile base_char xs in
      if base = [] then None
      else (case dropWhile base_char xs of
              [] \<Rightarrow> None
            | c # ys \<Rightarrow>
                if c \<noteq> 91 then None
                else (let rdg = takeWhile (\<lambda>c. c \<noteq> 93) ys in
                      if rdg = [] then None
                      else (case dropWhile (\<lambda>c. c \<noteq> 93) ys of [] \<Rightarrow> None | _ # rest \<Rightarrow> Some (base, rdg, rest)))))"

text \<open>With \<^verbatim>\<open>(?:^|\s|(?<=]))\<close> in front; \<open>prev\<close> is the character before, none at the start of the chunk.\<close>

definition ruby_at :: "nat option \<Rightarrow> ustr \<Rightarrow> (ustr \<times> ustr \<times> ustr) option" where
  "ruby_at prev xs =
     (case (if prev = None then ruby_body xs else None) of
        Some m \<Rightarrow> Some m
      | None \<Rightarrow>
          (case (case xs of c # ys \<Rightarrow> if is_space c then ruby_body ys else None | [] \<Rightarrow> None) of
             Some m \<Rightarrow> Some m
           | None \<Rightarrow> if prev = Some 93 then ruby_body xs else None))"

lemma ruby_body_shorter: "ruby_body xs = Some (b, r, rest) \<Longrightarrow> length rest < length xs"
proof -
  assume a: "ruby_body xs = Some (b, r, rest)"
  then obtain c ys z where "dropWhile base_char xs = c # ys" "dropWhile (\<lambda>c. c \<noteq> 93) ys = z # rest"
    by (auto simp: ruby_body_def Let_def split: if_splits list.splits)
  then show ?thesis by (auto dest!: length_dropWhile_Cons)
qed

lemma ruby_at_shorter: "ruby_at prev (x # xs) = Some (b, r, rest) \<Longrightarrow> length rest < Suc (length xs)"
  using ruby_body_shorter [of "x # xs" b r rest] ruby_body_shorter [of xs b r rest]
  by (auto simp: ruby_at_def split: if_splits option.splits)

definition plain_segment :: "bool \<Rightarrow> ustr \<Rightarrow> ruby_segment list" where
  "plain_segment highlighted s =
     (if s = [] then [] else [\<lparr>seg_base = s, seg_reading = None, seg_highlighted = highlighted\<rparr>])"

text \<open>\<^verbatim>\<open>_parse_chunk\<close>: the text since the last match is \<open>acc\<close>, reversed.\<close>

function chunk_loop :: "bool \<Rightarrow> nat option \<Rightarrow> ustr \<Rightarrow> ustr \<Rightarrow> ruby_segment list" where
  "chunk_loop highlighted prev acc [] = plain_segment highlighted (rev acc)"
| "chunk_loop highlighted prev acc (x # xs) =
     (case ruby_at prev (x # xs) of
        Some (base, rdg, rest) \<Rightarrow>
          plain_segment highlighted (rev acc)
          @ [\<lparr>seg_base = base, seg_reading = Some rdg, seg_highlighted = highlighted\<rparr>]
          @ chunk_loop highlighted (Some 93) [] rest
      | None \<Rightarrow> chunk_loop highlighted (Some x) (x # acc) xs)"
  by pat_completeness auto

termination
  by (relation "measure (\<lambda>(h, p, acc, xs). length xs)") (auto dest: ruby_at_shorter)

declare chunk_loop.simps(2) [simp del]

definition parse_chunk :: "ustr \<Rightarrow> bool \<Rightarrow> ruby_segment list" where
  "parse_chunk chunk highlighted = chunk_loop highlighted None [] chunk"

section \<open>The parser\<close>

definition is_tag :: "ustr \<Rightarrow> bool" where
  "is_tag part \<longleftrightarrow> (case tag_at part of Some (_, []) \<Rightarrow> True | _ \<Rightarrow> False)"

fun parse_parts :: "bool \<Rightarrow> ustr list \<Rightarrow> ruby_segment list" where
  "parse_parts highlighted [] = []"
| "parse_parts highlighted (part # parts) =
     (if part = lit ''<mark>'' then parse_parts True parts
      else if part = lit ''</mark>'' then parse_parts False parts
      else if part = [] \<or> is_tag part then parse_parts highlighted parts
      else parse_chunk part highlighted @ parse_parts highlighted parts)"

definition parse_furigana :: "ustr \<Rightarrow> ruby_segment list" where
  "parse_furigana s = parse_parts False (split_tags [] s)"

definition plain_reading :: "ruby_segment list \<Rightarrow> ustr" where
  "plain_reading segs = concat (map (\<lambda>s.
     case seg_reading s of None \<Rightarrow> seg_base s | Some r \<Rightarrow> if r = [] then seg_base s else r) segs)"

definition plain_text :: "ruby_segment list \<Rightarrow> ustr" where
  "plain_text segs = concat (map seg_base segs)"

section \<open>Markup for segments\<close>

definition chunk_markup :: "ruby_segment \<Rightarrow> ustr" where
  "chunk_markup s = (case seg_reading s of None \<Rightarrow> seg_base s | Some r \<Rightarrow> 32 # seg_base s @ 91 # r @ [93])"

definition markup :: "ruby_segment list \<Rightarrow> ustr" where
  "markup segs = concat (map (\<lambda>s.
     if seg_highlighted s then lit ''<mark>'' @ chunk_markup s @ lit ''</mark>'' else chunk_markup s) segs)"

definition expressible :: "ruby_segment \<Rightarrow> bool" where
  "expressible s \<longleftrightarrow> seg_base s \<noteq> [] \<and> 60 \<notin> set (seg_base s) \<and>
     (case seg_reading s of
        None \<Rightarrow> 91 \<notin> set (seg_base s)
      | Some r \<Rightarrow> (\<forall>c \<in> set (seg_base s). base_char c) \<and> r \<noteq> [] \<and> 93 \<notin> set r \<and> 60 \<notin> set r)"

text \<open>Two plain segments side by side, neither highlighted, are one.\<close>

fun separated :: "ruby_segment list \<Rightarrow> bool" where
  "separated (s # t # segs) \<longleftrightarrow>
     \<not> (seg_reading s = None \<and> seg_reading t = None \<and> \<not> seg_highlighted s \<and> \<not> seg_highlighted t) \<and> separated (t # segs)"
| "separated segs \<longleftrightarrow> True"

lemma ruby_body_plain:
  assumes "91 \<notin> set base" "rest = [] \<or> hd rest = 32"
  shows "ruby_body (base @ rest) = None"
proof (cases "\<forall>c \<in> set base. base_char c")
  case True
  have "\<not> base_char 32" by (simp add: base_char_def is_space_def)
  then have "dropWhile base_char (base @ rest) = rest" using True assms(2) by (cases rest) auto
  moreover have "dropWhile base_char base = []" using True by simp
  ultimately show ?thesis using assms(2)
    by (cases rest) (auto simp: ruby_body_def Let_def simp del: dropWhile_eq_Nil_conv)
next
  case False
  then obtain c ys where d: "dropWhile base_char base = c # ys"
    by (metis dropWhile_eq_Nil_conv neq_Nil_conv)
  then have "c \<in> set base" by (metis list.set_intros(1) set_dropWhileD)
  with assms have "c \<noteq> 91" by blast
  moreover have "dropWhile base_char (base @ rest) = c # ys @ rest"
    using d False by (metis append_Cons dropWhile_append1)
  ultimately show ?thesis by (simp add: ruby_body_def Let_def)
qed

lemma ruby_body_ruby:
  assumes "base \<noteq> []" "\<forall>c \<in> set base. base_char c" "r \<noteq> []" "93 \<notin> set r"
  shows "ruby_body (base @ 91 # r @ 93 # rest) = Some (base, r, rest)"
proof -
  have n: "\<not> base_char 91" by (simp add: base_char_def)
  have "takeWhile base_char (base @ 91 # r @ 93 # rest) = base" "dropWhile base_char (base @ 91 # r @ 93 # rest) = 91 # r @ 93 # rest"
    using assms(2) n by (simp_all add: takeWhile_append2 dropWhile_append2)
  moreover have "takeWhile (\<lambda>c. c \<noteq> 93) (r @ 93 # rest) = r" "dropWhile (\<lambda>c. c \<noteq> 93) (r @ 93 # rest) = 93 # rest"
    using assms(4) by (induction r) auto
  ultimately show ?thesis using assms(1,3) by (simp add: ruby_body_def Let_def)
qed

lemma ruby_at_plain:
  assumes "91 \<notin> set base" "base \<noteq> []" "rest = [] \<or> hd rest = 32"
  shows "ruby_at prev (base @ rest) = None"
proof -
  obtain c cs where b: "base = c # cs" using assms(2) by (cases base) auto
  have "ruby_body (c # cs @ rest) = None" "ruby_body (cs @ rest) = None"
    using assms ruby_body_plain [of base rest] ruby_body_plain [of cs rest] by (simp_all add: b)
  then show ?thesis by (simp add: ruby_at_def b)
qed

lemma chunk_plain:
  assumes "91 \<notin> set base" "rest = [] \<or> hd rest = 32"
  shows "chunk_loop h prev acc (base @ rest) =
    chunk_loop h (if base = [] then prev else Some (last base)) (rev base @ acc) rest"
  using assms(1)
proof (induction base arbitrary: prev acc)
  case (Cons x xs)
  have "ruby_at prev (x # xs @ rest) = None" using ruby_at_plain [of "x # xs" rest prev] Cons.prems assms(2) by simp
  then show ?case using Cons by (simp add: chunk_loop.simps(2))
qed simp

lemma chunk_ruby:
  assumes "base \<noteq> []" "\<forall>c \<in> set base. base_char c" "r \<noteq> []" "93 \<notin> set r"
  shows "chunk_loop h prev acc (32 # base @ 91 # r @ 93 # rest) =
    plain_segment h (rev acc) @ \<lparr>seg_base = base, seg_reading = Some r, seg_highlighted = h\<rparr> # chunk_loop h (Some 93) [] rest"
proof -
  have "ruby_body (32 # zs) = None" for zs by (simp add: ruby_body_def base_char_def is_space_def)
  then have "ruby_at prev (32 # base @ 91 # r @ 93 # rest) = Some (base, r, rest)"
    using ruby_body_ruby [OF assms] by (simp add: ruby_at_def is_space_def)
  then show ?thesis by (simp add: chunk_loop.simps(2))
qed

lemma hd_chunk_markup: "\<forall>s \<in> set us. expressible s \<Longrightarrow> us \<noteq> [] \<Longrightarrow> seg_reading (hd us) \<noteq> None \<Longrightarrow>
    hd (concat (map chunk_markup us)) = 32"
  by (cases us) (auto simp: chunk_markup_def)

lemma chunk_markup_parses:
  assumes "\<forall>s \<in> set us. expressible s \<and> seg_highlighted s = h" "us = [s] \<or> separated us \<and> \<not> h"
  shows "chunk_loop h prev [] (concat (map chunk_markup us)) = us"
  using assms
proof (induction us arbitrary: prev s)
  case (Cons u us)
  have rest: "chunk_loop h p [] (concat (map chunk_markup us)) = us" for p
  proof (cases us)
    case (Cons v vs)
    then have "separated us" using Cons.prems by (cases vs) auto
    then show ?thesis using Cons.prems Cons.IH Cons by auto
  qed (simp add: plain_segment_def)
  have e: "expressible u" and hl: "seg_highlighted u = h" using Cons.prems by auto
  show ?case
  proof (cases "seg_reading u")
    case (Some r)
    then have "chunk_markup u = 32 # seg_base u @ 91 # r @ [93]" by (simp add: chunk_markup_def)
    then show ?thesis
      using e hl Some rest chunk_ruby [of "seg_base u" r h prev "[]" "concat (map chunk_markup us)"]
      by (cases u) (auto simp: expressible_def plain_segment_def)
  next
    case None
    have b: "91 \<notin> set (seg_base u)" "seg_base u \<noteq> []" using e None by (auto simp: expressible_def)
    have u: "plain_segment h (seg_base u) = [u]" using b hl None by (cases u) (simp add: plain_segment_def)
    show ?thesis
    proof (cases us)
      case Nil
      then show ?thesis using b u None chunk_plain [of "seg_base u" "[]" h prev "[]"] by (simp add: chunk_markup_def)
    next
      case (Cons v vs)
      then have "seg_reading v \<noteq> None" "expressible v" "seg_highlighted v = h" using Cons.prems None by auto
      then obtain r where r: "seg_reading v = Some r" "r \<noteq> []" "93 \<notin> set r" "\<forall>c \<in> set (seg_base v). base_char c" "seg_base v \<noteq> []"
        by (auto simp: expressible_def)
      let ?tail = "concat (map chunk_markup vs)"
      have m: "concat (map chunk_markup us) = 32 # seg_base v @ 91 # r @ 93 # ?tail" using r(1) Cons by (simp add: chunk_markup_def)
      have "chunk_loop h None [] (concat (map chunk_markup us)) = us" by (rule rest)
      then have v: "\<lparr>seg_base = seg_base v, seg_reading = Some r, seg_highlighted = h\<rparr> # chunk_loop h (Some 93) [] ?tail = us"
        using chunk_ruby [of "seg_base v" r h None "[]" ?tail] r m by (simp add: plain_segment_def)
      have "chunk_loop h prev [] (seg_base u @ concat (map chunk_markup us))
          = chunk_loop h (Some (last (seg_base u))) (rev (seg_base u)) (concat (map chunk_markup us))"
        using chunk_plain [of "seg_base u" "concat (map chunk_markup us)" h prev "[]"] b m by simp
      also have "\<dots> = plain_segment h (seg_base u) @ us"
        unfolding m using chunk_ruby [of "seg_base v" r h _ "rev (seg_base u)" ?tail] r v by simp
      finally have "chunk_loop h prev [] (seg_base u @ concat (map chunk_markup us)) = u # us" using u by simp
      moreover have "chunk_markup u = seg_base u" using None by (simp add: chunk_markup_def)
      ultimately show ?thesis by simp
    qed
  qed
qed (simp add: plain_segment_def)

lemma tag_at_no_tag: "60 \<notin> set xs \<Longrightarrow> tag_at xs = None"
  by (cases xs) (auto simp: tag_at_def)

lemma split_tags_plain: "60 \<notin> set xs \<Longrightarrow> split_tags acc xs = [rev acc @ xs]"
proof (induction xs arbitrary: acc)
  case (Cons x xs)
  then show ?case using tag_at_no_tag [of "x # xs"] by simp
qed simp

lemma tag_at_tag: "62 \<notin> set body \<Longrightarrow> tag_at (60 # body @ 62 # rest) = Some (60 # body @ [62], rest)"
proof -
  assume b: "62 \<notin> set body"
  have "takeWhile (\<lambda>c. c \<noteq> 62) (body @ 62 # rest) = body" "dropWhile (\<lambda>c. c \<noteq> 62) (body @ 62 # rest) = 62 # rest"
    using b by (induction body) auto
  then show ?thesis by (simp add: tag_at_def)
qed

lemma split_tags_before:
  "60 \<notin> set xs \<Longrightarrow> 62 \<notin> set body \<Longrightarrow>
     split_tags acc (xs @ 60 # body @ 62 # rest) = (rev acc @ xs) # (60 # body @ [62]) # split_tags [] rest"
proof (induction xs arbitrary: acc)
  case Nil
  then show ?case using tag_at_tag [of body rest] by simp
next
  case (Cons x xs)
  then have "tag_at (x # xs @ 60 # body @ 62 # rest) = None" by (simp add: tag_at_def)
  then show ?case using Cons by simp
qed

lemma mark_tag: "lit ''<mark>'' = 60 # lit ''mark'' @ [62]" "lit ''</mark>'' = 60 # lit ''/mark'' @ [62]"
  by (simp_all add: lit_def)

lemma mark_body: "62 \<notin> set (lit ''mark'')" "62 \<notin> set (lit ''/mark'')"
  by (simp_all add: lit_def)

lemma split_tags_mark: "60 \<notin> set xs \<Longrightarrow> split_tags [] (xs @ lit ''<mark>'' @ rest) = xs # lit ''<mark>'' # split_tags [] rest"
  using split_tags_before [OF _ mark_body(1), of xs "[]" rest] by (simp add: mark_tag)

lemma split_tags_unmark: "60 \<notin> set xs \<Longrightarrow> split_tags [] (xs @ lit ''</mark>'' @ rest) = xs # lit ''</mark>'' # split_tags [] rest"
  using split_tags_before [OF _ mark_body(2), of xs "[]" rest] by (simp add: mark_tag)

lemma chunk_markup_no_tag: "expressible s \<Longrightarrow> 60 \<notin> set (chunk_markup s)"
  by (auto simp: expressible_def chunk_markup_def split: option.splits)

lemma chunk_markup_not_Nil: "expressible s \<Longrightarrow> chunk_markup s \<noteq> []"
  by (auto simp: expressible_def chunk_markup_def split: option.splits)

lemma parse_parts_text:
  assumes "60 \<notin> set xs"
  shows "parse_parts h (xs # parts) = (if xs = [] then [] else parse_chunk xs h) @ parse_parts h parts"
proof -
  have "xs \<noteq> lit ''<mark>''" "xs \<noteq> lit ''</mark>''" "\<not> is_tag xs"
    using assms tag_at_no_tag [OF assms] by (auto simp: mark_tag is_tag_def)
  then show ?thesis by simp
qed

lemma parse_parts_marks [simp]:
  "parse_parts h (lit ''<mark>'' # parts) = parse_parts True parts"
  "parse_parts h (lit ''</mark>'' # parts) = parse_parts False parts"
  by (simp_all add: lit_def)

lemma separated_append: "separated (xs @ ys) \<Longrightarrow> separated xs \<and> separated ys"
proof (induction xs)
  case (Cons x xs)
  then show ?case by (cases xs; cases ys) auto
qed simp

lemma plain_run_parses:
  assumes "\<forall>s \<in> set us. expressible s \<and> \<not> seg_highlighted s" "separated us"
  shows "(if concat (map chunk_markup us) = [] then [] else parse_chunk (concat (map chunk_markup us)) False) = us"
proof (cases us)
  case (Cons u vs)
  then show ?thesis using assms chunk_markup_not_Nil [of u] chunk_markup_parses [of us False]
    by (auto simp: parse_chunk_def)
qed simp

lemma markup_plain: "\<forall>s \<in> set us. \<not> seg_highlighted s \<Longrightarrow> markup us = concat (map chunk_markup us)"
  by (induction us) (auto simp: markup_def)

lemma parse_markup:
  "\<forall>s \<in> set segs. expressible s \<Longrightarrow> separated segs \<Longrightarrow> parse_parts False (split_tags [] (markup segs)) = segs"
proof (induction "length segs" arbitrary: segs rule: less_induct)
  case less
  define us where "us = takeWhile (\<lambda>s. \<not> seg_highlighted s) segs"
  define vs where "vs = dropWhile (\<lambda>s. \<not> seg_highlighted s) segs"
  have segs: "segs = us @ vs" by (simp add: us_def vs_def)
  have us: "\<forall>s \<in> set us. expressible s \<and> \<not> seg_highlighted s" using less.prems by (auto simp: us_def dest: set_takeWhileD)
  have m: "markup us = concat (map chunk_markup us)" using us by (simp add: markup_plain)
  have no: "60 \<notin> set (markup us)" using us chunk_markup_no_tag by (auto simp: m)
  have run: "(if markup us = [] then [] else parse_chunk (markup us) False) = us"
    unfolding m using us separated_append [of us vs] less.prems(2) segs by (intro plain_run_parses) auto
  show ?case
  proof (cases vs)
    case Nil
    then show ?thesis using segs run no parse_parts_text [OF no, of False "[]"] by (simp add: split_tags_plain)
  next
    case (Cons h ws)
    then have h: "seg_highlighted h" by (metis vs_def hd_dropWhile list.sel(1) list.distinct(1))
    have e: "expressible h" and ws: "\<forall>s \<in> set ws. expressible s" using less.prems(1) segs Cons by auto
    have sep: "separated ws" using separated_append [of "us @ [h]" ws] less.prems(2) segs Cons by simp
    have "parse_parts False (split_tags [] (markup ws)) = ws"
      using less.hyps [of ws] ws sep segs Cons by simp
    moreover have "parse_chunk (chunk_markup h) True = [h]"
      using chunk_markup_parses [of "[h]" True h None] e h by (simp add: parse_chunk_def)
    moreover have "markup segs = markup us @ lit ''<mark>'' @ chunk_markup h @ lit ''</mark>'' @ markup ws"
      using segs Cons h by (simp add: markup_def)
    then have "split_tags [] (markup segs) =
        markup us # lit ''<mark>'' # chunk_markup h # lit ''</mark>'' # split_tags [] (markup ws)"
      using split_tags_mark [OF no] split_tags_unmark [OF chunk_markup_no_tag [OF e]] by simp
    ultimately show ?thesis
      using run no segs Cons parse_parts_text [OF no, of False] chunk_markup_not_Nil [OF e]
        parse_parts_text [OF chunk_markup_no_tag [OF e], of True]
      by simp
  qed
qed

section \<open>Properties\<close>

text \<open>C25: Furigana markup reads back: writing segments as markup (a space before each ruby, \<^verbatim>\<open>mark\<close> tags around
  highlighted ones) and parsing it gives the same segments, so their reading and their text too.\<close>
theorem furigana_reads_back:
  assumes "\<forall>s \<in> set segs. expressible s" and "separated segs"
  shows "parse_furigana (markup segs) = segs
    \<and> plain_text (parse_furigana (markup segs)) = concat (map seg_base segs)"
  using parse_markup [OF assms] by (simp add: parse_furigana_def plain_text_def)

theorem furigana_reads_back_witness:
  "parse_furigana (lit '' a[b]c'') =
     [\<lparr>seg_base = lit ''a'', seg_reading = Some (lit ''b''), seg_highlighted = False\<rparr>,
      \<lparr>seg_base = lit ''c'', seg_reading = None, seg_highlighted = False\<rparr>]"
  using furigana_reads_back [of "[\<lparr>seg_base = lit ''a'', seg_reading = Some (lit ''b''), seg_highlighted = False\<rparr>,
      \<lparr>seg_base = lit ''c'', seg_reading = None, seg_highlighted = False\<rparr>]"]
  by (simp add: expressible_def markup_def chunk_markup_def lit_def base_char_def is_space_def)

end
