(* ===== verification/DeckImport.thy ===== *)
theory DeckImport
  imports Furigana
begin

text \<open>
  \<^verbatim>\<open>services/anki_importer.py\<close>: the vocabulary deck.  The zip archive, the SQLite collection and its JSON
  column are given as what reading them yields; every error the importer raises is a value.
\<close>

section \<open>The deck file\<close>

definition REQUIRED_FIELDS :: "ustr list" where
  "REQUIRED_FIELDS = [lit ''Expression'', lit ''English definition'', lit ''Reading'']"

definition COLLECTION_MEMBERS :: "ustr list" where
  "COLLECTION_MEMBERS = [lit ''collection.anki21'', lit ''collection.anki2'']"

definition FIELD_SEPARATOR :: nat where
  "FIELD_SEPARATOR = 31"

text \<open>
  A collection: the note types with their fields (name and position), and the rows of the notes table by id
  (fields, tags); \<open>None\<close> where reading raises one of the errors the importer turns into a malformed deck.
\<close>

record collection =
  note_types :: "(ustr \<times> int) list list option"
  note_rows :: "(ustr \<times> ustr) list option"

text \<open>A file: its digest, and its members unless it is no zip archive.\<close>

record deck_file =
  file_digest :: ustr
  file_archive :: "(ustr \<times> collection) list option"

datatype import_error =
  DeckMissing | DeckIntegrity | BadArchive | NoCollection | MalformedCollection
  | NoteTypeCount nat | MissingFields "ustr list" | FieldCount nat nat
  | JlptTagCount ustr nat | DuplicateContentId ustr

definition read_collection :: "(ustr \<times> collection) list \<Rightarrow> import_error + collection" where
  "read_collection archive =
     (case find (\<lambda>m. m \<in> set (map fst archive)) COLLECTION_MEMBERS of
        None \<Rightarrow> Inl NoCollection
      | Some m \<Rightarrow> (case map_of archive m of None \<Rightarrow> Inl NoCollection | Some c \<Rightarrow> Inr c))"

text \<open>A note: its fields by name and its tags.\<close>

type_synonym deck_note = "(ustr \<Rightarrow> ustr option) \<times> ustr list"

fun read_rows :: "ustr list \<Rightarrow> (ustr \<times> ustr) list \<Rightarrow> import_error + deck_note list" where
  "read_rows names [] = Inr []"
| "read_rows names ((flds, tgs) # rows) =
     (let values = split_on FIELD_SEPARATOR flds in
      if length values \<noteq> length names then Inl (FieldCount (length values) (length names))
      else and_then (read_rows names rows) (\<lambda>entries.
        Inr ((map_of (rev (zip names values)), split_space tgs) # entries)))"

definition read_notes :: "collection \<Rightarrow> import_error + deck_note list" where
  "read_notes col =
     (case note_types col of
        None \<Rightarrow> Inl MalformedCollection
      | Some types \<Rightarrow>
          if length types \<noteq> 1 then Inl (NoteTypeCount (length types))
          else let names = map fst (sort_key snd (hd types));
                   missing = filter (\<lambda>n. n \<notin> set names) REQUIRED_FIELDS
               in if missing \<noteq> [] then Inl (MissingFields missing)
                  else (case note_rows col of None \<Rightarrow> Inl MalformedCollection | Some rows \<Rightarrow> read_rows names rows))"

section \<open>The checksum\<close>

text \<open>\<^verbatim>\<open>sha256_of\<close> over the bytes of the file: \<^verbatim>\<open>hashlib\<close> is its empty digest, the update and the rendering.\<close>

definition READ_BLOCK :: nat where
  "READ_BLOCK = 2 ^ 20"

function hash_blocks :: "('d \<Rightarrow> nat list \<Rightarrow> 'd) \<Rightarrow> 'd \<Rightarrow> nat list \<Rightarrow> 'd" where
  "hash_blocks update d bytes =
     (if bytes = [] then d else hash_blocks update (update d (take READ_BLOCK bytes)) (drop READ_BLOCK bytes))"
  by pat_completeness auto

termination
  by (relation "measure (\<lambda>(_, _, bytes). length bytes)") (auto simp: READ_BLOCK_def)

declare hash_blocks.simps [simp del]

definition sha256_of :: "'d \<Rightarrow> ('d \<Rightarrow> nat list \<Rightarrow> 'd) \<Rightarrow> ('d \<Rightarrow> ustr) \<Rightarrow> nat list \<Rightarrow> ustr" where
  "sha256_of empty_digest update hexdigest bytes = hexdigest (hash_blocks update empty_digest bytes)"

text \<open>Reading in blocks gives the digest of the whole file, as \<^verbatim>\<open>hashlib\<close> documents of repeated updates.\<close>

lemma hash_blocks_whole:
  assumes "\<And>d xs ys. update (update d xs) ys = update d (xs @ ys)" and "\<And>d. update d [] = d"
  shows "hash_blocks update d bytes = update d bytes"
proof (induction "length bytes" arbitrary: d bytes rule: less_induct)
  case less
  show ?case
  proof (cases "bytes = []")
    case False
    then have "length (drop READ_BLOCK bytes) < length bytes" by (simp add: READ_BLOCK_def)
    then have "hash_blocks update (update d (take READ_BLOCK bytes)) (drop READ_BLOCK bytes)
        = update (update d (take READ_BLOCK bytes)) (drop READ_BLOCK bytes)" by (rule less)
    then show ?thesis using False assms(1) by (subst hash_blocks.simps) simp
  qed (subst hash_blocks.simps, simp add: assms(2))
qed

lemma sha256_of_whole:
  assumes "\<And>d xs ys. update (update d xs) ys = update d (xs @ ys)" and "\<And>d. update d [] = d"
  shows "sha256_of empty_digest update hexdigest bytes = hexdigest (update empty_digest bytes)"
  by (simp add: sha256_of_def hash_blocks_whole [OF assms])

section \<open>Notes\<close>

definition field_of :: "(ustr \<Rightarrow> ustr option) \<Rightarrow> string \<Rightarrow> ustr" where
  "field_of fs name = (case fs (lit name) of None \<Rightarrow> [] | Some v \<Rightarrow> v)"

definition to_vocab :: "deck_note \<Rightarrow> import_error + vocab" where
  "to_vocab n =
     (case n of (fs, tgs) \<Rightarrow>
        let expr = strip (field_of fs ''Expression'');
            levels = List.map_filter from_tag tgs in
        if length levels \<noteq> 1 then Inl (JlptTagCount expr (length levels))
        else let segs = parse_furigana (strip (field_of fs ''Reading''));
                 rdg = plain_reading segs;
                 example = strip (field_of fs ''Example JP'');
                 snt = (if example = [] then None
                        else Some \<lparr>segments = parse_furigana example, english = strip (field_of fs ''Example EN'')\<rparr>)
             in Inr \<lparr>vocab_item_id = vocab_id expr rdg, expression = expr, reading = rdg, reading_segments = segs,
                  meaning = strip (field_of fs ''English definition''),
                  additional_definitions = strip (field_of fs ''Additional definitions''),
                  part_of_speech = filter (\<lambda>p. p \<noteq> []) (map strip (split_on 44 (field_of fs ''Grammar''))),
                  tags = filter (\<lambda>t. from_tag t = None) tgs, vocab_level = hd levels, vocab_sentence = snt\<rparr>)"

definition raw_pair :: "deck_note \<Rightarrow> vocab \<Rightarrow> ustr \<times> ustr" where
  "raw_pair n v = (expression v, strip (field_of (fst n) ''Reading''))"

definition suffixed :: "ustr \<Rightarrow> nat \<Rightarrow> ustr" where
  "suffixed base_id n = (if 1 < n then base_id @ lit ''#'' @ dec n else base_id)"

text \<open>The loop of \<^verbatim>\<open>import_vocab\<close>: raw pairs and ids seen, counts per base id, the vocabulary so far.\<close>

fun import_loop ::
  "(ustr \<times> ustr) list \<Rightarrow> (ustr \<times> nat) list \<Rightarrow> ustr list \<Rightarrow> vocab list \<Rightarrow> deck_note list \<Rightarrow> import_error + vocab list" where
  "import_loop raws counts used vs [] = Inr vs"
| "import_loop raws counts used vs (n # entries) =
     and_then (to_vocab n) (\<lambda>v.
       if raw_pair n v \<in> set raws then Inl (DuplicateContentId (vocab_item_id v))
       else let base_id = vocab_item_id v;
                k = (case map_of counts base_id of None \<Rightarrow> 0 | Some c \<Rightarrow> c) + 1;
                counts = AList.update base_id k counts;
                v = (if 1 < k then v\<lparr>vocab_item_id := base_id @ lit ''#'' @ dec k\<rparr> else v)
            in if vocab_item_id v \<in> set used then Inl (DuplicateContentId (vocab_item_id v))
               else import_loop (raw_pair n v # raws) counts (vocab_item_id v # used) (vs @ [v]) entries)"

text \<open>\<^verbatim>\<open>import_vocab\<close>; no file is \<open>None\<close>.\<close>

definition import_vocab :: "ustr \<Rightarrow> deck_file option \<Rightarrow> import_error + imported_deck" where
  "import_vocab expected_sha256 file =
     (case file of
        None \<Rightarrow> Inl DeckMissing
      | Some f \<Rightarrow>
          if file_digest f \<noteq> expected_sha256 then Inl DeckIntegrity
          else (case file_archive f of
                  None \<Rightarrow> Inl BadArchive
                | Some archive \<Rightarrow>
                    and_then (read_collection archive) (\<lambda>col.
                    and_then (read_notes col) (\<lambda>entries.
                    and_then (import_loop [] [] [] [] entries) (\<lambda>vs.
                      Inr \<lparr>deck_vocab = vs, deck_sha256 = file_digest f\<rparr>)))))"

section \<open>Ids in one go\<close>

text \<open>The \<open>k\<close>-th item with the same id gets the suffix \<open>#k\<close>, from the second on.\<close>

definition occurrences :: "vocab list \<Rightarrow> ustr \<Rightarrow> nat" where
  "occurrences vs i = length (filter (\<lambda>v. vocab_item_id v = i) vs)"

definition number_ids :: "vocab list \<Rightarrow> vocab list" where
  "number_ids vs = map (\<lambda>j. (vs ! j)\<lparr>vocab_item_id :=
     suffixed (vocab_item_id (vs ! j)) (occurrences (take (Suc j) vs) (vocab_item_id (vs ! j)))\<rparr>) [0..<length vs]"

fun to_vocabs :: "deck_note list \<Rightarrow> import_error + vocab list" where
  "to_vocabs [] = Inr []"
| "to_vocabs (n # entries) = and_then (to_vocab n) (\<lambda>v. and_then (to_vocabs entries) (\<lambda>vs. Inr (v # vs)))"

definition ids :: "vocab list \<Rightarrow> ustr list" where
  "ids vs = map vocab_item_id vs"

lemma number_ids_Nil [simp]: "number_ids [] = []"
  by (simp add: number_ids_def)

lemma occurrences_snoc [simp]: "occurrences (vs @ [v]) i = occurrences vs i + (if vocab_item_id v = i then 1 else 0)"
  by (simp add: occurrences_def)

lemma number_ids_snoc:
  "number_ids (vs @ [v]) = number_ids vs @ [v\<lparr>vocab_item_id := suffixed (vocab_item_id v) (occurrences vs (vocab_item_id v) + 1)\<rparr>]"
  by (auto simp: number_ids_def nth_append)

lemma number_ids_append: "\<exists>tail. number_ids (vs @ ws) = number_ids vs @ tail"
proof (induction ws rule: rev_induct)
  case (snoc w ws)
  then show ?case by (metis append.assoc number_ids_snoc)
qed simp

lemma raw_pair_id [simp]: "raw_pair n (v\<lparr>vocab_item_id := i\<rparr>) = raw_pair n v"
  by (simp add: raw_pair_def)

lemma vocab_update_same: "v\<lparr>vocab_item_id := vocab_item_id v\<rparr> = (v :: vocab)"
  by simp

definition raws_of :: "deck_note list \<Rightarrow> vocab list \<Rightarrow> (ustr \<times> ustr) list" where
  "raws_of entries vs = map (\<lambda>(n, v). raw_pair n v) (zip entries vs)"

lemma import_loop_step:
  fixes v :: vocab
  assumes v: "to_vocab n = Inr v" and counts: "\<forall>i. (case map_of counts i of None \<Rightarrow> 0 | Some c \<Rightarrow> c) = occurrences before i"
  shows "import_loop raws counts used (number_ids before) (n # entries) =
    (let w = v\<lparr>vocab_item_id := suffixed (vocab_item_id v) (occurrences before (vocab_item_id v) + 1)\<rparr> in
     if raw_pair n v \<in> set raws then Inl (DuplicateContentId (vocab_item_id v))
     else if vocab_item_id w \<in> set used then Inl (DuplicateContentId (vocab_item_id w))
     else import_loop (raw_pair n v # raws) (AList.update (vocab_item_id v) (occurrences before (vocab_item_id v) + 1) counts)
       (vocab_item_id w # used) (number_ids (before @ [v])) entries)"
  using counts [rule_format, of "vocab_item_id v"]
  by (simp add: v Let_def number_ids_snoc suffixed_def split: option.splits)

lemma import_loop_spec:
  assumes "\<forall>i. (case map_of counts i of None \<Rightarrow> 0 | Some c \<Rightarrow> c) = occurrences before i"
    and "set used = set (ids (number_ids before))" and "distinct (ids (number_ids before))"
    and "set raws = R" "finite R"
  shows "import_loop raws counts used (number_ids before) entries = Inr out \<longleftrightarrow>
    (\<exists>vs. to_vocabs entries = Inr vs \<and> distinct (raws_of entries vs) \<and> set (raws_of entries vs) \<inter> R = {}
       \<and> distinct (ids (number_ids (before @ vs))) \<and> out = number_ids (before @ vs))"
  using assms
proof (induction entries arbitrary: raws counts used before R)
  case Nil
  then show ?case by (auto simp: raws_of_def)
next
  case (Cons n entries)
  show ?case
  proof (cases "to_vocab n")
    case (Inr v)
    let ?k = "occurrences before (vocab_item_id v) + 1"
    let ?w = "v\<lparr>vocab_item_id := suffixed (vocab_item_id v) ?k\<rparr>"
    let ?counts = "AList.update (vocab_item_id v) ?k counts"
    have counts: "\<forall>i. (case map_of ?counts i of None \<Rightarrow> 0 | Some c \<Rightarrow> c) = occurrences (before @ [v]) i"
      using Cons.prems(1) by (auto simp: update_conv')
    have ids: "ids (number_ids (before @ [v])) = ids (number_ids before) @ [vocab_item_id ?w]"
      by (simp add: ids_def number_ids_snoc)
    have fresh: "distinct (ids (number_ids (before @ [v]))) \<longleftrightarrow> vocab_item_id ?w \<notin> set used"
      using Cons.prems(2,3) ids by auto
    have later: "distinct (ids (number_ids (before @ v # vs))) \<Longrightarrow> distinct (ids (number_ids (before @ [v])))" for vs
      using number_ids_append [of "before @ [v]" vs] by (auto simp: ids_def)
    have step: "import_loop raws counts used (number_ids before) (n # entries) =
      (if raw_pair n v \<in> R then Inl (DuplicateContentId (vocab_item_id v))
       else if vocab_item_id ?w \<in> set used then Inl (DuplicateContentId (vocab_item_id ?w))
       else import_loop (raw_pair n v # raws) ?counts (vocab_item_id ?w # used) (number_ids (before @ [v])) entries)"
      using import_loop_step [OF Inr Cons.prems(1), of raws used entries] Cons.prems(4) by (simp add: Let_def)
    have ih: "vocab_item_id ?w \<notin> set used \<Longrightarrow>
        import_loop (raw_pair n v # raws) ?counts (vocab_item_id ?w # used) (number_ids (before @ [v])) entries = Inr out \<longleftrightarrow>
        (\<exists>vs. to_vocabs entries = Inr vs \<and> distinct (raws_of entries vs) \<and> set (raws_of entries vs) \<inter> insert (raw_pair n v) R = {}
          \<and> distinct (ids (number_ids ((before @ [v]) @ vs))) \<and> out = number_ids ((before @ [v]) @ vs))"
      using Cons.prems counts fresh ids by (intro Cons.IH) auto
    have "(\<exists>vs. to_vocabs (n # entries) = Inr vs \<and> distinct (raws_of (n # entries) vs) \<and> set (raws_of (n # entries) vs) \<inter> R = {}
        \<and> distinct (ids (number_ids (before @ vs))) \<and> out = number_ids (before @ vs)) \<longleftrightarrow>
      raw_pair n v \<notin> R \<and> vocab_item_id ?w \<notin> set used \<and>
      (\<exists>vs. to_vocabs entries = Inr vs \<and> distinct (raws_of entries vs) \<and> set (raws_of entries vs) \<inter> insert (raw_pair n v) R = {}
          \<and> distinct (ids (number_ids (before @ v # vs))) \<and> out = number_ids (before @ v # vs))"
      (is "?l = ?r")
    proof
      assume ?l
      then obtain vs where "to_vocabs entries = Inr vs" "distinct (raws_of (n # entries) (v # vs))"
          "set (raws_of (n # entries) (v # vs)) \<inter> R = {}" "distinct (ids (number_ids (before @ v # vs)))"
          "out = number_ids (before @ v # vs)"
        using Inr by (auto simp: and_then_Inr)
      then show ?r using later [of vs] fresh by (auto simp: raws_of_def)
    next
      assume ?r
      then obtain vs where "to_vocabs entries = Inr vs" "distinct (raws_of entries vs)" "raw_pair n v \<notin> R"
          "set (raws_of entries vs) \<inter> insert (raw_pair n v) R = {}" "distinct (ids (number_ids (before @ v # vs)))"
          "out = number_ids (before @ v # vs)" by blast
      then show ?l using Inr by (intro exI [of _ "v # vs"]) (auto simp: raws_of_def)
    qed
    then show ?thesis using step ih by auto
  qed simp
qed

section \<open>Properties\<close>

text \<open>C23: The import loop, with its sets and counters, computes what one pass over the whole list does: importing succeeds
  exactly when the file is the pinned one, its notes read and convert, no two notes share expression and raw
  reading, and the numbered ids are distinct; then the deck is the notes in order, the second and later items
  of an id numbered \<^verbatim>\<open>#2\<close>, \<^verbatim>\<open>#3\<close> and so on.\<close>
theorem import_numbers_ids:
  "import_vocab sha file = Inr deck \<longleftrightarrow>
    (\<exists>f archive col entries vs. file = Some f \<and> file_digest f = sha \<and> file_archive f = Some archive
       \<and> read_collection archive = Inr col \<and> read_notes col = Inr entries \<and> to_vocabs entries = Inr vs
       \<and> distinct (raws_of entries vs) \<and> distinct (ids (number_ids vs))
       \<and> deck = \<lparr>deck_vocab = number_ids vs, deck_sha256 = sha\<rparr>)"
proof -
  have "import_loop [] [] [] [] entries = Inr out \<longleftrightarrow>
      (\<exists>vs. to_vocabs entries = Inr vs \<and> distinct (raws_of entries vs) \<and> distinct (ids (number_ids vs)) \<and> out = number_ids vs)"
    for entries out
    using import_loop_spec [of "[]" "[]" "[]" "[]" "{}" entries out] by (simp add: occurrences_def ids_def)
  then show ?thesis
    by (auto simp: import_vocab_def and_then_Inr split: option.splits if_splits)
qed

end
