(* ===== verification/Jamdict.thy ===== *)
theory Jamdict
  imports Content
begin

text \<open>
  \<^verbatim>\<open>services/jamdict_service.py\<close>: facts about kanji.  The dictionary library and its database are
  given as what they answer.
\<close>

definition PROBE_KANJI :: ustr where
  "PROBE_KANJI = [0x65E5]"

definition GRADED_KANJI_MIN :: int where "GRADED_KANJI_MIN = 1"

definition GRADED_KANJI_MAX :: int where "GRADED_KANJI_MAX = 10"

text \<open>What the library gives for a character: readings in groups (type and value), radicals (type and number).\<close>

record jam_character =
  jam_groups :: "(ustr \<times> ustr) list list"
  jam_radicals :: "(ustr \<times> int) list"
  jam_meanings :: "ustr list"
  jam_strokes :: "int option"
  jam_grade :: "int option"
  jam_freq :: "int option"

text \<open>The answer to a lookup: a SQLite error, nothing, or a character.\<close>

datatype lookup = LookupError | NoCharacter | Character jam_character

datatype jamdict_error = DatabaseNotFound | NotAvailable | ProbeFailed | NoPath | QueryFailed

text \<open>
  The constructor: an explicit path must exist (\<open>path_ok\<close>); the library must be available with
  KANJIDIC2; an instance built here (not \<open>injected\<close>) is probed with one lookup.
\<close>

definition open_jamdict :: "bool \<Rightarrow> bool \<Rightarrow> bool \<Rightarrow> bool \<Rightarrow> (ustr \<Rightarrow> lookup) \<Rightarrow> jamdict_error option" where
  "open_jamdict injected path_ok available has_kd2 get_char =
     (if \<not> injected \<and> \<not> path_ok then Some DatabaseNotFound
      else if \<not> (available \<and> has_kd2) then Some NotAvailable
      else if \<not> injected then
        (case get_char PROBE_KANJI of Character _ \<Rightarrow> None | _ \<Rightarrow> Some ProbeFailed)
      else None)"

definition kanji_facts :: "jam_character \<Rightarrow> kanji_details" where
  "kanji_facts c =
     (let readings = concat (jam_groups c) in
      \<lparr>meanings = jam_meanings c,
       on_readings = map snd (filter (\<lambda>r. fst r = lit ''ja_on'') readings),
       kun_readings = map snd (filter (\<lambda>r. fst r = lit ''ja_kun'') readings),
       stroke_count = (if jam_strokes c = Some 0 then None else jam_strokes c),
       grade = jam_grade c, frequency = jam_freq c,
       radical = map_option snd (find (\<lambda>r. fst r = lit ''classical'') (jam_radicals c))\<rparr>)"

text \<open>\<open>Inl\<close> is a SQLite error of the lookup, which propagates.\<close>

definition get_kanji :: "(ustr \<Rightarrow> lookup) \<Rightarrow> ustr \<Rightarrow> unit + kanji_details option" where
  "get_kanji get_char ch =
     (case get_char ch of
        LookupError \<Rightarrow> Inl ()
      | NoCharacter \<Rightarrow> Inr None
      | Character c \<Rightarrow> Inr (Some (kanji_facts c)))"

text \<open>
  \<open>rows\<close>: literal and grade of the characters, \<open>None\<close> when the database cannot be queried.  Python's
  \<^verbatim>\<open>sorted(set(...))\<close> is the sorted list without repeats.
\<close>

definition graded_kanji :: "bool \<Rightarrow> (ustr \<times> int) list option \<Rightarrow> jamdict_error + ustr list" where
  "graded_kanji has_path rows =
     (if \<not> has_path then Inl NoPath
      else (case rows of
              None \<Rightarrow> Inl QueryFailed
            | Some rs \<Rightarrow> Inr (sort (remdups (filter is_kanji (map fst
                (filter (\<lambda>(_, g). GRADED_KANJI_MIN \<le> g \<and> g \<le> GRADED_KANJI_MAX) rs)))))))"

lemma graded_kanji_result:
  "graded_kanji True (Some rs) = Inr cs \<Longrightarrow>
     sorted cs \<and> distinct cs \<and> set cs = {c. is_kanji c \<and> (\<exists>g. (c, g) \<in> set rs \<and> 1 \<le> g \<and> g \<le> 10)}"
  by (force simp: graded_kanji_def GRADED_KANJI_MIN_def GRADED_KANJI_MAX_def)

end
