(* ===== verification/ContentBuild.thy ===== *)
theory ContentBuild
  imports DeckImport ContentRepo KanaSource Jamdict
begin

text \<open>
  \<^verbatim>\<open>orchestration/content_build.py\<close>: the build of \<^verbatim>\<open>content.db\<close>.  A build gives its result, the progress
  notifications in order, and the files; the clock readings and the name of the deck are arguments.
\<close>

section \<open>Progress and reports\<close>

record build_progress =
  bp_stage :: ustr
  bp_current :: nat
  bp_total :: nat

record build_report =
  rep_dry_run :: bool
  rep_target :: ustr
  rep_deck_sha256 :: ustr
  rep_kana_count :: nat
  rep_kanji_count :: nat
  rep_vocab_count :: nat
  rep_sentence_count :: nat
  rep_vocab_by_level :: "(ustr \<times> nat) list"
  rep_kanji_by_level :: "(ustr \<times> nat) list"
  rep_kanji_without_details :: nat
  rep_duration :: rat
  rep_unleveled_kanji_count :: nat

datatype build_error = ImportFailed import_error | LookupFailed | CatalogFailed jamdict_error | WriteFailed write_error

abbreviation progress :: "string \<Rightarrow> nat \<Rightarrow> nat \<Rightarrow> build_progress" where
  "progress stage current tot \<equiv> \<lparr>bp_stage = lit stage, bp_current = current, bp_total = tot\<rparr>"

section \<open>The kanji of a build\<close>

definition NO_FREQUENCY :: int where "NO_FREQUENCY = 10 ^ 9"

definition NO_GRADE :: int where "NO_GRADE = 99"

definition or_else :: "'a option \<Rightarrow> 'a \<Rightarrow> 'a" where
  "or_else x d = (case x of None \<Rightarrow> d | Some v \<Rightarrow> v)"

definition study_key :: "kanji \<Rightarrow> int \<times> int \<times> int \<times> ustr" where
  "study_key k =
     (let freq = or_else (frequency k) NO_FREQUENCY in
      case kanji_level k of
        None \<Rightarrow> (1, or_else (grade k) NO_GRADE, freq, kanji_char k)
      | Some l \<Rightarrow> (0, - level_value l, freq, kanji_char k))"

definition by_level :: "jlpt_level list \<Rightarrow> (ustr \<times> nat) list" where
  "by_level ls = map (\<lambda>l. (level_label l, count_list ls l)) (filter (\<lambda>l. count_list ls l \<noteq> 0) study_order)"

definition make_kanji :: "ustr \<Rightarrow> jlpt_level option \<Rightarrow> kanji_details \<Rightarrow> kanji" where
  "make_kanji ch l d = \<lparr>meanings = meanings d, on_readings = on_readings d, kun_readings = kun_readings d,
     stroke_count = stroke_count d, grade = grade d, frequency = frequency d, radical = radical d,
     kanji_item_id = kanji_id ch, kanji_char = ch, kanji_level = l\<rparr>"

definition no_details :: kanji_details where
  "no_details = \<lparr>meanings = [], on_readings = [], kun_readings = [], stroke_count = None, grade = None,
     frequency = None, radical = None\<rparr>"

record kanji_build =
  kb_kanji :: "kanji list"
  kb_unleveled :: nat
  kb_without_details :: nat

text \<open>The dictionary (\<^verbatim>\<open>KanjiInfoSource\<close>) and the optional catalogue of graded kanji.\<close>

type_synonym kanji_source = "ustr \<Rightarrow> unit + kanji_details option"

definition unleveled_candidates :: "(jamdict_error + ustr list) option \<Rightarrow> (ustr \<times> jlpt_level) list \<Rightarrow> jamdict_error + ustr list" where
  "unleveled_candidates cat levels =
     (case cat of
        None \<Rightarrow> Inr []
      | Some (Inl e) \<Rightarrow> Inl e
      | Some (Inr cs) \<Rightarrow> Inr (sort (remdups (filter (\<lambda>c. c \<notin> set (map fst levels)) cs))))"

fun build_leveled ::
  "kanji_source \<Rightarrow> (ustr \<times> jlpt_level) list \<Rightarrow> kanji list \<Rightarrow> nat \<Rightarrow> (unit + kanji list \<times> nat)" where
  "build_leveled src [] built missing = Inr (built, missing)"
| "build_leveled src ((ch, l) # rest) built missing =
     and_then (src ch) (\<lambda>d. case d of
        None \<Rightarrow> build_leveled src rest (built @ [make_kanji ch (Some l) no_details]) (missing + 1)
      | Some d \<Rightarrow> build_leveled src rest (built @ [make_kanji ch (Some l) d]) missing)"

fun build_unleveled :: "kanji_source \<Rightarrow> ustr list \<Rightarrow> kanji list \<Rightarrow> nat \<Rightarrow> (unit + kanji list \<times> nat)" where
  "build_unleveled src [] built unleveled = Inr (built, unleveled)"
| "build_unleveled src (ch # rest) built unleveled =
     and_then (src ch) (\<lambda>d. case d of
        None \<Rightarrow> build_unleveled src rest built unleveled
      | Some d \<Rightarrow> build_unleveled src rest (built @ [make_kanji ch None d]) (unleveled + 1))"

text \<open>Every kanji that is looked up is notified, found or not.\<close>

definition enrich_notifications :: "nat \<Rightarrow> build_progress list" where
  "enrich_notifications tot = map (\<lambda>i. progress ''enrich_kanji'' i tot) [1..<tot + 1]"

definition build_kanji ::
  "kanji_source \<Rightarrow> (jamdict_error + ustr list) option \<Rightarrow> (ustr \<times> jlpt_level) list
     \<Rightarrow> build_error + kanji_build \<times> build_progress list" where
  "build_kanji src cat levels =
     (let leveled = sort_key (\<lambda>(ch, l). (- level_value l, ch)) levels in
      and_then (raise_as CatalogFailed (unleveled_candidates cat levels)) (\<lambda>candidates.
      and_then (raise_as (\<lambda>_. LookupFailed) (build_leveled src leveled [] 0)) (\<lambda>(built, missing).
      and_then (raise_as (\<lambda>_. LookupFailed) (build_unleveled src candidates built 0)) (\<lambda>(built, unleveled).
        Inr (\<lparr>kb_kanji = sort_key study_key built, kb_unleveled = unleveled, kb_without_details = missing\<rparr>,
             enrich_notifications (length leveled + length candidates))))))"

section \<open>The build\<close>

text \<open>What the writer meets: the folder, SQLite, and each attempt to move the file into place.\<close>

record write_env =
  we_mkdir_ok :: bool
  we_sql_ok :: bool
  we_outcomes :: "nat \<Rightarrow> replace_outcome"

definition build_meta :: "ustr \<Rightarrow> ustr \<Rightarrow> imported_deck \<Rightarrow> kanji_build \<Rightarrow> (ustr \<times> ustr) list" where
  "build_meta built_at deck_name deck kb =
     [(lit ''schema_version'', CONTENT_SCHEMA_VERSION), (lit ''built_at'', built_at),
      (lit ''deck_sha256'', deck_sha256 deck), (lit ''deck_filename'', deck_name),
      (lit ''kana'', dec (length all_kana)), (lit ''kanji'', dec (length (kb_kanji kb))),
      (lit ''unleveled_kanji'', dec (kb_unleveled kb)), (lit ''vocab'', dec (length (deck_vocab deck)))]"

definition build_summary :: "bool \<Rightarrow> ustr \<Rightarrow> imported_deck \<Rightarrow> kanji_build \<Rightarrow> rat \<Rightarrow> build_report" where
  "build_summary dry target deck kb duration =
     \<lparr>rep_dry_run = dry, rep_target = target, rep_deck_sha256 = deck_sha256 deck, rep_kana_count = length all_kana,
      rep_kanji_count = length (kb_kanji kb), rep_vocab_count = length (deck_vocab deck),
      rep_sentence_count = length (filter (\<lambda>v. vocab_sentence v \<noteq> None) (deck_vocab deck)),
      rep_vocab_by_level = by_level (map vocab_level (deck_vocab deck)),
      rep_kanji_by_level = by_level (List.map_filter kanji_level (kb_kanji kb)),
      rep_kanji_without_details = kb_without_details kb, rep_duration = duration,
      rep_unleveled_kanji_count = kb_unleveled kb\<rparr>"

text \<open>
  \<^verbatim>\<open>ContentBuildOrchestrator.build\<close>.  When an error ends the kanji step its own notifications are not
  listed.
\<close>

definition build_content ::
  "import_error + imported_deck \<Rightarrow> kanji_source \<Rightarrow> (jamdict_error + ustr list) option \<Rightarrow> write_env
     \<Rightarrow> ustr \<Rightarrow> ustr \<Rightarrow> ustr \<Rightarrow> rat \<Rightarrow> bool \<Rightarrow> content_files
     \<Rightarrow> (build_error + build_report) \<times> build_progress list \<times> content_files" where
  "build_content deck src cat env target deck_name built_at duration dry fs =
     (let p0 = [progress ''import_deck'' 0 1] in
      case deck of
        Inl e \<Rightarrow> (Inl (ImportFailed e), p0, fs)
      | Inr deck \<Rightarrow>
          let p1 = p0 @ [progress ''import_deck'' 1 1] in
          (case build_kanji src cat (derive_kanji_levels (deck_vocab deck)) of
             Inl e \<Rightarrow> (Inl e, p1, fs)
           | Inr (kb, p2) \<Rightarrow>
               if dry then (Inr (build_summary dry target deck kb duration), p1 @ p2, fs)
               else let p3 = p1 @ p2 @ [progress ''write'' 0 1] in
                 (case write_content (we_mkdir_ok env) (we_sql_ok env) (we_outcomes env)
                         all_kana (kb_kanji kb) (deck_vocab deck) (build_meta built_at deck_name deck kb) fs of
                    (Inl e, fs) \<Rightarrow> (Inl (WriteFailed e), p3, fs)
                  | (Inr _, fs) \<Rightarrow>
                      (Inr (build_summary dry target deck kb duration), p3 @ [progress ''write'' 1 1], fs))))"

section \<open>Which kanji are built\<close>

definition facts :: "kanji_source \<Rightarrow> ustr \<Rightarrow> kanji_details option" where
  "facts src ch = (case src ch of Inl _ \<Rightarrow> None | Inr d \<Rightarrow> d)"

definition leveled_kanji :: "kanji_source \<Rightarrow> ustr \<times> jlpt_level \<Rightarrow> kanji" where
  "leveled_kanji src p = make_kanji (fst p) (Some (snd p)) (or_else (facts src (fst p)) no_details)"

definition unleveled_kanji :: "kanji_source \<Rightarrow> ustr list \<Rightarrow> kanji list" where
  "unleveled_kanji src cs = List.map_filter (\<lambda>ch. map_option (make_kanji ch None) (facts src ch)) cs"

lemma build_leveled_result:
  "build_leveled src ls built m = Inr (out, m') \<Longrightarrow>
     out = built @ map (leveled_kanji src) ls \<and> m' = m + length (filter (\<lambda>p. facts src (fst p) = None) ls)"
  by (induction src ls built m rule: build_leveled.induct)
    (auto simp: and_then_Inr leveled_kanji_def facts_def or_else_def split: option.splits)

lemma build_unleveled_result:
  "build_unleveled src cs built u = Inr (out, u') \<Longrightarrow>
     out = built @ unleveled_kanji src cs \<and> u' = u + length (unleveled_kanji src cs)"
  by (induction src cs built u rule: build_unleveled.induct)
    (auto simp: and_then_Inr unleveled_kanji_def facts_def map_filter_simps split: option.splits)

lemma make_kanji_simps [simp]:
  "kanji_char (make_kanji ch l d) = ch" "kanji_level (make_kanji ch l d) = l" "kanji_item_id (make_kanji ch l d) = kanji_id ch"
  by (simp_all add: make_kanji_def)

lemma leveled_kanji_simps [simp]:
  "kanji_char (leveled_kanji src p) = fst p" "kanji_level (leveled_kanji src p) = Some (snd p)"
  "kanji_item_id (leveled_kanji src p) = kanji_id (fst p)"
  by (simp_all add: leveled_kanji_def)

lemma unleveled_kanji_mem:
  "k \<in> set (unleveled_kanji src cs) \<longleftrightarrow> (\<exists>ch \<in> set cs. \<exists>d. facts src ch = Some d \<and> k = make_kanji ch None d)"
  by (induction cs) (auto simp: unleveled_kanji_def map_filter_simps split: option.splits)

lemma unleveled_kanji_chars: "distinct cs \<Longrightarrow> distinct (map kanji_char (unleveled_kanji src cs))"
  by (induction cs) (auto simp: unleveled_kanji_def map_filter_simps map_filter_def split: option.splits)

lemma unleveled_candidates_result:
  "unleveled_candidates cat levels = Inr cs \<Longrightarrow> distinct cs \<and> set cs \<inter> fst ` set levels = {}"
  by (force simp: unleveled_candidates_def split: option.splits sum.splits)

text \<open>Every kanji that \<open>build_kanji\<close> gives, and the order.\<close>

lemma build_kanji_result:
  assumes b: "build_kanji src cat levels = Inr (kb, ns)" and d: "distinct (map fst levels)"
  obtains cs where "unleveled_candidates cat levels = Inr cs"
    "kb_kanji kb = sort_key study_key (map (leveled_kanji src) (sort_key (\<lambda>(ch, l). (- level_value l, ch)) levels) @ unleveled_kanji src cs)"
    "distinct (map kanji_char (kb_kanji kb))" "kb_unleveled kb = length (unleveled_kanji src cs)"
    "ns = enrich_notifications (length levels + length cs)"
proof -
  let ?ls = "sort_key (\<lambda>(ch, l). (- level_value l, ch)) levels"
  from b obtain cs built m all n where cs: "unleveled_candidates cat levels = Inr cs"
    and l: "build_leveled src ?ls [] 0 = Inr (built, m)"
    and u: "build_unleveled src cs built 0 = Inr (all, n)"
    and kb: "kb = \<lparr>kb_kanji = sort_key study_key all, kb_unleveled = n, kb_without_details = m\<rparr>"
    and ns: "ns = enrich_notifications (length levels + length cs)"
    by (auto simp: build_kanji_def Let_def and_then_Inr raise_as_Inr split: prod.splits)
  have all: "all = map (leveled_kanji src) ?ls @ unleveled_kanji src cs" "n = length (unleveled_kanji src cs)"
    using build_leveled_result [OF l] build_unleveled_result [OF u] by auto
  have c: "distinct cs" "set cs \<inter> fst ` set levels = {}" using unleveled_candidates_result [OF cs] by auto
  have "distinct (map fst ?ls)" using d by (simp add: distinct_map)
  then have "distinct (map kanji_char all)"
    using unleveled_kanji_chars [OF c(1)] c(2) by (force simp: all unleveled_kanji_mem comp_def)
  then have "distinct (map kanji_char (kb_kanji kb))" by (simp add: kb distinct_map)
  then show ?thesis using that cs all kb ns by simp
qed

lemma study_key_char: "study_key k = study_key k' \<Longrightarrow> kanji_char k = kanji_char k'"
  by (auto simp: study_key_def Let_def split: option.splits)

lemma build_kanji_covers:
  assumes b: "build_kanji src cat levels = Inr (kb, ns)" and d: "distinct (map fst levels)"
  shows "distinct (map kanji_item_id (kb_kanji kb)) \<and> sorted (map study_key (kb_kanji kb))
    \<and> (\<forall>ch l. (\<exists>k \<in> set (kb_kanji kb). kanji_char k = ch \<and> kanji_level k = Some l) \<longleftrightarrow> map_of levels ch = Some l)"
proof -
  from build_kanji_result [OF b d] obtain cs where cs: "unleveled_candidates cat levels = Inr cs"
    and all: "kb_kanji kb = sort_key study_key (map (leveled_kanji src) (sort_key (\<lambda>(ch, l). (- level_value l, ch)) levels) @ unleveled_kanji src cs)"
    and dist: "distinct (map kanji_char (kb_kanji kb))" by metis
  have ids: "kanji_item_id k = kanji_id (kanji_char k)" if "k \<in> set (kb_kanji kb)" for k
    using that by (auto simp: all unleveled_kanji_mem)
  then have "map kanji_item_id (kb_kanji kb) = map kanji_id (map kanji_char (kb_kanji kb))" by simp
  then have 1: "distinct (map kanji_item_id (kb_kanji kb))"
    using dist by (metis distinct_map inj_onI kanji_id_inject)
  have "(\<exists>k \<in> set (kb_kanji kb). kanji_char k = ch \<and> kanji_level k = Some l) \<longleftrightarrow> (ch, l) \<in> set levels" for ch l
    by (force simp: all unleveled_kanji_mem)
  then show ?thesis using 1 d by (simp add: all)
qed

section \<open>What a build leaves\<close>

lemma build_meta_distinct: "distinct (map fst (build_meta tim name deck kb))"
  by (simp add: build_meta_def lit_def)

lemma write_content_Inr:
  assumes "write_content mk sq oc kanas kanjis vocabs meta fs = (Inr u, fs')"
  shows "target_db fs' = Some \<lparr>meta_rows = meta,
             kana_rows = map (\<lambda>k. (kana_item_id k, script_value (kana_script k), k)) kanas,
             kanji_rows = map (\<lambda>k. (kanji_item_id k, kanji_level k, k)) kanjis,
             vocab_rows = map (\<lambda>v. (vocab_item_id v, vocab_level v, v)) vocabs\<rparr> \<and> tmp_db fs' = None"
proof -
  from assms obtain db where "build_tables kanas kanjis vocabs meta = Inr db" "target_db fs' = Some db" "tmp_db fs' = None"
    by (auto simp: write_content_def Let_def split: if_splits sum.splits)
  then show ?thesis using build_tables_iff [of kanas kanjis vocabs meta db] by simp
qed

lemma replace_loop_error: "fst (replace_loop oc ns slept) \<noteq> Inl (DuplicateId i)"
  by (induction ns arbitrary: slept) (auto split: replace_outcome.splits)

lemma write_content_ok:
  assumes "distinct (map fst meta)" "distinct (map kana_item_id kanas)" "distinct (map kanji_item_id kanjis)"
    "distinct (map vocab_item_id vocabs)"
  shows "(\<exists>u fs'. write_content mk sq oc kanas kanjis vocabs meta fs = (Inr u, fs')) \<longleftrightarrow> mk \<and> sq \<and> retries_succeed oc"
    and "fst (write_content mk sq oc kanas kanjis vocabs meta fs) \<noteq> Inl (DuplicateId i)"
proof -
  obtain db where db: "build_tables kanas kanjis vocabs meta = Inr db" using assms build_tables_iff by blast
  then show "fst (write_content mk sq oc kanas kanjis vocabs meta fs) \<noteq> Inl (DuplicateId i)"
    using replace_loop_error [of oc "[1..<REPLACE_ATTEMPTS + 1]" 0 i]
    by (auto simp: write_content_def Let_def replace_with_retry_def split: sum.splits)
  show "(\<exists>u fs'. write_content mk sq oc kanas kanjis vocabs meta fs = (Inr u, fs')) \<longleftrightarrow> mk \<and> sq \<and> retries_succeed oc"
    using replace_with_retry_ok [of oc] db by (auto simp: write_content_def Let_def split: sum.splits)
qed

lemma imported_ids: "import_vocab sha file = Inr deck \<Longrightarrow> distinct (map vocab_item_id (deck_vocab deck))"
proof -
  assume "import_vocab sha file = Inr deck"
  then obtain entries vs where "import_loop [] [] [] [] entries = Inr vs" "deck_vocab deck = vs"
    by (auto simp: import_vocab_def and_then_Inr split: option.splits if_splits)
  then show ?thesis
    using import_loop_spec [of "[]" "[]" "[]" "[]" "{}" entries vs] by (auto simp: occurrences_def ids_def)
qed

lemma build_kanji_error: "build_kanji src cat levels \<noteq> Inl (WriteFailed e)"
  by (simp add: build_kanji_def Let_def and_then_def raise_as_def split: sum.splits prod.splits)

lemma build_content_write_error:
  assumes "fst (build_content (Inr deck) src cat env target name tim dur dry fs) = Inl (WriteFailed e)"
  obtains kb p where "build_kanji src cat (derive_kanji_levels (deck_vocab deck)) = Inr (kb, p)"
    "fst (write_content (we_mkdir_ok env) (we_sql_ok env) (we_outcomes env) all_kana (kb_kanji kb) (deck_vocab deck)
       (build_meta tim name deck kb) fs) = Inl e"
  using assms build_kanji_error [of src cat "derive_kanji_levels (deck_vocab deck)" e]
  by (cases "build_kanji src cat (derive_kanji_levels (deck_vocab deck))")
    (auto simp: build_content_def Let_def split: sum.splits prod.splits if_splits)

lemma build_content_Inr:
  assumes "build_content (Inr deck) src cat env target name tim dur False fs = (Inr rep, ns, fs')"
  obtains kb p where "build_kanji src cat (derive_kanji_levels (deck_vocab deck)) = Inr (kb, p)"
    "write_content (we_mkdir_ok env) (we_sql_ok env) (we_outcomes env) all_kana (kb_kanji kb) (deck_vocab deck)
       (build_meta tim name deck kb) fs = (Inr (), fs')"
    "rep = build_summary False target deck kb dur"
    "ns = [progress ''import_deck'' 0 1, progress ''import_deck'' 1 1] @ p @ [progress ''write'' 0 1, progress ''write'' 1 1]"
  using assms by (auto simp: build_content_def Let_def split: sum.splits prod.splits)

section \<open>A sample deck\<close>

definition sample_file :: deck_file where
  "sample_file = \<lparr>file_digest = lit ''ab'', file_archive = Some [(lit ''collection.anki2'',
     \<lparr>note_types = Some [[(lit ''Reading'', 2), (lit ''Expression'', 0), (lit ''English definition'', 1)]],
      note_rows = Some [(lit ''a'' @ [31] @ lit ''one'' @ [31] @ lit ''a'', lit ''jlpt_N5''), (lit ''a'' @ [31] @ lit ''two'' @ [31] @ lit ''x[a]'', lit ''jlpt_N4'')]\<rparr>)]\<rparr>"

definition sample_deck :: imported_deck where
  "sample_deck = (case import_vocab (lit ''ab'') (Some sample_file) of Inr d \<Rightarrow> d | Inl _ \<Rightarrow> \<lparr>deck_vocab = [], deck_sha256 = []\<rparr>)"

lemma sample_deck_imports: "case import_vocab (lit ''ab'') (Some sample_file) of Inr d \<Rightarrow> length (deck_vocab d) = 2 | Inl _ \<Rightarrow> False"
  by (simp add: import_vocab_def sample_file_def read_collection_def COLLECTION_MEMBERS_def read_notes_def REQUIRED_FIELDS_def
      FIELD_SEPARATOR_def lit_def split_space_def is_space_def to_vocab_def field_of_def strip_def from_tag_def
      level_of_value_def map_filter_simps parse_furigana_def tag_at_def parse_chunk_def chunk_loop.simps(2) ruby_at_def
      ruby_body_def base_char_def plain_segment_def plain_reading_def vocab_id_def raw_pair_def Let_def is_tag_def
      dec.simps)

lemma sample_deck_imported: "import_vocab (lit ''ab'') (Some sample_file) = Inr sample_deck"
  using sample_deck_imports by (cases "import_vocab (lit ''ab'') (Some sample_file)") (simp_all add: sample_deck_def)

definition sample_write_env :: write_env where
  "sample_write_env = \<lparr>we_mkdir_ok = True, we_sql_ok = True, we_outcomes = (\<lambda>_. Replaced)\<rparr>"

lemma sample_write_env_ok: "we_mkdir_ok sample_write_env \<and> we_sql_ok sample_write_env \<and> retries_succeed (we_outcomes sample_write_env)"
  by (simp add: sample_write_env_def retries_succeed_unfold)

section \<open>Properties\<close>

text \<open>C16: A build of an imported deck never fails for a repeated id, and when it succeeds the database holds the
  schema version, all kana, the words of the deck in order, and a kanji row of level \<open>l\<close> exactly for the kanji of the
  deck, at the easiest level of the words that use it, sorted for study; the report counts what is stored.\<close>
theorem build_stores_deck:
  assumes "import_vocab sha file = Inr deck"
  shows "fst (build_content (Inr deck) src cat env target name tim dur dry fs) \<noteq> Inl (WriteFailed (DuplicateId i))
    \<and> (\<forall>rep ns fs'. build_content (Inr deck) src cat env target name tim dur False fs = (Inr rep, ns, fs') \<longrightarrow>
        (\<exists>db. target_db fs' = Some db \<and> tmp_db fs' = None
           \<and> map_of (meta_rows db) (lit ''schema_version'') = Some CONTENT_SCHEMA_VERSION
           \<and> map (snd \<circ> snd) (kana_rows db) = all_kana \<and> map (snd \<circ> snd) (vocab_rows db) = deck_vocab deck
           \<and> sorted (map (study_key \<circ> snd \<circ> snd) (kanji_rows db))
           \<and> (\<forall>ch l. (\<exists>k \<in> (snd \<circ> snd) ` set (kanji_rows db). kanji_char k = ch \<and> kanji_level k = Some l) \<longleftrightarrow>
                levels_using (deck_vocab deck) ch \<noteq> {} \<and> l = Max (levels_using (deck_vocab deck) ch))
           \<and> rep_vocab_count rep = length (vocab_rows db) \<and> rep_kanji_count rep = length (kanji_rows db)))"
proof (intro conjI allI impI)
  have ids: "distinct (map vocab_item_id (deck_vocab deck))" using assms by (rule imported_ids)
  show "fst (build_content (Inr deck) src cat env target name tim dur dry fs) \<noteq> Inl (WriteFailed (DuplicateId i))"
  proof
    assume "fst (build_content (Inr deck) src cat env target name tim dur dry fs) = Inl (WriteFailed (DuplicateId i))"
    then obtain kb p where k: "build_kanji src cat (derive_kanji_levels (deck_vocab deck)) = Inr (kb, p)"
      and w: "fst (write_content (we_mkdir_ok env) (we_sql_ok env) (we_outcomes env) all_kana (kb_kanji kb) (deck_vocab deck)
         (build_meta tim name deck kb) fs) = Inl (DuplicateId i)"
      by (rule build_content_write_error)
    have "distinct (map kanji_item_id (kb_kanji kb))" using build_kanji_covers [OF k derive_kanji_levels_distinct] by blast
    from write_content_ok(2) [OF build_meta_distinct distinct_all_kana_ids this ids] w show False by (rule notE)
  qed
next
  fix rep ns fs'
  assume "build_content (Inr deck) src cat env target name tim dur False fs = (Inr rep, ns, fs')"
  then obtain kb p where k: "build_kanji src cat (derive_kanji_levels (deck_vocab deck)) = Inr (kb, p)"
    and w: "write_content (we_mkdir_ok env) (we_sql_ok env) (we_outcomes env) all_kana (kb_kanji kb) (deck_vocab deck)
       (build_meta tim name deck kb) fs = (Inr (), fs')"
    and rep: "rep = build_summary False target deck kb dur"
    by (rule build_content_Inr)
  note cover = build_kanji_covers [OF k derive_kanji_levels_distinct]
  have "(\<exists>k \<in> set (kb_kanji kb). kanji_char k = ch \<and> kanji_level k = Some l) \<longleftrightarrow>
      levels_using (deck_vocab deck) ch \<noteq> {} \<and> l = Max (levels_using (deck_vocab deck) ch)" for ch l
    using cover by (auto simp: derive_kanji_levels_lookup)
  with write_content_Inr [OF w] cover show "\<exists>db. target_db fs' = Some db \<and> tmp_db fs' = None
           \<and> map_of (meta_rows db) (lit ''schema_version'') = Some CONTENT_SCHEMA_VERSION
           \<and> map (snd \<circ> snd) (kana_rows db) = all_kana \<and> map (snd \<circ> snd) (vocab_rows db) = deck_vocab deck
           \<and> sorted (map (study_key \<circ> snd \<circ> snd) (kanji_rows db))
           \<and> (\<forall>ch l. (\<exists>k \<in> (snd \<circ> snd) ` set (kanji_rows db). kanji_char k = ch \<and> kanji_level k = Some l) \<longleftrightarrow>
                levels_using (deck_vocab deck) ch \<noteq> {} \<and> l = Max (levels_using (deck_vocab deck) ch))
           \<and> rep_vocab_count rep = length (vocab_rows db) \<and> rep_kanji_count rep = length (kanji_rows db)"
    by (simp add: rep build_summary_def build_meta_def comp_def image_image)
qed

theorem build_stores_deck_witness:
  "fst (build_content (Inr sample_deck) (\<lambda>_. Inr None) None sample_write_env (lit ''content.db'') (lit ''deck.apkg'') [] 0 False
     \<lparr>target_db = None, tmp_db = None\<rparr>) \<noteq> Inl (WriteFailed (DuplicateId (lit ''vocab:a:a'')))"
  using build_stores_deck [OF sample_deck_imported] by blast

text \<open>C24: A dry run predicts the build: it writes nothing, and a build of an imported deck in an environment where
  folder, SQLite and the move into place work succeeds exactly when its dry run does, with the same report; its
  notifications are those of the dry run with the write ones after them.\<close>
theorem dry_run_predicts:
  assumes "import_vocab sha file = Inr deck" and "we_mkdir_ok env \<and> we_sql_ok env \<and> retries_succeed (we_outcomes env)"
  shows "snd (snd (build_content (Inr deck) src cat env target name tim dur True fs)) = fs
    \<and> (case build_content (Inr deck) src cat env target name tim dur True fs of
         (Inr rep, ns, _) \<Rightarrow> (\<exists>fs'. build_content (Inr deck) src cat env target name tim dur False fs
             = (Inr (rep\<lparr>rep_dry_run := False\<rparr>), ns @ [progress ''write'' 0 1, progress ''write'' 1 1], fs'))
       | (Inl e, ns, _) \<Rightarrow> build_content (Inr deck) src cat env target name tim dur False fs = (Inl e, ns, fs))"
proof (cases "build_kanji src cat (derive_kanji_levels (deck_vocab deck))")
  case (Inl e)
  then show ?thesis by (simp add: build_content_def)
next
  case (Inr q)
  then obtain kb p where k: "build_kanji src cat (derive_kanji_levels (deck_vocab deck)) = Inr (kb, p)" by (cases q) auto
  have "\<exists>u fs'. write_content (we_mkdir_ok env) (we_sql_ok env) (we_outcomes env) all_kana (kb_kanji kb) (deck_vocab deck)
      (build_meta tim name deck kb) fs = (Inr u, fs')"
    using build_kanji_covers [OF k derive_kanji_levels_distinct] imported_ids [OF assms(1)] assms(2)
    by (subst write_content_ok(1)) (simp_all add: build_meta_distinct distinct_all_kana_ids)
  then show ?thesis using k by (auto simp: build_content_def build_summary_def)
qed

theorem dry_run_predicts_witness:
  "snd (snd (build_content (Inr sample_deck) (\<lambda>_. Inr None) None sample_write_env (lit ''content.db'') (lit ''deck.apkg'') [] 0 True
     \<lparr>target_db = None, tmp_db = None\<rparr>)) = \<lparr>target_db = None, tmp_db = None\<rparr>"
  using dry_run_predicts [OF sample_deck_imported sample_write_env_ok] by blast

end
