(* ===== verification/BuildTasks.thy ===== *)
theory BuildTasks
  imports ContentBuild "HOL-Library.Sublist"
begin

text \<open>
  \<^verbatim>\<open>orchestration/build_tasks.py\<close>: one content build at a time, with progress fanned out to bounded
  queues, and the stream of \<^verbatim>\<open>api/routers/ws.py\<close> that reads one.  Everything runs on the event loop but the
  build itself, whose end and whose progress callbacks are steps of \<open>run_step\<close>.
\<close>

section \<open>Tasks, events and the manager\<close>

datatype build_state = RUNNING | SUCCEEDED | FAILED

record build_task =
  bt_id :: ustr
  bt_dry_run :: bool
  bt_state :: build_state
  bt_started_at :: int
  bt_finished_at :: "int option"
  bt_progress :: "build_progress option"
  bt_report :: "build_report option"
  bt_error :: "ustr option"

datatype event_kind = ProgressEvent | StateEvent

record build_event =
  ev_kind :: event_kind
  ev_task :: ustr
  ev_state :: build_state
  ev_progress :: "build_progress option"
  ev_error :: "ustr option"

text \<open>The dictionary of tasks keeps its insertion order; a subscriber is a key with the content of its queue.\<close>

record 'q build_manager =
  bm_max_history :: nat
  bm_queue_size :: nat
  bm_tasks :: "(ustr \<times> build_task) list"
  bm_active :: "ustr option"
  bm_queues :: "('q \<times> build_event list) list"

definition new_manager :: "nat \<Rightarrow> nat \<Rightarrow> 'q build_manager" where
  "new_manager max_history queue_size =
     \<lparr>bm_max_history = max_history, bm_queue_size = queue_size, bm_tasks = [], bm_active = None, bm_queues = []\<rparr>"

definition get_task :: "ustr \<Rightarrow> 'q build_manager \<Rightarrow> build_task option" where
  "get_task i m = map_of (bm_tasks m) i"

definition latest_task :: "'q build_manager \<Rightarrow> build_task option" where
  "latest_task m = (if bm_tasks m = [] then None else Some (snd (last (bm_tasks m))))"

definition active_task :: "'q build_manager \<Rightarrow> build_task option" where
  "active_task m = Option.bind (bm_active m) (\<lambda>i. get_task i m)"

definition subscribe :: "'q \<Rightarrow> 'q build_manager \<Rightarrow> 'q build_manager" where
  "subscribe q m = m\<lparr>bm_queues := bm_queues m @ [(q, [])]\<rparr>"

definition unsubscribe :: "'q \<Rightarrow> 'q build_manager \<Rightarrow> 'q build_manager" where
  "unsubscribe q m = m\<lparr>bm_queues := filter (\<lambda>(k, _). k \<noteq> q) (bm_queues m)\<rparr>"

definition subscriber_count :: "'q build_manager \<Rightarrow> nat" where
  "subscriber_count m = length (bm_queues m)"

text \<open>An \<^verbatim>\<open>asyncio.Queue\<close> of size 0 is unbounded; a full one loses its oldest event.\<close>

definition put_event :: "nat \<Rightarrow> build_event \<Rightarrow> build_event list \<Rightarrow> build_event list" where
  "put_event cap ev es = (if 0 < cap \<and> cap \<le> length es then tl es else es) @ [ev]"

definition publish :: "build_event \<Rightarrow> 'q build_manager \<Rightarrow> 'q build_manager" where
  "publish ev m = m\<lparr>bm_queues := map (\<lambda>(q, es). (q, put_event (bm_queue_size m) ev es)) (bm_queues m)\<rparr>"

definition state_event :: "build_task \<Rightarrow> build_event" where
  "state_event t = \<lparr>ev_kind = StateEvent, ev_task = bt_id t, ev_state = bt_state t, ev_progress = None, ev_error = bt_error t\<rparr>"

fun trim_loop :: "nat \<Rightarrow> ustr option \<Rightarrow> ustr list \<Rightarrow> (ustr \<times> build_task) list \<Rightarrow> (ustr \<times> build_task) list" where
  "trim_loop limit act [] tasks = tasks"
| "trim_loop limit act (i # is) tasks =
     (if length tasks \<le> limit then tasks
      else if act \<noteq> Some i then trim_loop limit act is (AList.delete i tasks)
      else trim_loop limit act is tasks)"

definition trim_history :: "'q build_manager \<Rightarrow> 'q build_manager" where
  "trim_history m = m\<lparr>bm_tasks := trim_loop (bm_max_history m) (bm_active m) (map fst (bm_tasks m)) (bm_tasks m)\<rparr>"

text \<open>\<open>Inl\<close> is \<^verbatim>\<open>BuildAlreadyRunningError\<close>, with the id of the running build; \<open>i\<close> is the new random id.\<close>

definition start_build :: "ustr \<Rightarrow> int \<Rightarrow> bool \<Rightarrow> 'q build_manager \<Rightarrow> ustr + build_task \<times> 'q build_manager" where
  "start_build i now dry m =
     (case bm_active m of
        Some j \<Rightarrow> Inl j
      | None \<Rightarrow>
          let t = \<lparr>bt_id = i, bt_dry_run = dry, bt_state = RUNNING, bt_started_at = now, bt_finished_at = None,
                   bt_progress = None, bt_report = None, bt_error = None\<rparr>;
              m = m\<lparr>bm_active := Some i, bm_tasks := AList.update i t (bm_tasks m)\<rparr>
          in Inr (t, publish (state_event t) (trim_history m)))"

definition update_task :: "ustr \<Rightarrow> (build_task \<Rightarrow> build_task) \<Rightarrow> 'q build_manager \<Rightarrow> 'q build_manager" where
  "update_task i f m = m\<lparr>bm_tasks := map (\<lambda>(j, t). (j, if j = i then f t else t)) (bm_tasks m)\<rparr>"

text \<open>How the worker ends: a report, a report whose content could not be taken into use, an error, a cancellation.\<close>

datatype run_end = Built build_report | RefreshFailed build_report ustr | Raised ustr | Cancelled

definition CANCELLED_TEXT :: ustr where
  "CANCELLED_TEXT = lit ''Cancelled: build interrupted''"

fun settle :: "run_end \<Rightarrow> build_task \<Rightarrow> build_task" where
  "settle (Built rep) t = t\<lparr>bt_report := Some rep, bt_state := SUCCEEDED\<rparr>"
| "settle (RefreshFailed rep e) t =
     (if bt_dry_run t then t\<lparr>bt_report := Some rep, bt_state := SUCCEEDED\<rparr>
      else t\<lparr>bt_report := Some rep, bt_state := FAILED, bt_error := Some e\<rparr>)"
| "settle (Raised e) t = t\<lparr>bt_state := FAILED, bt_error := Some e\<rparr>"
| "settle Cancelled t = t\<lparr>bt_state := FAILED, bt_error := Some CANCELLED_TEXT\<rparr>"

text \<open>The \<^verbatim>\<open>finally\<close> of \<^verbatim>\<open>_run\<close>, after the outcome has been settled on the task.\<close>

definition finish_build :: "ustr \<Rightarrow> int \<Rightarrow> run_end \<Rightarrow> 'q build_manager \<Rightarrow> 'q build_manager" where
  "finish_build i now e m =
     (let m = (update_task i (\<lambda>t. (settle e t)\<lparr>bt_finished_at := Some now\<rparr>) m)\<lparr>bm_active := None\<rparr>
      in case get_task i m of None \<Rightarrow> m | Some t \<Rightarrow> publish (state_event t) m)"

text \<open>A cancelled runner marks its task at once, then waits for the worker before it finishes.\<close>

definition cancel_build :: "ustr \<Rightarrow> 'q build_manager \<Rightarrow> 'q build_manager" where
  "cancel_build i m = update_task i (settle Cancelled) m"

text \<open>\<^verbatim>\<open>_make_callback\<close>: the new last stage, and whether the notification is passed on to the loop.\<close>

definition callback_step :: "ustr option \<Rightarrow> build_progress \<Rightarrow> ustr option \<times> bool" where
  "callback_step last_stage p =
     (let stage_changed = (Some (bp_stage p) \<noteq> last_stage);
          step = max 1 (bp_total p div 100)
      in (Some (bp_stage p),
          stage_changed \<or> bp_current p \<in> {0, bp_total p} \<or> bp_current p mod step = 0))"

definition on_progress :: "ustr \<Rightarrow> build_progress \<Rightarrow> 'q build_manager \<Rightarrow> 'q build_manager" where
  "on_progress i p m =
     (case get_task i m of
        None \<Rightarrow> m
      | Some t \<Rightarrow>
          if bt_state t \<noteq> RUNNING then m
          else publish \<lparr>ev_kind = ProgressEvent, ev_task = i, ev_state = bt_state t, ev_progress = Some p, ev_error = None\<rparr>
                 (update_task i (\<lambda>t. t\<lparr>bt_progress := Some p\<rparr>) m))"

section \<open>The stream\<close>

datatype ws_message = WsReady | WsSnapshot build_task | WsEvent build_event

text \<open>\<^verbatim>\<open>_stream\<close>: subscribe and read the latest build in one stretch, then forward what the queue holds.\<close>

definition open_stream :: "'q \<Rightarrow> 'q build_manager \<Rightarrow> ws_message list \<times> 'q build_manager" where
  "open_stream q m =
     (let m = subscribe q m
      in (WsReady # (case latest_task m of None \<Rightarrow> [] | Some t \<Rightarrow> [WsSnapshot t]), m))"

definition take_event :: "'q \<Rightarrow> 'q build_manager \<Rightarrow> (ws_message \<times> 'q build_manager) option" where
  "take_event q m =
     (case map_of (bm_queues m) q of
        Some (ev # es) \<Rightarrow> Some (WsEvent ev, m\<lparr>bm_queues := map (\<lambda>(k, xs). (k, if k = q then es else xs)) (bm_queues m)\<rparr>)
      | _ \<Rightarrow> None)"

section \<open>Builds over time\<close>

text \<open>
  The manager with three ghosts per subscriber: what was published since it joined, what it has read, and the
  snapshot it was given.  Progress for a task that no longer runs changes nothing and is no step; ids are
  random, so a new one is not in use.
\<close>

record 'q run_state =
  rs_manager :: "'q build_manager"
  rs_published :: "'q \<Rightarrow> build_event list"
  rs_read :: "'q \<Rightarrow> build_event list"
  rs_snapshot :: "'q \<Rightarrow> build_task option"

definition announce :: "build_event \<Rightarrow> 'q build_manager \<Rightarrow> 'q run_state \<Rightarrow> 'q run_state" where
  "announce ev m s = s\<lparr>rs_manager := m, rs_published := (\<lambda>q. rs_published s q @ [ev])\<rparr>"

inductive run_step :: "'q run_state \<Rightarrow> 'q run_state \<Rightarrow> bool" where
  joined: "q \<notin> fst ` set (bm_queues (rs_manager s)) \<Longrightarrow> open_stream q (rs_manager s) = (msgs, m) \<Longrightarrow>
    run_step s (s\<lparr>rs_manager := m, rs_published := (rs_published s)(q := []), rs_read := (rs_read s)(q := []),
      rs_snapshot := (rs_snapshot s)(q := latest_task (rs_manager s))\<rparr>)"
| parted: "run_step s (s\<lparr>rs_manager := unsubscribe q (rs_manager s)\<rparr>)"
| begun: "i \<notin> fst ` set (bm_tasks (rs_manager s)) \<Longrightarrow> start_build i now dry (rs_manager s) = Inr (t, m) \<Longrightarrow>
    run_step s (announce (state_event t) m s)"
| progressed: "get_task i (rs_manager s) = Some t \<Longrightarrow> bt_state t = RUNNING \<Longrightarrow>
    run_step s (announce \<lparr>ev_kind = ProgressEvent, ev_task = i, ev_state = bt_state t, ev_progress = Some p, ev_error = None\<rparr>
      (on_progress i p (rs_manager s)) s)"
| interrupted: "bm_active (rs_manager s) = Some i \<Longrightarrow> run_step s (s\<lparr>rs_manager := cancel_build i (rs_manager s)\<rparr>)"
| ended: "bm_active (rs_manager s) = Some i \<Longrightarrow> get_task i (rs_manager s) = Some t \<Longrightarrow>
    bt_state t = RUNNING \<or> e = Cancelled \<Longrightarrow>
    run_step s (announce (state_event (settle e t)) (finish_build i now e (rs_manager s)) s)"
| consumed: "take_event q (rs_manager s) = Some (WsEvent ev, m) \<Longrightarrow>
    run_step s (s\<lparr>rs_manager := m, rs_read := (rs_read s)(q := rs_read s q @ [ev])\<rparr>)"

inductive run_reach :: "nat \<Rightarrow> nat \<Rightarrow> 'q run_state \<Rightarrow> bool" for max_history :: nat and queue_size :: nat where
  idle: "run_reach max_history queue_size \<lparr>rs_manager = new_manager max_history queue_size,
    rs_published = (\<lambda>_. []), rs_read = (\<lambda>_. []), rs_snapshot = (\<lambda>_. None)\<rparr>"
| step: "run_reach max_history queue_size s \<Longrightarrow> run_step s s' \<Longrightarrow> run_reach max_history queue_size s'"

subsection \<open>Tasks\<close>

definition task_ok :: "ustr option \<Rightarrow> ustr \<times> build_task \<Rightarrow> bool" where
  "task_ok act p \<longleftrightarrow> (case p of (i, t) \<Rightarrow> bt_id t = i \<and> (bt_state t = RUNNING \<longrightarrow> act = Some i)
     \<and> (bt_finished_at t = None \<longleftrightarrow> act = Some i) \<and> (bt_state t = FAILED \<longleftrightarrow> bt_error t \<noteq> None)
     \<and> (bt_state t = SUCCEEDED \<longrightarrow> bt_report t \<noteq> None))"

definition tasks_inv :: "'q build_manager \<Rightarrow> bool" where
  "tasks_inv m \<longleftrightarrow> distinct (map fst (bm_tasks m)) \<and> (\<forall>p \<in> set (bm_tasks m). task_ok (bm_active m) p)
     \<and> (\<forall>i. bm_active m = Some i \<longrightarrow> bm_tasks m \<noteq> [] \<and> fst (last (bm_tasks m)) = i)
     \<and> length (bm_tasks m) \<le> max 1 (bm_max_history m)"

lemma publish_simps [simp]:
  "bm_tasks (publish ev m) = bm_tasks m" "bm_active (publish ev m) = bm_active m"
  "bm_max_history (publish ev m) = bm_max_history m" "bm_queue_size (publish ev m) = bm_queue_size m"
  "fst ` set (bm_queues (publish ev m)) = fst ` set (bm_queues m)" "map fst (bm_queues (publish ev m)) = map fst (bm_queues m)"
  by (force simp: publish_def)+

lemma update_task_simps [simp]:
  "bm_active (update_task i f m) = bm_active m" "bm_queues (update_task i f m) = bm_queues m"
  "bm_max_history (update_task i f m) = bm_max_history m" "bm_queue_size (update_task i f m) = bm_queue_size m"
  "map fst (bm_tasks (update_task i f m)) = map fst (bm_tasks m)" "length (bm_tasks (update_task i f m)) = length (bm_tasks m)"
  "bm_tasks (update_task i f m) = [] \<longleftrightarrow> bm_tasks m = []"
  by (simp_all add: update_task_def case_prod_beta comp_def)

lemma get_task_update: "get_task j (update_task i f m) = (if j = i then map_option f (get_task i m) else get_task j m)"
proof -
  have "map_of (map (\<lambda>(k, t). (k, if k = i then f t else t)) xs) j = (if j = i then map_option f (map_of xs i) else map_of xs j)" for xs
    by (induction xs) auto
  then show ?thesis by (simp add: get_task_def update_task_def)
qed

lemma last_update_task: "bm_tasks m \<noteq> [] \<Longrightarrow> last (bm_tasks (update_task i f m)) =
    (case last (bm_tasks m) of (j, t) \<Rightarrow> (j, if j = i then f t else t))"
  by (simp add: update_task_def last_map)

lemma settle_simps [simp]: "bt_id (settle e t) = bt_id t" "bt_finished_at (settle e t) = bt_finished_at t" "bt_state (settle e t) \<noteq> RUNNING"
  by (cases e; simp)+

lemma trim_loop_drop:
  "ts \<noteq> [] \<Longrightarrow> distinct (map fst ts) \<Longrightarrow> act = Some (fst (last ts)) \<Longrightarrow>
     trim_loop limit act (map fst ts) ts = drop (length ts - max 1 limit) ts"
proof (induction ts)
  case (Cons p ts)
  obtain i t where p: "p = (i, t)" by fastforce
  show ?case
  proof (cases ts)
    case Nil
    then show ?thesis using Cons.prems p by simp
  next
    case (Cons q qs)
    then have ne: "ts \<noteq> []" by simp
    then have act: "act = Some (fst (last ts))" "act \<noteq> Some i" using Cons.prems p by auto
    have del: "AList.delete i (p # ts) = ts" using Cons.prems p by (simp add: delete_conv filter_id_conv image_iff)
    have "\<not> length (p # ts) \<le> limit \<Longrightarrow> \<not> Suc (length ts) \<le> max 1 limit" using ne by (cases ts) auto
    then show ?thesis using Cons.IH [OF ne] Cons.prems act p ne del by (auto simp: Suc_diff_le)
  qed
qed simp

lemma start_build_cases:
  assumes "start_build i now dry m = Inr (t, m')" "tasks_inv m" "i \<notin> fst ` set (bm_tasks m)"
  shows "bm_active m = None \<and> bm_active m' = Some i \<and> bt_id t = i \<and> bt_state t = RUNNING \<and> bt_finished_at t = None \<and> bt_error t = None
    \<and> bm_tasks m' = drop (Suc (length (bm_tasks m)) - max 1 (bm_max_history m)) (bm_tasks m @ [(i, t)])
    \<and> bm_queues m' = map (\<lambda>(q, es). (q, put_event (bm_queue_size m) (state_event t) es)) (bm_queues m)
    \<and> bm_max_history m' = bm_max_history m \<and> bm_queue_size m' = bm_queue_size m"
proof -
  have up: "AList.update i t ts = ts @ [(i, t)]" if "i \<notin> fst ` set ts" for ts
    using that by (induction ts) auto
  have free: "bm_active m = None" using assms(1) by (auto simp: start_build_def Let_def split: option.splits)
  have d: "distinct (map fst (bm_tasks m @ [(i, t)]))" using assms(2,3) by (auto simp: tasks_inv_def)
  show ?thesis
    using assms(1) free up [OF assms(3)] trim_loop_drop [of "bm_tasks m @ [(i, t)]" "Some i" "bm_max_history m"] d
    by (auto simp: start_build_def Let_def trim_history_def publish_def)
qed

lemma tasks_step_start:
  assumes "start_build i now dry m = Inr (t, m')" "tasks_inv m" "i \<notin> fst ` set (bm_tasks m)"
  shows "tasks_inv m' \<and> latest_task m' = Some t"
proof -
  note c = start_build_cases [OF assms]
  let ?n = "Suc (length (bm_tasks m)) - max 1 (bm_max_history m)"
  let ?ts = "bm_tasks m @ [(i, t)]"
  have ts: "bm_tasks m' = drop ?n ?ts" using c by blast
  have n: "?n < length ?ts" by (simp add: max_def)
  have last: "last (bm_tasks m') = (i, t)" "bm_tasks m' \<noteq> []" using n by (auto simp: ts)
  have "distinct (map fst ?ts)" using assms(2,3) by (auto simp: tasks_inv_def)
  then have d: "distinct (map fst (bm_tasks m'))" by (metis ts distinct_drop drop_map)
  have "task_ok (Some i) p" if "p \<in> set (bm_tasks m)" for p
    using that assms(2,3) c by (force simp: tasks_inv_def task_ok_def)
  moreover have "task_ok (Some i) (i, t)" using c by (simp add: task_ok_def)
  ultimately have "\<forall>p \<in> set ?ts. task_ok (Some i) p" by auto
  then have "\<forall>p \<in> set (bm_tasks m'). task_ok (Some i) p" unfolding ts by (meson in_set_dropD)
  then show ?thesis using d last c by (auto simp: tasks_inv_def latest_task_def ts)
qed

lemma tasks_inv_update:
  assumes "tasks_inv m" "bm_active m' = act" "\<forall>j. act = Some j \<longrightarrow> bm_active m = Some j"
    "bm_max_history m' = bm_max_history m" "bm_tasks m' = bm_tasks (update_task i f m)"
    "\<forall>p \<in> set (bm_tasks m). task_ok act (fst p, if fst p = i then f (snd p) else snd p)"
  shows "tasks_inv m'"
proof -
  have "\<forall>p \<in> set (bm_tasks m'). task_ok act p" using assms(5,6) by (fastforce simp: update_task_def)
  moreover have "map fst (bm_tasks m') = map fst (bm_tasks m)" by (simp add: assms(5))
  moreover have "bm_tasks m \<noteq> [] \<Longrightarrow> fst (last (bm_tasks m')) = fst (last (bm_tasks m))"
    by (simp add: assms(5) last_update_task split: prod.splits)
  moreover have "length (bm_tasks m') = length (bm_tasks m)" "bm_tasks m' = [] \<longleftrightarrow> bm_tasks m = []" by (simp_all add: assms(5))
  ultimately show ?thesis using assms(1-4) by (auto simp: tasks_inv_def)
qed

lemma finish_build_eq:
  assumes "get_task i m = Some t"
  shows "finish_build i now e m = publish (state_event (settle e t))
    ((update_task i (\<lambda>t. (settle e t)\<lparr>bt_finished_at := Some now\<rparr>) m)\<lparr>bm_active := None\<rparr>)"
proof -
  have "get_task i ((update_task i g m)\<lparr>bm_active := None\<rparr>) = map_option g (get_task i m)" for g
    using get_task_update [of i i g m] by (simp add: get_task_def)
  then show ?thesis using assms by (simp add: finish_build_def Let_def state_event_def)
qed

lemma get_task_mem: "get_task i m = Some t \<Longrightarrow> (i, t) \<in> set (bm_tasks m)"
  by (auto simp: get_task_def dest: map_of_SomeD)

lemma get_task_unique: "tasks_inv m \<Longrightarrow> (i, t) \<in> set (bm_tasks m) \<Longrightarrow> get_task i m = Some t"
  by (simp add: get_task_def tasks_inv_def)

lemma task_ok_settle:
  "task_ok (Some i) (i, t) \<Longrightarrow> bt_state t = RUNNING \<or> e = Cancelled \<Longrightarrow>
     task_ok None (i, (settle e t)\<lparr>bt_finished_at := Some now\<rparr>)"
  by (cases e) (auto simp: task_ok_def)

lemma task_ok_progress [simp]: "task_ok act (i, t\<lparr>bt_progress := p\<rparr>) = task_ok act (i, t)"
  by (simp add: task_ok_def)

lemma task_ok_cancelled [simp]: "task_ok act (i, t) \<Longrightarrow> task_ok act (i, settle Cancelled t)"
  by (auto simp: task_ok_def)

lemma task_ok_idle: "task_ok (Some i) (j, t) \<Longrightarrow> j \<noteq> i \<Longrightarrow> task_ok None (j, t)"
  by (auto simp: task_ok_def)

lemma tasks_finish:
  assumes inv: "tasks_inv m" and act: "bm_active m = Some i" and t: "get_task i m = Some t" and e: "bt_state t = RUNNING \<or> e = Cancelled"
  shows "tasks_inv (finish_build i now e m)"
proof (rule tasks_inv_update [OF inv, where act = None])
  show "\<forall>p \<in> set (bm_tasks m). task_ok None (fst p, if fst p = i then (settle e (snd p))\<lparr>bt_finished_at := Some now\<rparr> else snd p)"
  proof
    fix p assume p: "p \<in> set (bm_tasks m)"
    then have ok: "task_ok (Some i) p" using inv act by (auto simp: tasks_inv_def)
    show "task_ok None (fst p, if fst p = i then (settle e (snd p))\<lparr>bt_finished_at := Some now\<rparr> else snd p)"
    proof (cases "fst p = i")
      case True
      then have "p = (i, t)" using get_task_unique [OF inv, of i "snd p"] p t by (cases p) auto
      then show ?thesis using task_ok_settle [of i t e now] ok e by simp
    next
      case False
      then show ?thesis using task_ok_idle [of i "fst p" "snd p"] ok by simp
    qed
  qed
qed (simp_all add: finish_build_eq [OF t])

lemma tasks_step: "run_step s s' \<Longrightarrow> tasks_inv (rs_manager s) \<Longrightarrow> tasks_inv (rs_manager s')"
proof (induction rule: run_step.induct)
  case (joined q s msgs m)
  then show ?case by (auto simp: open_stream_def Let_def subscribe_def tasks_inv_def)
next
  case (begun i s now dry t m)
  then show ?case using tasks_step_start [OF begun(2)] by (simp add: announce_def)
next
  case (progressed i s t p)
  let ?f = "\<lambda>t. t\<lparr>bt_progress := Some p\<rparr>"
  have "tasks_inv (on_progress i p (rs_manager s))"
  proof (rule tasks_inv_update [OF progressed.prems, where f = ?f and i = i and act = "bm_active (rs_manager s)"])
    show "\<forall>p \<in> set (bm_tasks (rs_manager s)). task_ok (bm_active (rs_manager s)) (fst p, if fst p = i then ?f (snd p) else snd p)"
      using progressed.prems by (fastforce simp: tasks_inv_def)
  qed (use progressed in \<open>simp_all add: on_progress_def\<close>)
  then show ?case by (simp add: announce_def)
next
  case (interrupted s i)
  show ?case
  proof (simp, rule tasks_inv_update [OF interrupted.prems, where f = "settle Cancelled" and i = i and act = "bm_active (rs_manager s)"])
    show "\<forall>p \<in> set (bm_tasks (rs_manager s)). task_ok (bm_active (rs_manager s))
        (fst p, if fst p = i then settle Cancelled (snd p) else snd p)"
      using interrupted.prems by (fastforce simp: tasks_inv_def simp del: settle.simps)
  qed (simp_all add: cancel_build_def)
next
  case (ended s i t e now)
  show ?case using tasks_finish [OF ended.prems ended(1-3)] by (simp add: announce_def)
next
  case (consumed q s ev m)
  then show ?case by (auto simp: take_event_def tasks_inv_def split: option.splits list.splits)
qed (auto simp: unsubscribe_def tasks_inv_def)

subsection \<open>Queues\<close>

text \<open>
  What holds of one subscriber: its queue fits and is the end of what was published, what it read and will
  read is in order, the newest event is never the one dropped, and while no build runs the newest event (or the
  snapshot, when there was none) shows the latest task.
\<close>

definition queue_ok ::
  "nat \<Rightarrow> ustr option \<Rightarrow> build_task option \<Rightarrow> build_task option \<Rightarrow> build_event list \<Rightarrow> build_event list \<Rightarrow> build_event list \<Rightarrow> bool" where
  "queue_ok cap act latest snap pub rd es \<longleftrightarrow>
     (0 < cap \<longrightarrow> length es \<le> cap) \<and> suffix es pub \<and> subseq (rd @ es) pub
     \<and> (pub \<noteq> [] \<longrightarrow> rd @ es \<noteq> [] \<and> last (rd @ es) = last pub)
     \<and> (act = None \<longrightarrow> (if pub = [] then snap = latest else \<exists>t. latest = Some t \<and> last pub = state_event t))"

definition queues_inv :: "'q run_state \<Rightarrow> bool" where
  "queues_inv s \<longleftrightarrow> distinct (map fst (bm_queues (rs_manager s)))
     \<and> (\<forall>(q, es) \<in> set (bm_queues (rs_manager s)).
          queue_ok (bm_queue_size (rs_manager s)) (bm_active (rs_manager s)) (latest_task (rs_manager s))
            (rs_snapshot s q) (rs_published s q) (rs_read s q) es)"

lemma queue_ok_put:
  assumes ok: "queue_ok cap act latest snap pub rd es"
    and fin: "act' = None \<Longrightarrow> \<exists>t. latest' = Some t \<and> ev = state_event t"
  shows "queue_ok cap act' latest' snap (pub @ [ev]) rd (put_event cap ev es)"
proof -
  have "subseq (rd @ tl es) (rd @ es)" by (cases es) (auto intro: list_emb_append_mono)
  then have tl: "subseq (rd @ tl es) pub" using ok unfolding queue_ok_def by (blast intro: subseq_order.trans)
  have sf: "suffix es pub" using ok by (simp add: queue_ok_def)
  moreover have "suffix (tl es) es" by (cases es) (auto intro: suffix_ConsI)
  ultimately have "suffix (tl es) pub" by (rule suffix_order.trans [rotated])
  with sf have "suffix (tl es @ [ev]) (pub @ [ev])" "suffix (es @ [ev]) (pub @ [ev])" by simp_all
  moreover have "subseq (rd @ tl es @ [ev]) (pub @ [ev])" "subseq (rd @ es @ [ev]) (pub @ [ev])"
    using ok tl subseq_append_iff [of _ pub "[ev]"] by (auto simp: queue_ok_def list_emb_append_mono simp flip: append_assoc)
  ultimately show ?thesis using ok fin by (auto simp: queue_ok_def put_event_def)
qed

lemma queue_ok_take: "queue_ok cap act latest snap pub rd (ev # es) \<Longrightarrow> queue_ok cap act latest snap pub (rd @ [ev]) es"
  by (auto simp: queue_ok_def dest: suffix_ConsD)

lemma queues_announce:
  assumes inv: "queues_inv s" and "bm_queues m = map (\<lambda>(q, es). (q, put_event (bm_queue_size m) ev es)) (bm_queues (rs_manager s))"
    and "bm_queue_size m = bm_queue_size (rs_manager s)"
    and fin: "bm_active m = None \<Longrightarrow> \<exists>t. latest_task m = Some t \<and> ev = state_event t"
  shows "queues_inv (announce ev m s)"
proof -
  have "map fst (bm_queues m) = map fst (bm_queues (rs_manager s))" using assms(2) by (simp add: case_prod_beta comp_def)
  moreover have "queue_ok (bm_queue_size m) (bm_active m) (latest_task m) (rs_snapshot s q) (rs_published s q @ [ev]) (rs_read s q) es"
    if qs: "(q, es) \<in> set (bm_queues m)" for q es
  proof -
    from qs assms(2) obtain es0 where es0: "(q, es0) \<in> set (bm_queues (rs_manager s))" "es = put_event (bm_queue_size m) ev es0"
      by auto
    then have "queue_ok (bm_queue_size m) (bm_active (rs_manager s)) (latest_task (rs_manager s))
        (rs_snapshot s q) (rs_published s q) (rs_read s q) es0"
      using inv assms(3) by (auto simp: queues_inv_def)
    from queue_ok_put [OF this fin] show ?thesis by (simp add: es0(2))
  qed
  ultimately show ?thesis using inv by (auto simp: queues_inv_def announce_def)
qed

lemma queues_unpublished:
  assumes "queues_inv s" "bm_active m \<noteq> None" "bm_queues m = bm_queues (rs_manager s)" "bm_queue_size m = bm_queue_size (rs_manager s)"
  shows "queues_inv (s\<lparr>rs_manager := m\<rparr>)"
  using assms by (auto simp: queues_inv_def queue_ok_def)

lemma latest_task_active:
  "tasks_inv m \<Longrightarrow> bm_active m = Some i \<Longrightarrow> get_task i m = Some t \<Longrightarrow> latest_task m = Some t"
  using get_task_unique [of m i "snd (last (bm_tasks m))"] last_in_set [of "bm_tasks m"]
  by (cases "last (bm_tasks m)") (auto simp: tasks_inv_def latest_task_def)

lemma latest_task_update:
  assumes "tasks_inv m" "bm_active m = Some i" "get_task i m = Some t"
  shows "latest_task (update_task i f m) = Some (f t)"
  using latest_task_active [OF assms] assms(1,2)
  by (cases "last (bm_tasks m)") (auto simp: latest_task_def last_update_task tasks_inv_def split: if_splits)

lemma latest_task_active_irrelevant [simp]: "latest_task (m\<lparr>bm_active := a\<rparr>) = latest_task m" "latest_task (publish ev m) = latest_task m"
  by (simp_all add: latest_task_def)

lemma running_is_active: "tasks_inv m \<Longrightarrow> get_task i m = Some t \<Longrightarrow> bt_state t = RUNNING \<Longrightarrow> bm_active m = Some i"
  by (auto simp: tasks_inv_def task_ok_def dest: get_task_mem)

lemma queues_step: "run_step s s' \<Longrightarrow> tasks_inv (rs_manager s) \<Longrightarrow> queues_inv s \<Longrightarrow> queues_inv s'"
proof (induction rule: run_step.induct)
  case (joined q s msgs m)
  have m: "m = subscribe q (rs_manager s)" using joined(2) by (simp add: open_stream_def Let_def)
  have l: "latest_task m = latest_task (rs_manager s)" by (simp add: m subscribe_def latest_task_def)
  have "queue_ok c a l l [] [] []" for c a l by (simp add: queue_ok_def)
  moreover have "x \<noteq> q" if "(x, es) \<in> set (bm_queues (rs_manager s))" for x es using that joined(1) by force
  ultimately show ?case using joined(1) joined.prems l by (fastforce simp: queues_inv_def m subscribe_def)
next
  case (parted s q)
  then show ?case
    by (auto simp: queues_inv_def unsubscribe_def latest_task_def distinct_map_filter)
next
  case (begun i s now dry t m)
  note c = start_build_cases [OF begun(2) begun.prems(1) begun(1)]
  show ?case using c begun.prems by (intro queues_announce) auto
next
  case (progressed i s t p)
  have "bm_active (rs_manager s) = Some i" using progressed running_is_active by blast
  then show ?case using progressed
    by (intro queues_announce) (auto simp: on_progress_def publish_def)
next
  case (interrupted s i)
  then show ?case by (intro queues_unpublished) (auto simp: cancel_build_def)
next
  case (ended s i t e now)
  have "latest_task (finish_build i now e (rs_manager s)) = Some ((settle e t)\<lparr>bt_finished_at := Some now\<rparr>)"
    using ended.prems(1) ended(1,2) by (simp add: finish_build_eq [OF ended(2)] latest_task_update)
  then show ?case using ended.prems(2)
    by (intro queues_announce) (auto simp: finish_build_eq [OF ended(2)] publish_def state_event_def)
next
  case (consumed q s ev m)
  then obtain es where es: "map_of (bm_queues (rs_manager s)) q = Some (ev # es)"
    and m: "m = (rs_manager s)\<lparr>bm_queues := map (\<lambda>(k, xs). (k, if k = q then es else xs)) (bm_queues (rs_manager s))\<rparr>"
    by (auto simp: take_event_def split: option.splits list.splits)
  have d: "distinct (map fst (bm_queues (rs_manager s)))" using consumed.prems by (simp add: queues_inv_def)
  have only: "xs = ev # es" if "(q, xs) \<in> set (bm_queues (rs_manager s))" for xs using that es d by simp
  have "map fst (bm_queues m) = map fst (bm_queues (rs_manager s))" by (simp add: m case_prod_beta comp_def)
  moreover have "queue_ok (bm_queue_size m) (bm_active m) (latest_task m) (rs_snapshot s x) (rs_published s x)
      (((rs_read s)(q := rs_read s q @ [ev])) x) xs" if "(x, xs) \<in> set (bm_queues m)" for x xs
  proof (cases "x = q")
    case True
    then have "(q, ev # es) \<in> set (bm_queues (rs_manager s))" "xs = es" using that es m by (auto dest: map_of_SomeD)
    then show ?thesis using True consumed.prems(2) by (auto simp: queues_inv_def m latest_task_def intro!: queue_ok_take)
  next
    case False
    then show ?thesis using that consumed.prems(2) by (auto simp: queues_inv_def m latest_task_def)
  qed
  ultimately show ?case using d by (auto simp: queues_inv_def)
qed

lemma run_reach_inv:
  "run_reach h c s \<Longrightarrow> tasks_inv (rs_manager s) \<and> queues_inv s \<and> bm_max_history (rs_manager s) = h \<and> bm_queue_size (rs_manager s) = c"
proof (induction rule: run_reach.induct)
  case idle
  then show ?case by (simp add: tasks_inv_def queues_inv_def new_manager_def)
next
  case (step s s')
  have "bm_max_history (rs_manager s') = bm_max_history (rs_manager s) \<and> bm_queue_size (rs_manager s') = bm_queue_size (rs_manager s)"
    using step(2)
  proof (induction rule: run_step.induct)
    case (begun i s now dry t m)
    then show ?case by (auto simp: announce_def start_build_def Let_def trim_history_def split: option.splits)
  next
    case (ended s i t e now)
    then show ?case by (simp add: announce_def finish_build_eq)
  qed (auto simp: announce_def open_stream_def Let_def subscribe_def unsubscribe_def on_progress_def cancel_build_def take_event_def
        split: option.splits list.splits)
  then show ?case using step tasks_step queues_step by metis
qed

end
