(* ===== verification/BuildProperties.thy ===== *)
theory BuildProperties
  imports BuildTasks
begin

text \<open>Properties of the build manager and its streams, with a sample run: join, start, fail, read to the end.\<close>

section \<open>A sample run\<close>

definition sample_task :: build_task where
  "sample_task = \<lparr>bt_id = lit ''t'', bt_dry_run = False, bt_state = RUNNING, bt_started_at = 5, bt_finished_at = None,
     bt_progress = None, bt_report = None, bt_error = None\<rparr>"

definition sample_failed :: build_task where
  "sample_failed = sample_task\<lparr>bt_state := FAILED, bt_error := Some (lit ''boom''), bt_finished_at := Some 6\<rparr>"

definition sample_manager :: "(ustr \<times> build_task) list \<Rightarrow> ustr option \<Rightarrow> build_event list \<Rightarrow> unit build_manager" where
  "sample_manager tasks act es = \<lparr>bm_max_history = 10, bm_queue_size = 512, bm_tasks = tasks, bm_active = act, bm_queues = [((), es)]\<rparr>"

definition sample_run :: "unit build_manager \<Rightarrow> build_event list \<Rightarrow> build_event list \<Rightarrow> unit run_state" where
  "sample_run m pub rd = \<lparr>rs_manager = m, rs_published = (\<lambda>_. pub), rs_read = (\<lambda>_. rd), rs_snapshot = (\<lambda>_. None)\<rparr>"

abbreviation "sample_running \<equiv> sample_run (sample_manager [(lit ''t'', sample_task)] (Some (lit ''t'')) [state_event sample_task])
  [state_event sample_task] []"

abbreviation "sample_done es rd \<equiv> sample_run (sample_manager [(lit ''t'', sample_failed)] None es)
  [state_event sample_task, state_event sample_failed] rd"

lemma sample_begins: "run_step (sample_run (sample_manager [] None []) [] []) sample_running"
proof -
  have "start_build (lit ''t'') 5 False (rs_manager (sample_run (sample_manager [] None []) [] [])) =
      Inr (sample_task, rs_manager sample_running)"
    by (simp add: start_build_def sample_run_def sample_manager_def sample_task_def trim_history_def publish_def put_event_def Let_def)
  then have "run_step (sample_run (sample_manager [] None []) [] [])
      (announce (state_event sample_task) (rs_manager sample_running) (sample_run (sample_manager [] None []) [] []))"
    by (intro run_step.begun) (simp_all add: sample_run_def sample_manager_def)
  then show ?thesis by (simp add: announce_def sample_run_def)
qed

lemma sample_running_reached: "run_reach 10 512 sample_running"
proof -
  have "run_step \<lparr>rs_manager = new_manager 10 512, rs_published = (\<lambda>_. []), rs_read = (\<lambda>_. []), rs_snapshot = (\<lambda>_. None)\<rparr>
      (sample_run (sample_manager [] None []) [] [])"
    using run_step.joined [of "()" "\<lparr>rs_manager = new_manager 10 512, rs_published = (\<lambda>_. []), rs_read = (\<lambda>_. []), rs_snapshot = (\<lambda>_. None)\<rparr>"]
    by (simp add: new_manager_def open_stream_def subscribe_def sample_run_def sample_manager_def latest_task_def fun_upd_def)
  then have "run_reach 10 512 (sample_run (sample_manager [] None []) [] [])"
    by (rule run_reach.step [OF run_reach.idle])
  then show ?thesis using sample_begins by (rule run_reach.step)
qed

lemma sample_fails: "run_step sample_running (sample_done [state_event sample_task, state_event sample_failed] [])"
proof -
  have "get_task (lit ''t'') (rs_manager sample_running) = Some sample_task"
    by (simp add: get_task_def sample_run_def sample_manager_def)
  then show ?thesis
    using run_step.ended [of sample_running "lit ''t''" sample_task "Raised (lit ''boom'')" 6]
    by (simp add: finish_build_eq)
      (simp add: sample_run_def sample_manager_def announce_def publish_def update_task_def put_event_def sample_task_def sample_failed_def state_event_def)
qed

lemma sample_done_reached: "run_reach 10 512 (sample_done [] [state_event sample_task, state_event sample_failed])"
proof -
  have "run_reach 10 512 (sample_done [state_event sample_task, state_event sample_failed] [])"
    by (rule run_reach.step [OF sample_running_reached sample_fails])
  moreover have step: "run_step (sample_done (ev # es) rd) (sample_done es (rd @ [ev]))" for ev es rd
    using run_step.consumed [of "()" "sample_done (ev # es) rd" ev "sample_manager [(lit ''t'', sample_failed)] None es"]
    by (simp add: take_event_def sample_run_def sample_manager_def fun_upd_def)
  ultimately have "run_reach 10 512 (sample_done [state_event sample_failed] [state_event sample_task])"
    using step [of "state_event sample_task" "[state_event sample_failed]" "[]"] by (auto intro: run_reach.step)
  with step [of "state_event sample_failed" "[]" "[state_event sample_task]"] show ?thesis by (auto intro: run_reach.step)
qed

section \<open>Properties\<close>

text \<open>C34: Builds run one at a time: a task that runs or is not finished is the active one and the latest, a task has failed
  exactly when it has an error, the history stays within its limit, and a new build is refused exactly while one is
  active and is the latest task otherwise.\<close>
theorem one_build_at_a_time:
  assumes "run_reach max_history queue_size s" and "m = rs_manager s" and "i \<notin> fst ` set (bm_tasks m)"
  shows "(\<forall>j t. get_task j m = Some t \<longrightarrow> bt_id t = j \<and> (bt_state t = RUNNING \<longrightarrow> bm_active m = Some j)
        \<and> (bt_finished_at t = None \<longleftrightarrow> bm_active m = Some j) \<and> (bt_state t = FAILED \<longleftrightarrow> bt_error t \<noteq> None))
    \<and> length (bm_tasks m) \<le> max 1 max_history
    \<and> (case bm_active m of
         Some j \<Rightarrow> start_build i now dry m = Inl j \<and> (\<exists>t. get_task j m = Some t \<and> latest_task m = Some t)
       | None \<Rightarrow> (\<exists>t m'. start_build i now dry m = Inr (t, m') \<and> bm_active m' = Some i \<and> latest_task m' = Some t))"
proof -
  have inv: "tasks_inv m" and h: "bm_max_history m = max_history" using run_reach_inv [OF assms(1)] assms(2) by auto
  have tasks: "task_ok (bm_active m) (j, t)" if "get_task j m = Some t" for j t
    using inv get_task_mem [OF that] by (auto simp: tasks_inv_def)
  have "case bm_active m of
         Some j \<Rightarrow> start_build i now dry m = Inl j \<and> (\<exists>t. get_task j m = Some t \<and> latest_task m = Some t)
       | None \<Rightarrow> (\<exists>t m'. start_build i now dry m = Inr (t, m') \<and> bm_active m' = Some i \<and> latest_task m' = Some t)"
  proof (cases "bm_active m")
    case None
    then obtain t m' where "start_build i now dry m = Inr (t, m')" by (simp add: start_build_def Let_def)
    then show ?thesis using None start_build_cases [OF _ inv assms(3)] tasks_step_start [OF _ inv assms(3)] by auto
  next
    case (Some j)
    then have l: "bm_tasks m \<noteq> []" "fst (last (bm_tasks m)) = j" using inv by (auto simp: tasks_inv_def)
    then have "get_task j m = Some (snd (last (bm_tasks m)))"
      using get_task_unique [OF inv, of j] last_in_set [OF l(1)] by (cases "last (bm_tasks m)") auto
    then show ?thesis using Some l by (simp add: start_build_def latest_task_def)
  qed
  then show ?thesis using tasks inv h by (auto simp: task_ok_def tasks_inv_def)
qed

theorem one_build_at_a_time_witness:
  "start_build (lit ''u'') 7 True (rs_manager sample_running) = Inl (lit ''t'')"
  using one_build_at_a_time [OF sample_running_reached refl, of "lit ''u''" 7 True]
  by (simp add: sample_run_def sample_manager_def)

text \<open>What a client shows after the snapshot and the events it has read.\<close>

definition client_view :: "build_task option \<Rightarrow> build_event list \<Rightarrow> (ustr \<times> build_state \<times> ustr option) option" where
  "client_view snap evs =
     (if evs = [] then map_option (\<lambda>t. (bt_id t, bt_state t, bt_error t)) snap
      else Some (ev_task (last evs), ev_state (last evs), ev_error (last evs)))"

text \<open>A stream never misses the end: a subscriber reads the published events in order, in a queue that never exceeds
  its size, and although a full queue drops its oldest event, a client that has read everything while no build runs
  shows the id, state and error of the latest build.\<close>
theorem streams_see_the_end:
  assumes "run_reach max_history queue_size s" and "(q, es) \<in> set (bm_queues (rs_manager s))"
  shows "subseq (rs_read s q @ es) (rs_published s q) \<and> (0 < queue_size \<longrightarrow> length es \<le> queue_size)
    \<and> (es = [] \<and> bm_active (rs_manager s) = None \<longrightarrow>
        client_view (rs_snapshot s q) (rs_read s q)
          = map_option (\<lambda>t. (bt_id t, bt_state t, bt_error t)) (latest_task (rs_manager s)))"
proof -
  have "queue_ok queue_size (bm_active (rs_manager s)) (latest_task (rs_manager s)) (rs_snapshot s q) (rs_published s q) (rs_read s q) es"
    using run_reach_inv [OF assms(1)] assms(2) by (auto simp: queues_inv_def)
  then show ?thesis by (auto simp: queue_ok_def client_view_def state_event_def split: if_splits)
qed

theorem streams_see_the_end_witness:
  "client_view None [state_event sample_task, state_event sample_failed] = Some (lit ''t'', FAILED, Some (lit ''boom''))"
  using streams_see_the_end [OF sample_done_reached, of "()" "[]"]
  by (simp add: sample_run_def sample_manager_def latest_task_def sample_failed_def sample_task_def)

end
