(* ===== verification/Config.thy ===== *)
theory Config
  imports AuthMachine PyFloat
begin

text \<open>
  \<^verbatim>\<open>config/normalizer.py\<close>, \<^verbatim>\<open>config/loader.py\<close>, \<^verbatim>\<open>config/settings.py\<close>, \<^verbatim>\<open>config/service.py\<close> and the loading in
  \<^verbatim>\<open>main.py\<close>: layered configuration and its validation.  Upper and lower case are those of ASCII (the names
  and switches of the program are ASCII), integers are read from ASCII digits without the interpreter's
  limit on their number; paths are kept as texts.  The file system, the TOML and \<^verbatim>\<open>.env\<close> parsers and \<^verbatim>\<open>ipaddress\<close> are arguments.
\<close>

section \<open>Values and texts\<close>

text \<open>
  A TOML value.  A float is a number, or none (an infinity or not a number), and comes with its text;
  \<open>Other\<close> is any other kind (a date, an array) with its text.
\<close>

datatype non_number = Infinity_value | Nan_value

datatype config_value =
    Text ustr | Integer int | Boolean bool | Number rat ustr | Non_number non_number ustr | Other ustr

definition lower_char :: "nat \<Rightarrow> nat" where
  "lower_char c = (if 65 \<le> c \<and> c \<le> 90 then c + 32 else c)"

definition upper_char :: "nat \<Rightarrow> nat" where
  "upper_char c = (if 97 \<le> c \<and> c \<le> 122 then c - 32 else c)"

definition lower :: "ustr \<Rightarrow> ustr" where "lower s = map lower_char s"

definition upper :: "ustr \<Rightarrow> ustr" where "upper s = map upper_char s"

definition signed_dec :: "int \<Rightarrow> ustr" where
  "signed_dec n = (if n < 0 then 45 # dec (nat (- n)) else dec (nat n))"

fun value_text :: "config_value \<Rightarrow> ustr" where
  "value_text (Text s) = s"
| "value_text (Integer n) = signed_dec n"
| "value_text (Boolean b) = (if b then lit ''True'' else lit ''False'')"
| "value_text (Number x s) = s"
| "value_text (Non_number k s) = s"
| "value_text (Other s) = s"

text \<open>\<^verbatim>\<open>int(text)\<close>: an optional sign and digits, single underscores between them allowed.\<close>

fun digits_value :: "bool \<Rightarrow> int \<Rightarrow> ustr \<Rightarrow> int option" where
  "digits_value after_digit acc [] = (if after_digit then Some acc else None)"
| "digits_value after_digit acc (c # cs) =
     (if 48 \<le> c \<and> c \<le> 57 then digits_value True (acc * 10 + int c - 48) cs
      else if c = 95 \<and> after_digit then digits_value False acc cs
      else None)"

definition int_of_text :: "ustr \<Rightarrow> int option" where
  "int_of_text s =
     (case strip s of
        c # cs \<Rightarrow> if c = 45 then map_option uminus (digits_value False 0 cs)
                  else if c = 43 then digits_value False 0 cs
                  else digits_value False 0 (c # cs)
      | [] \<Rightarrow> None)"

text \<open>
  \<^verbatim>\<open>int(value)\<close>: a float is truncated.  \<open>Not_valid\<close> is the \<^verbatim>\<open>ConfigError\<close> made of a \<^verbatim>\<open>TypeError\<close> or
  \<^verbatim>\<open>ValueError\<close>; converting an infinity raises \<^verbatim>\<open>OverflowError\<close>, which nothing handles.
\<close>

datatype get_error = Not_valid | Overflow_raised

fun int_of_value :: "config_value \<Rightarrow> get_error + int" where
  "int_of_value (Text s) = (case int_of_text s of None \<Rightarrow> Inl Not_valid | Some n \<Rightarrow> Inr n)"
| "int_of_value (Integer n) = Inr n"
| "int_of_value (Boolean b) = Inr (if b then 1 else 0)"
| "int_of_value (Number x _) = Inr (if 0 \<le> x then \<lfloor>x\<rfloor> else \<lceil>x\<rceil>)"
| "int_of_value (Non_number k _) = Inl (case k of Infinity_value \<Rightarrow> Overflow_raised | Nan_value \<Rightarrow> Not_valid)"
| "int_of_value (Other _) = Inl Not_valid"

section \<open>The normalizer\<close>

type_synonym 'v sections = "(ustr \<times> (ustr \<times> 'v) list) list"

type_synonym config = "config_value sections"

definition ENV_PREFIX :: ustr where "ENV_PREFIX = lit ''BUNSHO_''"

definition section_of :: "'v sections \<Rightarrow> ustr \<Rightarrow> (ustr \<times> 'v) list" where
  "section_of data s = (case map_of data s of None \<Rightarrow> [] | Some kvs \<Rightarrow> kvs)"

definition put_option :: "ustr \<Rightarrow> ustr \<Rightarrow> 'v \<Rightarrow> 'v sections \<Rightarrow> 'v sections" where
  "put_option s k v data = AList.update (lower s) (AList.update (lower k) v (section_of data (lower s))) data"

text \<open>\<^verbatim>\<open>ConfigNormalizer(raw)\<close>: a top-level key that is no table is an error (its name).\<close>

fun normalize :: "config \<Rightarrow> (ustr \<times> (ustr \<times> config_value) list option) list \<Rightarrow> ustr + config" where
  "normalize data [] = Inr data"
| "normalize data ((s, None) # raw) = Inl s"
| "normalize data ((s, Some kvs) # raw) =
     normalize (fold (\<lambda>(k, v). put_option s k v) kvs (AList.update (lower s) (section_of data (lower s)) data)) raw"

definition option_value :: "config \<Rightarrow> string \<Rightarrow> string \<Rightarrow> config_value option" where
  "option_value cfg s k = map_of (section_of cfg (lower (lit s))) (lower (lit k))"

definition has_option :: "config \<Rightarrow> string \<Rightarrow> string \<Rightarrow> bool" where
  "has_option cfg s k \<longleftrightarrow> option_value cfg s k \<noteq> None"

definition get_string :: "config \<Rightarrow> string \<Rightarrow> string \<Rightarrow> ustr \<Rightarrow> ustr" where
  "get_string cfg s k fallback = (case option_value cfg s k of None \<Rightarrow> fallback | Some v \<Rightarrow> value_text v)"

definition get_int :: "config \<Rightarrow> string \<Rightarrow> string \<Rightarrow> int \<Rightarrow> get_error + int" where
  "get_int cfg s k fallback = (case option_value cfg s k of None \<Rightarrow> Inr fallback | Some v \<Rightarrow> int_of_value v)"

definition TRUE_WORDS :: "ustr list" where "TRUE_WORDS = [lit ''1'', lit ''true'', lit ''yes'', lit ''on'']"

definition FALSE_WORDS :: "ustr list" where "FALSE_WORDS = [lit ''0'', lit ''false'', lit ''no'', lit ''off'']"

definition get_bool :: "config \<Rightarrow> string \<Rightarrow> string \<Rightarrow> bool \<Rightarrow> bool option" where
  "get_bool cfg s k fallback =
     (case option_value cfg s k of
        None \<Rightarrow> Some fallback
      | Some (Boolean b) \<Rightarrow> Some b
      | Some v \<Rightarrow>
          (let w = lower (strip (value_text v))
           in if w \<in> set TRUE_WORDS then Some True else if w \<in> set FALSE_WORDS then Some False else None))"

text \<open>\<^verbatim>\<open>text.partition("__")\<close>: before and after the first separator, or no separator.\<close>

fun partition_dunder :: "ustr \<Rightarrow> (ustr \<times> ustr) option" where
  "partition_dunder (a # b # cs) =
     (if a = 95 \<and> b = 95 then Some ([], cs) else map_option (\<lambda>(x, y). (a # x, y)) (partition_dunder (b # cs)))"
| "partition_dunder _ = None"

text \<open>The option an environment variable stands for.\<close>

definition env_option :: "ustr \<Rightarrow> (ustr \<times> ustr) option" where
  "env_option name =
     (let u = upper name in
      if \<not> starts_with ENV_PREFIX u then None
      else (case partition_dunder (drop (length ENV_PREFIX) u) of
              None \<Rightarrow> None
            | Some (s, k) \<Rightarrow> if s = [] \<or> k = [] then None else Some (lower s, lower k)))"

definition merge_one :: "ustr \<times> ustr \<Rightarrow> config \<Rightarrow> config" where
  "merge_one nv cfg =
     (case env_option (fst nv) of None \<Rightarrow> cfg | Some (s, k) \<Rightarrow> put_option s k (Text (snd nv)) cfg)"

definition merge_env :: "(ustr \<times> ustr) list \<Rightarrow> config \<Rightarrow> config" where
  "merge_env environ cfg = fold merge_one environ cfg"

section \<open>Loading\<close>

text \<open>What can be wrong with a setting; every problem found is reported.\<close>

datatype proxy_problem = Not_a_network | Host_bits_set | Matches_every_address

datatype config_problem =
    Bad_level ustr | Bad_sha | Bad_deck_name | No_jamdict_db ustr | Data_dir_no_dir ustr | Frontend_no_dir ustr
  | Stale_shell ustr | Unreadable_shell ustr | No_host | Bad_port int | Bad_origin ustr | Bad_proxy ustr proxy_problem
  | Not_an_integer string string | Not_a_boolean string string | No_username | Bad_password_hash | Short_secret
  | Bad_access_ttl int | Bad_refresh_ttl int

datatype toml = No_file | Invalid_toml | Table "(ustr \<times> (ustr \<times> config_value) list option) list"

datatype config_error =
    Config_file_missing | Config_file_invalid | Not_a_table ustr | Env_file_missing
  | Invalid "config_problem list" | Uncaught get_error

text \<open>A \<^verbatim>\<open>.env\<close> file gives names with a value or without; those without are skipped.\<close>

definition load_config ::
  "(ustr \<Rightarrow> toml) \<Rightarrow> (ustr \<Rightarrow> (ustr \<times> ustr option) list option) \<Rightarrow> ustr option \<Rightarrow> ustr option \<Rightarrow> (ustr \<times> ustr) list
     \<Rightarrow> config_error + config" where
  "load_config read_toml read_env config_file env_file environ =
     and_then (case config_file of
                 None \<Rightarrow> Inr []
               | Some f \<Rightarrow> (case read_toml f of No_file \<Rightarrow> Inl Config_file_missing
                             | Invalid_toml \<Rightarrow> Inl Config_file_invalid | Table raw \<Rightarrow> Inr raw)) (\<lambda>raw.
     and_then (case env_file of
                 None \<Rightarrow> Inr []
               | Some f \<Rightarrow> (case read_env f of None \<Rightarrow> Inl Env_file_missing
                             | Some kvs \<Rightarrow> Inr (List.map_filter (\<lambda>(k, v). map_option (Pair k) v) kvs))) (\<lambda>file_env.
     and_then (raise_as Not_a_table (normalize [] raw)) (\<lambda>cfg.
       Inr (merge_env (AList.updates (map fst environ) (map snd environ)
              (AList.updates (map fst file_env) (map snd file_env) [])) cfg))))"

definition CONFIG_FILE_ENV :: ustr where "CONFIG_FILE_ENV = lit ''BUNSHO_CONFIG_FILE''"

definition ENV_FILE_ENV :: ustr where "ENV_FILE_ENV = lit ''BUNSHO_ENV_FILE''"

definition nonempty :: "ustr option \<Rightarrow> ustr option" where
  "nonempty x = (case x of Some v \<Rightarrow> if v = [] then None else Some v | None \<Rightarrow> None)"

definition build_config_sources ::
  "(ustr \<Rightarrow> bool) \<Rightarrow> (ustr \<times> ustr) list \<Rightarrow> ustr option \<times> ustr option" where
  "build_config_sources is_file env =
     (nonempty (map_of env CONFIG_FILE_ENV),
      case nonempty (map_of env ENV_FILE_ENV) of
        Some f \<Rightarrow> Some f
      | None \<Rightarrow> if is_file (lit ''.env'') then Some (lit ''.env'') else None)"

section \<open>Library settings\<close>

text \<open>
  The file system as the validation sees it; \<open>fs_index\<close> is what reading \<^verbatim>\<open>index.html\<close> of a folder gives.
\<close>

datatype index_file = No_index | Unreadable_index | Index_text ustr

record file_system =
  fs_is_file :: "ustr \<Rightarrow> bool"
  fs_exists :: "ustr \<Rightarrow> bool"
  fs_is_dir :: "ustr \<Rightarrow> bool"
  fs_index :: "ustr \<Rightarrow> index_file"

definition CSP_NONCE_PLACEHOLDER :: ustr where "CSP_NONCE_PLACEHOLDER = lit ''__CSP_NONCE__''"

fun contains_text :: "ustr \<Rightarrow> ustr \<Rightarrow> bool" where
  "contains_text p [] \<longleftrightarrow> p = []"
| "contains_text p (c # cs) \<longleftrightarrow> starts_with p (c # cs) \<or> contains_text p cs"

datatype shell_error = Stale_shell_error | Shell_read_error

definition read_shell :: "index_file \<Rightarrow> shell_error + ustr option" where
  "read_shell index =
     (case index of
        No_index \<Rightarrow> Inr None
      | Unreadable_index \<Rightarrow> Inl Shell_read_error
      | Index_text t \<Rightarrow> if contains_text CSP_NONCE_PLACEHOLDER t then Inr (Some t) else Inl Stale_shell_error)"

definition shell_problem :: "file_system \<Rightarrow> ustr \<Rightarrow> config_problem option" where
  "shell_problem fs dir =
     (case read_shell (fs_index fs dir) of
        Inl Stale_shell_error \<Rightarrow> Some (Stale_shell dir)
      | Inl Shell_read_error \<Rightarrow> Some (Unreadable_shell dir)
      | Inr _ \<Rightarrow> None)"

record app_config =
  ac_data_dir :: ustr
  ac_resources_dir :: ustr
  ac_deck_filename :: ustr
  ac_deck_sha256 :: ustr
  ac_jamdict_db :: "ustr option"
  ac_log_level :: ustr
  ac_frontend_dir :: "ustr option"

definition DEFAULT_DECK_FILENAME :: ustr where
  "DEFAULT_DECK_FILENAME = lit ''JLPT_N5_to_N1_Japanese_Vocabulary.apkg''"

definition DEFAULT_DECK_SHA256 :: ustr where
  "DEFAULT_DECK_SHA256 = lit ''fe5cf438a8f0f6690af00b2c2a9c61da9390feb5bd6d663ea8e6b225b17c3b4a''"

definition LOG_LEVELS :: "ustr list" where
  "LOG_LEVELS = [lit ''DEBUG'', lit ''INFO'', lit ''WARNING'', lit ''ERROR'']"

definition is_sha256 :: "ustr \<Rightarrow> bool" where
  "is_sha256 s \<longleftrightarrow> length s = 64 \<and> list_all (\<lambda>c. 48 \<le> c \<and> c \<le> 57 \<or> 97 \<le> c \<and> c \<le> 102) s"

text \<open>
  The name is its own last component as a Windows and as a POSIX path: no separator of either kind, no
  drive letter in front.
\<close>

definition bare_file_name :: "ustr \<Rightarrow> bool" where
  "bare_file_name s \<longleftrightarrow> s \<noteq> [] \<and> s \<noteq> lit ''.'' \<and> s \<noteq> lit ''..'' \<and> 47 \<notin> set s \<and> 92 \<notin> set s
     \<and> \<not> (2 \<le> length s \<and> s ! 1 = 58)"

definition log_level_of :: "config \<Rightarrow> ustr" where
  "log_level_of cfg = upper (get_string cfg ''logging'' ''level'' (lit ''INFO''))"

definition deck_sha256_of :: "config \<Rightarrow> ustr" where
  "deck_sha256_of cfg = lower (get_string cfg ''paths'' ''deck_sha256'' DEFAULT_DECK_SHA256)"

definition or_none :: "ustr \<Rightarrow> ustr option" where
  "or_none s = (if s = [] then None else Some s)"

definition from_normalizer :: "config \<Rightarrow> app_config" where
  "from_normalizer cfg =
     \<lparr>ac_data_dir = get_string cfg ''paths'' ''data_dir'' (lit ''data''),
      ac_resources_dir = get_string cfg ''paths'' ''resources_dir'' (lit ''resources''),
      ac_deck_filename = get_string cfg ''paths'' ''deck_filename'' DEFAULT_DECK_FILENAME,
      ac_deck_sha256 = deck_sha256_of cfg,
      ac_jamdict_db = or_none (get_string cfg ''paths'' ''jamdict_db'' []),
      ac_log_level = log_level_of cfg,
      ac_frontend_dir = or_none (get_string cfg ''paths'' ''frontend_dir'' [])\<rparr>"

definition validate_config :: "file_system \<Rightarrow> config \<Rightarrow> config_problem list" where
  "validate_config fs cfg =
     (let app = from_normalizer cfg in
        (if ac_log_level app \<in> set LOG_LEVELS then [] else [Bad_level (ac_log_level app)])
      @ (if is_sha256 (ac_deck_sha256 app) then [] else [Bad_sha])
      @ (if bare_file_name (ac_deck_filename app) then [] else [Bad_deck_name])
      @ (case ac_jamdict_db app of
           Some f \<Rightarrow> if fs_is_file fs f then [] else [No_jamdict_db f]
         | None \<Rightarrow> [])
      @ (if fs_exists fs (ac_data_dir app) \<and> \<not> fs_is_dir fs (ac_data_dir app) then [Data_dir_no_dir (ac_data_dir app)] else [])
      @ (case ac_frontend_dir app of
           None \<Rightarrow> []
         | Some d \<Rightarrow>
             if \<not> fs_is_dir fs d then [Frontend_no_dir d]
             else (case shell_problem fs d of None \<Rightarrow> [] | Some p \<Rightarrow> [p])))"

definition load_app_config :: "file_system \<Rightarrow> config \<Rightarrow> config_error + app_config" where
  "load_app_config fs cfg =
     (let errors = validate_config fs cfg in if errors \<noteq> [] then Inl (Invalid errors) else Inr (from_normalizer cfg))"

section \<open>Service settings\<close>

record server_settings =
  srv_host :: ustr
  srv_port :: int
  srv_cors_origins :: "ustr list"
  srv_trusted_proxies :: "ustr list"
  srv_csp_report_only :: bool

record service_config =
  sc_app :: app_config
  sc_server :: server_settings
  sc_auth :: auth_settings

definition MIN_JWT_SECRET_LENGTH :: nat where "MIN_JWT_SECRET_LENGTH = 32"

definition RESERVED_PORT :: int where "RESERVED_PORT = 8000"

definition ARGON2_PREFIX :: ustr where "ARGON2_PREFIX = lit ''$argon2''"

text \<open>The list of errors is extended; only \<^verbatim>\<open>ConfigError\<close> is handled.\<close>

definition int_or :: "config \<Rightarrow> string \<Rightarrow> string \<Rightarrow> int \<Rightarrow> config_problem list \<Rightarrow> get_error + int \<times> config_problem list" where
  "int_or cfg s k fallback errors =
     (case get_int cfg s k fallback of
        Inr n \<Rightarrow> Inr (n, errors)
      | Inl Not_valid \<Rightarrow> Inr (fallback, errors @ [Not_an_integer s k])
      | Inl Overflow_raised \<Rightarrow> Inl Overflow_raised)"

definition bool_or :: "config \<Rightarrow> string \<Rightarrow> string \<Rightarrow> bool \<Rightarrow> config_problem list \<Rightarrow> bool \<times> config_problem list" where
  "bool_or cfg s k fallback errors =
     (case get_bool cfg s k fallback of Some b \<Rightarrow> (b, errors) | None \<Rightarrow> (fallback, errors @ [Not_a_boolean s k]))"

definition comma_list :: "ustr \<Rightarrow> ustr list" where
  "comma_list raw = filter (\<lambda>p. p \<noteq> []) (map strip (split_on 44 raw))"

definition origins :: "config \<Rightarrow> ustr list" where
  "origins cfg = comma_list (get_string cfg ''server'' ''cors_origins'' [])"

definition trusted_proxies :: "config \<Rightarrow> ustr list" where
  "trusted_proxies cfg = comma_list (get_string cfg ''server'' ''trusted_proxies'' [])"

text \<open>\<open>ip_network entry strict\<close> is the length of the network's prefix, \<open>None\<close> the \<^verbatim>\<open>ValueError\<close>.\<close>

type_synonym ip_parser = "ustr \<Rightarrow> bool \<Rightarrow> nat option"

definition trusted_proxy_problem :: "ip_parser \<Rightarrow> ustr \<Rightarrow> proxy_problem option" where
  "trusted_proxy_problem ip_network entry =
     (case ip_network entry True of
        None \<Rightarrow> (case ip_network entry False of None \<Rightarrow> Some Not_a_network | Some _ \<Rightarrow> Some Host_bits_set)
      | Some prefixlen \<Rightarrow> if prefixlen = 0 then Some Matches_every_address else None)"

definition good_origin :: "ustr \<Rightarrow> bool" where
  "good_origin s \<longleftrightarrow> starts_with (lit ''http://'') s \<or> starts_with (lit ''https://'') s"

definition port_ok :: "int \<Rightarrow> bool" where
  "port_ok p \<longleftrightarrow> \<not> (p = RESERVED_PORT \<or> \<not> (1024 \<le> p \<and> p \<le> 65535))"

definition server_host :: "config \<Rightarrow> ustr" where
  "server_host cfg = strip (get_string cfg ''server'' ''host'' (lit ''127.0.0.1''))"

definition auth_text :: "config \<Rightarrow> string \<Rightarrow> ustr" where
  "auth_text cfg k = get_string cfg ''auth'' k []"

definition validate_service_config :: "file_system \<Rightarrow> ip_parser \<Rightarrow> config \<Rightarrow> get_error + config_problem list" where
  "validate_service_config fs ip_network cfg =
     (let errors = validate_config fs cfg @ (if server_host cfg = [] then [No_host] else []) in
      and_then (int_or cfg ''server'' ''port'' 8192 errors) (\<lambda>(port, errors).
      let errors = errors @ (if port_ok port then [] else [Bad_port port])
            @ map Bad_origin (filter (\<lambda>x. \<not> good_origin x) (origins cfg))
            @ List.map_filter (\<lambda>x. map_option (Bad_proxy x) (trusted_proxy_problem ip_network x)) (trusted_proxies cfg);
          errors = snd (bool_or cfg ''server'' ''csp_report_only'' False errors)
            @ (if strip (auth_text cfg ''username'') = [] then [No_username] else [])
            @ (if starts_with ARGON2_PREFIX (auth_text cfg ''password_hash'') then [] else [Bad_password_hash])
            @ (if length (auth_text cfg ''jwt_secret'') < MIN_JWT_SECRET_LENGTH then [Short_secret] else [])
      in and_then (int_or cfg ''auth'' ''access_ttl_minutes'' 15 errors) (\<lambda>(access, errors).
      let errors = errors @ (if 1 \<le> access \<and> access \<le> 1440 then [] else [Bad_access_ttl access])
      in and_then (int_or cfg ''auth'' ''refresh_ttl_days'' 30 errors) (\<lambda>(refresh, errors).
      Inr (errors @ (if 1 \<le> refresh \<and> refresh \<le> 365 then [] else [Bad_refresh_ttl refresh]))))))"

text \<open>\<open>Uncaught\<close> stands for an exception of a getter that leaves the loader as it is.\<close>

definition load_service_config :: "file_system \<Rightarrow> ip_parser \<Rightarrow> config \<Rightarrow> config_error + service_config" where
  "load_service_config fs ip_network cfg =
     and_then (raise_as Uncaught (validate_service_config fs ip_network cfg)) (\<lambda>errors.
     if errors \<noteq> [] then Inl (Invalid errors)
     else
     and_then (raise_as Uncaught (get_int cfg ''server'' ''port'' 8192)) (\<lambda>port.
     and_then (case get_bool cfg ''server'' ''csp_report_only'' False of None \<Rightarrow> Inl (Uncaught Not_valid) | Some b \<Rightarrow> Inr b) (\<lambda>report_only.
     and_then (raise_as Uncaught (get_int cfg ''auth'' ''access_ttl_minutes'' 15)) (\<lambda>access.
     and_then (raise_as Uncaught (get_int cfg ''auth'' ''refresh_ttl_days'' 30)) (\<lambda>refresh.
       Inr \<lparr>sc_app = from_normalizer cfg,
            sc_server = \<lparr>srv_host = server_host cfg, srv_port = port, srv_cors_origins = origins cfg,
              srv_trusted_proxies = trusted_proxies cfg, srv_csp_report_only = report_only\<rparr>,
            sc_auth = \<lparr>auth_username = strip (auth_text cfg ''username''), password_hash = auth_text cfg ''password_hash'',
              jwt_secret = auth_text cfg ''jwt_secret'', access_ttl_minutes = access, refresh_ttl_days = refresh\<rparr>\<rparr>)))))"

definition build_service_config ::
  "(ustr \<Rightarrow> toml) \<Rightarrow> (ustr \<Rightarrow> (ustr \<times> ustr option) list option) \<Rightarrow> file_system \<Rightarrow> ip_parser \<Rightarrow> (ustr \<times> ustr) list
     \<Rightarrow> config_error + service_config" where
  "build_service_config read_toml read_env fs ip_network env =
     (let (config_file, env_file) = build_config_sources (fs_is_file fs) env
      in and_then (load_config read_toml read_env config_file env_file env) (load_service_config fs ip_network))"

section \<open>The server\<close>

definition GRACEFUL_SHUTDOWN_SECONDS :: nat where "GRACEFUL_SHUTDOWN_SECONDS = 35"

definition WS_MAX_MESSAGE_BYTES :: nat where "WS_MAX_MESSAGE_BYTES = 65536"

record uvicorn_config =
  uv_host :: ustr
  uv_port :: int
  uv_proxy_headers :: bool
  uv_forwarded_allow_ips :: "ustr option"
  uv_timeout_graceful_shutdown :: nat
  uv_ws_max_size :: nat

fun join_commas :: "ustr list \<Rightarrow> ustr" where
  "join_commas [] = []"
| "join_commas [x] = x"
| "join_commas (x # y # xs) = x @ 44 # join_commas (y # xs)"

definition build_server_config :: "service_config \<Rightarrow> uvicorn_config" where
  "build_server_config config =
     (let proxies = srv_trusted_proxies (sc_server config) in
      \<lparr>uv_host = srv_host (sc_server config), uv_port = srv_port (sc_server config), uv_proxy_headers = (proxies \<noteq> []),
       uv_forwarded_allow_ips = (if proxies \<noteq> [] then Some (join_commas proxies) else None),
       uv_timeout_graceful_shutdown = GRACEFUL_SHUTDOWN_SECONDS, uv_ws_max_size = WS_MAX_MESSAGE_BYTES\<rparr>)"

end
