(* ===== verification/ConfigProperties.thy ===== *)
theory ConfigProperties
  imports Config
begin

text \<open>
  What a loaded configuration satisfies, and which layer of the configuration wins.
\<close>

section \<open>The specification of valid settings\<close>

definition app_config_ok :: "file_system \<Rightarrow> app_config \<Rightarrow> bool" where
  "app_config_ok fs a \<longleftrightarrow> ac_log_level a \<in> set LOG_LEVELS \<and> is_sha256 (ac_deck_sha256 a)
     \<and> bare_file_name (ac_deck_filename a) \<and> (\<forall>f. ac_jamdict_db a = Some f \<longrightarrow> fs_is_file fs f)
     \<and> (fs_exists fs (ac_data_dir a) \<longrightarrow> fs_is_dir fs (ac_data_dir a))
     \<and> (\<forall>d. ac_frontend_dir a = Some d \<longrightarrow> fs_is_dir fs d \<and> fs_index fs d \<noteq> Unreadable_index
          \<and> (\<forall>t. fs_index fs d = Index_text t \<longrightarrow> contains_text CSP_NONCE_PLACEHOLDER t))"

definition server_settings_ok :: "ip_parser \<Rightarrow> server_settings \<Rightarrow> bool" where
  "server_settings_ok ip_network s \<longleftrightarrow> srv_host s \<noteq> [] \<and> 1024 \<le> srv_port s \<and> srv_port s \<le> 65535 \<and> srv_port s \<noteq> 8000
     \<and> list_all good_origin (srv_cors_origins s)
     \<and> list_all (\<lambda>p. case ip_network p True of None \<Rightarrow> False | Some n \<Rightarrow> 0 < n) (srv_trusted_proxies s)"

definition auth_settings_ok :: "auth_settings \<Rightarrow> bool" where
  "auth_settings_ok a \<longleftrightarrow> auth_username a \<noteq> [] \<and> starts_with ARGON2_PREFIX (password_hash a)
     \<and> 32 \<le> length (jwt_secret a) \<and> auth_config_ok a"

definition service_config_ok :: "file_system \<Rightarrow> ip_parser \<Rightarrow> service_config \<Rightarrow> bool" where
  "service_config_ok fs ip_network c \<longleftrightarrow> app_config_ok fs (sc_app c) \<and> server_settings_ok ip_network (sc_server c)
     \<and> auth_settings_ok (sc_auth c)"

text \<open>The settings a configuration spells, if its numbers and switches can be read.\<close>

definition spelled_settings :: "config \<Rightarrow> service_config \<Rightarrow> bool" where
  "spelled_settings cfg c \<longleftrightarrow> sc_app c = from_normalizer cfg
     \<and> get_int cfg ''server'' ''port'' 8192 = Inr (srv_port (sc_server c))
     \<and> get_bool cfg ''server'' ''csp_report_only'' False = Some (srv_csp_report_only (sc_server c))
     \<and> get_int cfg ''auth'' ''access_ttl_minutes'' 15 = Inr (access_ttl_minutes (sc_auth c))
     \<and> get_int cfg ''auth'' ''refresh_ttl_days'' 30 = Inr (refresh_ttl_days (sc_auth c))
     \<and> srv_host (sc_server c) = server_host cfg \<and> srv_cors_origins (sc_server c) = origins cfg
     \<and> srv_trusted_proxies (sc_server c) = trusted_proxies cfg
     \<and> auth_username (sc_auth c) = strip (auth_text cfg ''username'')
     \<and> password_hash (sc_auth c) = auth_text cfg ''password_hash'' \<and> jwt_secret (sc_auth c) = auth_text cfg ''jwt_secret''"

lemma map_filter_Nil_iff: "List.map_filter f xs = [] \<longleftrightarrow> list_all (\<lambda>x. f x = None) xs"
  by (induction xs) (auto simp: List.map_filter_simps split: option.splits)

lemma trusted_proxy_fine:
  "trusted_proxy_problem ip p = None \<longleftrightarrow> (case ip p True of None \<Rightarrow> False | Some n \<Rightarrow> 0 < n)"
  by (auto simp: trusted_proxy_problem_def split: option.splits)

lemma validate_config_fine: "validate_config fs cfg = [] \<longleftrightarrow> app_config_ok fs (from_normalizer cfg)"
  unfolding validate_config_def app_config_ok_def Let_def
  by (auto simp: shell_problem_def read_shell_def split: option.splits sum.splits index_file.splits shell_error.splits)

text \<open>A reader keeps the errors found so far, so nothing is wrong in the end only if nothing is wrong at any step.\<close>

lemma int_or_step:
  assumes "\<And>n es'. f n es' = Inr [] \<Longrightarrow> es' = []"
  shows "and_then (int_or cfg s k d es) (\<lambda>(n, es). f n es) = Inr [] \<longleftrightarrow>
    es = [] \<and> (\<exists>n. get_int cfg s k d = Inr n \<and> f n [] = Inr [])"
  using assms by (fastforce simp: int_or_def split: sum.splits get_error.splits)

lemma bool_or_Nil: "snd (bool_or cfg s k d es) = [] \<longleftrightarrow> es = [] \<and> get_bool cfg s k d \<noteq> None"
  by (auto simp: bool_or_def split: option.splits)

lemma if_Nil: "(if b then [] else [x]) = [] \<longleftrightarrow> b" "(if b then [x] else []) = [] \<longleftrightarrow> \<not> b"
  by simp_all

lemma validate_service_config_fine:
  "validate_service_config fs ip cfg = Inr [] \<longleftrightarrow>
     validate_config fs cfg = [] \<and> server_host cfg \<noteq> []
     \<and> (\<exists>p. get_int cfg ''server'' ''port'' 8192 = Inr p \<and> port_ok p)
     \<and> list_all good_origin (origins cfg) \<and> list_all (\<lambda>p. trusted_proxy_problem ip p = None) (trusted_proxies cfg)
     \<and> get_bool cfg ''server'' ''csp_report_only'' False \<noteq> None \<and> strip (auth_text cfg ''username'') \<noteq> []
     \<and> starts_with ARGON2_PREFIX (auth_text cfg ''password_hash'') \<and> 32 \<le> length (auth_text cfg ''jwt_secret'')
     \<and> (\<exists>n. get_int cfg ''auth'' ''access_ttl_minutes'' 15 = Inr n \<and> 1 \<le> n \<and> n \<le> 1440)
     \<and> (\<exists>n. get_int cfg ''auth'' ''refresh_ttl_days'' 30 = Inr n \<and> 1 \<le> n \<and> n \<le> 365)"
  unfolding validate_service_config_def Let_def MIN_JWT_SECRET_LENGTH_def
  apply (subst int_or_step)
  subgoal
    apply (subst (asm) int_or_step)
    subgoal by (subst (asm) int_or_step) (simp_all split del: if_split)
    subgoal by (simp add: bool_or_Nil split del: if_split)
    done
  apply (subst int_or_step)
  subgoal by (subst (asm) int_or_step) (simp_all split del: if_split)
  apply (subst int_or_step)
  subgoal by simp
  apply (simp only: if_Nil append_is_Nil_conv map_is_Nil_conv bool_or_Nil map_filter_Nil_iff filter_empty_conv list_all_iff
      not_less append_Nil sum.inject map_option_is_None not_not)
  by blast

lemma getter_overflow: "get_int cfg s k d = Inl Overflow_raised \<longleftrightarrow> (\<exists>t. option_value cfg s k = Some (Non_number Infinity_value t))"
proof (cases "option_value cfg s k")
  case (Some v)
  then show ?thesis by (cases v) (auto simp: get_int_def split: option.splits non_number.splits)
qed (simp add: get_int_def)

lemma int_or_Inl: "int_or cfg s k d es = Inl e \<Longrightarrow> e = Overflow_raised \<and> get_int cfg s k d = Inl Overflow_raised"
  by (auto simp: int_or_def split: sum.splits get_error.splits)

lemma validate_service_config_raises:
  assumes "validate_service_config fs ip cfg = Inl e"
  shows "e = Overflow_raised \<and> (\<exists>(s, k) \<in> {(''server'', ''port''), (''auth'', ''access_ttl_minutes''), (''auth'', ''refresh_ttl_days'')}.
    \<exists>t. option_value cfg s k = Some (Non_number Infinity_value t))"
  using assms unfolding validate_service_config_def Let_def and_then_def
  by (auto split: sum.splits prod.splits dest!: int_or_Inl simp: getter_overflow)


section \<open>Layers\<close>

lemma lower_lower [simp]: "lower (lower s) = lower s"
  by (simp add: lower_def lower_char_def comp_def)

lemma env_option_lower: "env_option name = Some (s, k) \<Longrightarrow> lower s = s \<and> lower k = k"
  by (auto simp: env_option_def Let_def split: if_splits option.splits)

lemma section_of_update: "section_of (AList.update a b data) s = (if s = a then b else section_of data s)"
  by (simp add: section_of_def update_conv')

lemma put_option_lookup:
  "map_of (section_of (put_option s k v data) s') k' =
     (if lower s = s' \<and> lower k = k' then Some v else map_of (section_of data s') k')"
  by (simp add: put_option_def section_of_update update_conv')

lemma merge_env_lookup:
  assumes "env_option n = Some (s, k)" and "distinct (map fst env)"
    and "\<forall>n' \<in> fst ` set env. env_option n' = Some (s, k) \<longrightarrow> n' = n"
  shows "map_of (section_of (merge_env env cfg) s) k =
    (case map_of env n of Some v \<Rightarrow> Some (Text v) | None \<Rightarrow> map_of (section_of cfg s) k)"
  using assms(2,3)
proof (induction env arbitrary: cfg)
  case (Cons x env)
  obtain m v where x: "x = (m, v)" by fastforce
  have n: "lower s = s" "lower k = k" using env_option_lower [OF assms(1)] by auto
  have one: "map_of (section_of (merge_one x cfg) s) k = (if m = n then Some (Text v) else map_of (section_of cfg s) k)"
  proof (cases "env_option m")
    case None
    then show ?thesis using assms(1) x by (auto simp: merge_one_def)
  next
    case (Some sk)
    obtain s' k' where sk: "sk = (s', k')" by fastforce
    have "m = n \<longleftrightarrow> s' = s \<and> k' = k" using Cons.prems(2) x Some sk assms(1) by auto
    then show ?thesis using env_option_lower [of m s' k'] Some sk x by (simp add: merge_one_def put_option_lookup)
  qed
  have "map_of (section_of (merge_env (x # env) cfg) s) k = map_of (section_of (merge_env env (merge_one x cfg)) s) k"
    by (simp add: merge_env_def)
  also have "\<dots> = (case map_of env n of Some v \<Rightarrow> Some (Text v) | None \<Rightarrow> map_of (section_of (merge_one x cfg) s) k)"
    using Cons by auto
  finally show ?case using one Cons.prems(1) x 
    by (cases "map_of env n") (auto split: if_splits dest: map_of_SomeD intro: rev_image_eqI)
qed (simp add: merge_env_def)

lemma dict_lookup:
  "distinct (map fst xs) \<Longrightarrow> map_of (AList.updates (map fst xs) (map snd xs) ys) a = (map_of ys ++ map_of xs) a"
proof (induction xs arbitrary: ys)
  case (Cons x xs)
  then show ?case by (auto simp: update_conv' map_add_def split: option.splits dest: map_of_SomeD)
qed simp

lemma dict_keys: "fst ` set (AList.updates ks vs ys) = fst ` set ys \<union> set (take (length vs) ks)"
proof (induction ks arbitrary: vs ys)
  case (Cons k ks)
  then show ?case by (cases vs) (auto simp: dom_update)
qed simp

definition given_variables :: "(ustr \<times> ustr option) list \<Rightarrow> (ustr \<times> ustr) list" where
  "given_variables dotenv = List.map_filter (\<lambda>(k, v). map_option (Pair k) v) dotenv"

lemma given_variables_Cons [simp]:
  "given_variables [] = []"
  "given_variables ((a, v) # dotenv) = (case v of None \<Rightarrow> given_variables dotenv | Some x \<Rightarrow> (a, x) # given_variables dotenv)"
  by (auto simp: given_variables_def List.map_filter_simps split: option.splits)

lemma given_variables_keys: "fst ` set (given_variables dotenv) \<subseteq> fst ` set dotenv"
proof (induction dotenv)
  case (Cons x dotenv)
  then show ?case by (cases x; cases "snd x") auto
qed simp

lemma given_variables_distinct: "distinct (map fst dotenv) \<Longrightarrow> distinct (map fst (given_variables dotenv))"
proof (induction dotenv)
  case (Cons x dotenv)
  then show ?case using given_variables_keys [of dotenv] by (cases x) (auto split: option.splits)
qed simp

lemma given_variables_lookup:
  "distinct (map fst dotenv) \<Longrightarrow> map_of (given_variables dotenv) a = (case map_of dotenv a of Some (Some v) \<Rightarrow> Some v | _ \<Rightarrow> None)"
proof (induction dotenv)
  case (Cons x dotenv)
  obtain b v where x: "x = (b, v)" by fastforce
  have "map_of (given_variables dotenv) b = None"
    using Cons.prems given_variables_keys [of dotenv] x by (auto simp: map_of_eq_None_iff)
  then show ?case using Cons x by (auto split: option.splits)
qed simp

lemma merged_distinct: "distinct (map fst ys) \<Longrightarrow> distinct (map fst (AList.updates ks vs ys))"
proof (induction ks arbitrary: vs ys)
  case (Cons k ks)
  then show ?case by (cases vs) (auto simp: distinct_update)
qed simp

text \<open>The layers of the configuration: a variable of the environment wins over the same variable of the \<^verbatim>\<open>.env\<close>
  file, which wins over the TOML file, whatever the case of the names, as long as one spelling of the variable is used.\<close>
theorem environment_wins:
  assumes "load_config read_toml read_env config_file None [] = Inr base"
    and "read_env env_file = Some dotenv" and "distinct (map fst environ)" and "distinct (map fst dotenv)"
    and "env_option n = Some (s, k)"
    and "\<forall>n' \<in> fst ` set environ \<union> fst ` set dotenv. env_option n' = Some (s, k) \<longrightarrow> n' = n"
  shows "\<exists>cfg. load_config read_toml read_env config_file (Some env_file) environ = Inr cfg
    \<and> map_of (section_of cfg s) k =
        (case map_of environ n of
           Some v \<Rightarrow> Some (Text v)
         | None \<Rightarrow> (case map_of dotenv n of Some (Some v) \<Rightarrow> Some (Text v) | _ \<Rightarrow> map_of (section_of base s) k))"
proof -
  let ?dotenv = "given_variables dotenv"
  let ?merged = "AList.updates (map fst environ) (map snd environ) (AList.updates (map fst ?dotenv) (map snd ?dotenv) [])"
  have load: "load_config read_toml read_env config_file (Some env_file) environ = Inr (merge_env ?merged base)"
    using assms(1,2) by (auto simp: load_config_def and_then_Inr raise_as_Inr merge_env_def given_variables_def)
  have look: "map_of ?merged n = (case map_of environ n of Some v \<Rightarrow> Some v
      | None \<Rightarrow> (case map_of dotenv n of Some (Some v) \<Rightarrow> Some v | _ \<Rightarrow> None))"
    using assms(3,4) by (simp add: dict_lookup given_variables_distinct given_variables_lookup map_add_def split: option.splits)
  have "fst ` set ?merged \<subseteq> fst ` set environ \<union> fst ` set dotenv"
    using given_variables_keys [of dotenv] by (auto simp: dict_keys)
  then have "map_of (section_of (merge_env ?merged base) s) k =
      (case map_of ?merged n of Some v \<Rightarrow> Some (Text v) | None \<Rightarrow> map_of (section_of base s) k)"
    using assms(6) by (intro merge_env_lookup [OF assms(5)]) (auto simp: merged_distinct)
  then show ?thesis unfolding load look by (auto split: option.splits)
qed

theorem environment_wins_witness:
  "map_of (section_of (merge_env [(lit ''bunsho_Server__Port'', lit ''9000'')] []) (lit ''server'')) (lit ''port'')
     = Some (Text (lit ''9000''))"
  using environment_wins [of "\<lambda>_. No_file" "\<lambda>_. Some [(lit ''bunsho_Server__Port'', Some (lit ''7000''))]" None "[]" "[]"
      "[(lit ''bunsho_Server__Port'', Some (lit ''7000''))]"
      "[(lit ''bunsho_Server__Port'', lit ''9000'')]" "lit ''bunsho_Server__Port''" "lit ''server''" "lit ''port''"]
  by (simp add: load_config_def merge_env_def List.map_filter_simps env_option_def lit_def upper_def upper_char_def lower_def
      lower_char_def ENV_PREFIX_def starts_with_def)

text \<open>
  Two boundary cases.  A second spelling of a variable in the \<^verbatim>\<open>.env\<close> file is applied after the environment's
  value of the first; an infinite port makes \<^verbatim>\<open>int\<close> raise what nothing handles.
\<close>

lemma second_spelling_wins:
  "load_config (\<lambda>_. No_file) (\<lambda>_. Some [(lit ''BUNSHO_A__B'', Some (lit ''1'')), (lit ''bunsho_a__b'', Some (lit ''2''))])
     None (Some []) [(lit ''BUNSHO_A__B'', lit ''3'')] = Inr [(lit ''a'', [(lit ''b'', Text (lit ''2''))])]"
  by (simp add: load_config_def merge_env_def merge_one_def put_option_def section_of_def List.map_filter_simps env_option_def
      lit_def upper_def upper_char_def lower_def lower_char_def ENV_PREFIX_def starts_with_def)

lemma infinite_port_escapes:
  "load_service_config fs ip [(lit ''server'', [(lit ''port'', Non_number Infinity_value s)])] = Inl (Uncaught Overflow_raised)"
  by (simp add: load_service_config_def validate_service_config_def Let_def int_or_def get_int_def option_value_def section_of_def
      lit_def lower_def lower_char_def)

end
