(* ===== verification/Stats.thy ===== *)
theory Stats
  imports Samples
begin

text \<open>
  \<^verbatim>\<open>services/review_stats.py\<close>: the statistics of the dashboard over the review log, the card states and the
  content catalogue.
\<close>

section \<open>The summary\<close>

definition RETENTION_DAYS :: nat where
  "RETENTION_DAYS = 30"

record type_progress =
  tp_total :: int
  tp_learning :: int
  tp_review :: int
  tp_relearning :: int

record level_progress =
  lp_type :: item_type
  lp_level :: ustr
  lp_total :: int
  lp_introduced :: int
  lp_review :: int

record stats_summary =
  stat_reviewed_today :: int
  stat_introduced_today :: type_counts
  stat_daily :: "(int \<times> int) list"
  stat_retention :: "pyfloat option"
  stat_by_type :: "(item_type \<times> type_progress) list"
  stat_by_level :: "level_progress list"

definition count_state :: "states \<Rightarrow> sched_state \<Rightarrow> int" where
  "count_state sts wanted = int (length (filter (\<lambda>(_, s). s = wanted) sts))"

text \<open>\<^verbatim>\<open>round(x, 4)\<close>: the float next to the decimal with four digits, ties to even.\<close>

definition round_4 :: "pyfloat \<Rightarrow> pyfloat" where
  "round_4 x = fl (of_int (round_half_even (x * 10000)) / 10000)"

record tally =
  tally_daily :: "(int \<times> int) list"
  tally_answered :: int
  tally_passed :: int

fun tally_reviews :: "int \<Rightarrow> tz \<Rightarrow> tally \<Rightarrow> review_record list \<Rightarrow> day_error + tally" where
  "tally_reviews r z acc [] = Inr acc"
| "tally_reviews r z acc (x # xs) =
     and_then (study_date (Aware (rec_reviewed_at x)) r z) (\<lambda>day.
       tally_reviews r z
         (case map_of (tally_daily acc) day of
            None \<Rightarrow> acc
          | Some n \<Rightarrow>
              let acc = acc\<lparr>tally_daily := AList.update day (n + 1) (tally_daily acc)\<rparr> in
              if rec_state_before x = REVIEW then
                acc\<lparr>tally_answered := tally_answered acc + 1,
                    tally_passed := (if grade_value HARD \<le> grade_value (rec_grade x) then tally_passed acc + 1 else tally_passed acc)\<rparr>
              else acc) xs)"

definition first_days :: "int \<Rightarrow> (int \<times> int) list" where
  "first_days today = map (\<lambda>offset. (today - int offset, 0)) (rev [0..<RETENTION_DAYS])"

definition type_progress_of :: "catalog_entry list \<Rightarrow> states \<Rightarrow> item_type \<Rightarrow> type_progress" where
  "type_progress_of entries typed ty =
     \<lparr>tp_total = int (length entries * length (directions_by_type ty)), tp_learning = count_state typed LEARNING,
      tp_review = count_state typed REVIEW, tp_relearning = count_state typed RELEARNING\<rparr>"

definition level_progress_of :: "catalog_entry list \<Rightarrow> states \<Rightarrow> item_type \<Rightarrow> jlpt_level \<Rightarrow> level_progress" where
  "level_progress_of entries typed ty l =
     (let level_of = map_of (rev (map (\<lambda>e. (entry_item_id e, entry_level e)) entries));
          in_level = filter (\<lambda>(k, _). level_of (key_item_id k) = Some (Some l)) typed
      in \<lparr>lp_type = ty, lp_level = level_label l,
          lp_total = int (length (filter (\<lambda>e. entry_level e = Some l) entries) * length (directions_by_type ty)),
          lp_introduced = int (length in_level), lp_review = count_state in_level REVIEW\<rparr>)"

definition typed_states :: "states \<Rightarrow> item_type \<Rightarrow> states" where
  "typed_states sts ty = filter (\<lambda>(k, _). key_type k = ty) sts"

definition stats_in :: "tz \<Rightarrow> instant \<Rightarrow> review_settings \<Rightarrow> content_db \<Rightarrow> progress_db \<Rightarrow> session_error + stats_summary" where
  "stats_in z now s cdb db =
     (let r = rollover_hour s in
      and_then (raise_as SDay (study_day_window (Aware now) r z)) (\<lambda>(start, stop).
      and_then (raise_as SDay (study_date (Aware now) r z)) (\<lambda>today.
      and_then (raise_as SRepo (reviews_between db (start - (int RETENTION_DAYS + 1) * DAY) stop)) (\<lambda>records.
      and_then (raise_as SDay (tally_reviews r z \<lparr>tally_daily = first_days today, tally_answered = 0, tally_passed = 0\<rparr> records)) (\<lambda>t.
      and_then (raise_as SRepo (new_cards_introduced db start stop)) (\<lambda>introduced.
      and_then (raise_as SRepo (card_states db)) (\<lambda>sts.
        Inr \<lparr>stat_reviewed_today = the (map_of (tally_daily t) today),
             stat_introduced_today = counts_from_mapping introduced,
             stat_daily = tally_daily t,
             stat_retention = (if tally_answered t = 0 then None else Some (round_4 (fdiv (tally_passed t) (tally_answered t)))),
             stat_by_type = map (\<lambda>ty. (ty, type_progress_of (catalog_entries cdb ty) (typed_states sts ty) ty)) item_types,
             stat_by_level = concat (map (\<lambda>ty. if ty = KANA then []
               else map (level_progress_of (catalog_entries cdb ty) (typed_states sts ty) ty) study_order) item_types)\<rparr>)))))))"

definition review_stats ::
  "tz \<Rightarrow> (ustr \<Rightarrow> review_settings option) \<Rightarrow> instant \<Rightarrow> app_context \<Rightarrow> nat option \<Rightarrow> progress_db
     \<Rightarrow> (session_error + stats_summary) \<times> nat option" where
  "review_stats z decode now ctx verified db =
     (case gate_repository ctx verified of
        (Inl e, v) \<Rightarrow> (Inl (SNotReady e), v)
      | (Inr repo, v) \<Rightarrow>
          (and_then (repo_db repo) (\<lambda>cdb. stats_in z now (stored_settings decode db) cdb db), v))"

section \<open>The margin of the query\<close>

text \<open>Python keeps every UTC offset strictly within a day.\<close>

fun offsets_bounded :: "tz \<Rightarrow> bool" where
  "offsets_bounded (Tz a xs) \<longleftrightarrow> (\<forall>off \<in> insert a (snd ` set xs). - DAY < off \<and> off < DAY)"

lemma wall_offset_mem: "wall_offset_from a xs w \<in> insert a (snd ` set xs)"
proof (induction xs arbitrary: a)
  case (Cons x xs)
  obtain T b where "x = (T, b)" by fastforce
  then show ?case using Cons.IH [of b] by auto
qed simp

lemma from_wall_bounds: "offsets_bounded z \<Longrightarrow> w - DAY < from_wall z w \<and> from_wall z w < w + DAY"
proof -
  assume b: "offsets_bounded z"
  obtain a xs where z: "z = Tz a xs" by (cases z)
  have "wall_offset_from a xs w \<in> insert a (snd ` set xs)" by (rule wall_offset_mem)
  then have "- DAY < wall_offset_from a xs w \<and> wall_offset_from a xs w < DAY" using b by (simp only: z offsets_bounded.simps)
  then show ?thesis by (simp add: z)
qed

text \<open>The query starts early enough: every instant of the last thirty study days is in it.\<close>

lemma margin:
  assumes z: "rollover_ok r z" "offsets_bounded z" and k: "today - 29 \<le> study_index r z t" "study_index r z t \<le> today"
  shows "day_start r z today - 31 * DAY \<le> t \<and> t < day_start r z (today + 1)"
proof
  let ?k = "study_index r z t"
  have "day_start r z ?k \<le> t" using day_start_le [OF z(1), of ?k t] by simp
  moreover have "?k * DAY + r * HOUR - DAY < day_start r z ?k" "day_start r z today < today * DAY + r * HOUR + DAY"
    using from_wall_bounds [OF z(2)] by (simp_all add: day_start_def)
  moreover have "(today - 29) * DAY \<le> ?k * DAY" using k(1) by (intro mult_right_mono) (simp_all add: DAY_def)
  ultimately show "day_start r z today - 31 * DAY \<le> t" by (simp add: algebra_simps)
  show "t < day_start r z (today + 1)" using day_start_le [OF z(1), of "today + 1" t] k(2) by linarith
qed

section \<open>The records of the log\<close>

definition log_time :: "log_row \<Rightarrow> instant" where
  "log_time l = the (parse_timestamp (log_reviewed_at l))"

definition the_record :: "log_row \<Rightarrow> review_record" where
  "the_record l = the (record_of_row l)"

lemma log_ok_record:
  assumes "log_ok l"
  shows "record_of_row l = Some (the_record l)" "rec_reviewed_at (the_record l) = log_time l" "stamp_ok (log_time l)"
    "log_reviewed_at l = stamp (log_time l)"
  using assms by (auto simp: log_ok_def record_of_row_def the_record_def log_time_def good_stamp_def split: option.splits)

lemma in_span_times:
  "log_ok l \<Longrightarrow> stamp_ok a \<Longrightarrow> stamp_ok b \<Longrightarrow> in_span a b l \<longleftrightarrow> a \<le> log_time l \<and> log_time l < b"
  using log_ok_record [of l] by (simp add: in_span_def stamp_le_iff stamp_less_iff)

lemma length_filter_sort: "length (filter P (sort_key f xs)) = length (filter P xs)"
  by (metis mset_filter mset_sort size_mset)

lemma reviews_between_records:
  assumes "db_ok db" "stamp_ok a" "stamp_ok b"
  shows "\<exists>rows. reviews_between db a b = Inr (map the_record rows) \<and> (\<forall>l \<in> set rows. log_ok l)
    \<and> (\<forall>P. length (filter P rows) = length (filter (\<lambda>l. P l \<and> a \<le> log_time l \<and> log_time l < b) (log_rows db)))"
proof -
  have ok: "\<forall>l \<in> set (log_rows db). log_ok l" using assms(1) by (simp add: db_ok_def)
  define rows where "rows = sort_key (\<lambda>l. (log_reviewed_at l, log_id l)) (filter (in_span a b) (log_rows db))"
  have rows: "\<forall>l \<in> set rows. log_ok l" using ok by (simp add: rows_def)
  have "those (map record_of_row rows) = Some (map the_record rows)"
    using rows log_ok_record(1) by (intro those_map_Some) auto
  moreover have "length (filter P rows) = length (filter (\<lambda>l. P l \<and> a \<le> log_time l \<and> log_time l < b) (log_rows db))" for P
    using ok in_span_times assms(2,3) by (auto simp: rows_def length_filter_sort intro!: arg_cong [where f = length] filter_cong)
  ultimately show ?thesis using rows by (auto simp: reviews_between_def decoded_def rows_def [symmetric])
qed

section \<open>The tally\<close>

lemma tally_reviews_spec:
  assumes "rollover_ok r z" "daily_shown z (r * HOUR)"
  shows "\<exists>t. tally_reviews r z acc xs = Inr t \<and> map fst (tally_daily t) = map fst (tally_daily acc)
    \<and> (\<forall>d. map_of (tally_daily t) d =
        map_option (\<lambda>n. n + int (length (filter (\<lambda>x. study_index r z (rec_reviewed_at x) = d) xs))) (map_of (tally_daily acc) d))"
proof (induction xs arbitrary: acc)
  case (Cons x xs)
  let ?day = "study_index r z (rec_reviewed_at x)"
  have date: "study_date (Aware (rec_reviewed_at x)) r z = Inr ?day" using assms by (rule study_date_index)
  show ?case
  proof (cases "map_of (tally_daily acc) ?day")
    case None
    with date Cons.IH [of acc] show ?thesis by (force simp: option.map_comp comp_def)
  next
    case (Some n)
    let ?acc = "acc\<lparr>tally_daily := AList.update ?day (n + 1) (tally_daily acc)\<rparr>"
    let ?acc' = "if rec_state_before x = REVIEW then
                ?acc\<lparr>tally_answered := tally_answered ?acc + 1,
                    tally_passed := (if grade_value HARD \<le> grade_value (rec_grade x) then tally_passed ?acc + 1 else tally_passed ?acc)\<rparr>
              else ?acc"
    have keys: "map fst (tally_daily ?acc') = map fst (tally_daily acc)"
    proof -
      have "?day \<in> fst ` set (tally_daily acc)" using Some by (metis domI dom_map_of_conv_image_fst)
      then show ?thesis by (auto simp: update_keys)
    qed
    have look: "map_of (tally_daily ?acc') d = (if d = ?day then Some (n + 1) else map_of (tally_daily acc) d)" for d
      by (simp add: update_conv')
    from Cons.IH [of ?acc'] obtain t where t: "tally_reviews r z ?acc' xs = Inr t"
      "map fst (tally_daily t) = map fst (tally_daily acc)"
      "\<forall>d. map_of (tally_daily t) d =
        map_option (\<lambda>n. n + int (length (filter (\<lambda>x. study_index r z (rec_reviewed_at x) = d) xs))) (map_of (tally_daily ?acc') d)"
      unfolding keys by blast
    have "tally_reviews r z acc (x # xs) = tally_reviews r z ?acc' xs" by (simp add: date Some Let_def)
    moreover have "map_of (tally_daily t) d = map_option (\<lambda>n. n + int (length (filter (\<lambda>x. study_index r z (rec_reviewed_at x) = d) (x # xs))))
        (map_of (tally_daily acc) d)" for d
      using t(3) [rule_format, of d] Some unfolding look by (cases "d = ?day") auto
    ultimately show ?thesis using t by auto
  qed
qed (simp add: option.map_ident)

section \<open>Properties\<close>

lemma alist_by_keys: "distinct (map fst xs) \<Longrightarrow> xs = map (\<lambda>k. (k, the (map_of xs k))) (map fst xs)"
proof -
  assume "distinct (map fst xs)"
  then have "(fst p, the (map_of xs (fst p))) = p" if "p \<in> set xs" for p using that by (cases p) simp
  then show ?thesis by (simp add: comp_def map_idI)
qed

lemma offsets_bounded_UTC [simp]: "offsets_bounded UTC"
  by (simp add: UTC_def)

lemma first_days_keys: "map fst (first_days today) = map (\<lambda>offset. today - int offset) (rev [0..<30])"
  by (simp add: first_days_def RETENTION_DAYS_def comp_def)

lemma first_days_lookup: "map_of (first_days today) d = (if today - 29 \<le> d \<and> d \<le> today then Some 0 else None)"
proof -
  have "d \<in> set (map fst (first_days today)) \<longleftrightarrow> today - 29 \<le> d \<and> d \<le> today"
    unfolding first_days_keys by (auto simp: image_iff intro!: bexI [of _ "nat (today - d)"])
  moreover have "map_of (first_days today) d = (if d \<in> set (map fst (first_days today)) then Some 0 else None)"
    by (auto simp: first_days_def map_of_eq_None_iff intro!: map_of_is_SomeI) (auto simp: inj_on_def distinct_map)
  ultimately show ?thesis by simp
qed



end
