(* ===== verification/HttpShell.thy ===== *)
theory HttpShell
  imports Config
begin

text \<open>
  \<^verbatim>\<open>api/csp.py\<close>, \<^verbatim>\<open>api/static.py\<close>, \<^verbatim>\<open>api/security_headers.py\<close> and \<^verbatim>\<open>api/error_middleware.py\<close>: serving the web
  interface, with the nonce of its content security policy, the headers of every response and the fixed
  answer to an unhandled error.  Starlette's \<^verbatim>\<open>StaticFiles\<close> and its pages for HTTP errors are arguments.
\<close>

section \<open>Content security policies\<close>

definition CSP_HEADER :: ustr where "CSP_HEADER = lit ''Content-Security-Policy''"

definition CSP_REPORT_ONLY_HEADER :: ustr where "CSP_REPORT_ONLY_HEADER = lit ''Content-Security-Policy-Report-Only''"

text \<open>A keyword of a policy, in single quotes.\<close>

definition quoted :: "ustr \<Rightarrow> ustr" where "quoted s = 39 # s @ [39]"

definition source :: "string \<Rightarrow> string \<Rightarrow> ustr" where
  "source directive keyword = lit directive @ 32 # quoted (lit keyword)"

definition DEFAULT_POLICY :: ustr where "DEFAULT_POLICY = source ''default-src'' ''none'' @ lit ''; '' @ source ''frame-ancestors'' ''none''"

definition DOCS_PATHS :: "ustr list" where
  "DOCS_PATHS = [lit ''/docs'', lit ''/redoc'', lit ''/docs/oauth2-redirect'']"

fun join_directives :: "ustr list \<Rightarrow> ustr" where
  "join_directives [] = []"
| "join_directives [x] = x"
| "join_directives (x # y # xs) = x @ lit ''; '' @ join_directives (y # xs)"

definition DOCS_POLICY :: ustr where
  "DOCS_POLICY = join_directives
     [source ''default-src'' ''none'',
      lit ''script-src 'self' 'unsafe-inline' https://cdn.jsdelivr.net'',
      lit ''style-src 'self' 'unsafe-inline' https://cdn.jsdelivr.net https://fonts.googleapis.com'',
      lit ''img-src 'self' data: https://fastapi.tiangolo.com'',
      lit ''font-src https://fonts.gstatic.com'',
      lit ''worker-src blob:'',
      source ''connect-src'' ''self'',
      source ''frame-ancestors'' ''none'']"

text \<open>The characters of base64, and \<^verbatim>\<open>[A-Za-z0-9+/]+={0,2}\<close>.\<close>

definition base64_char :: "nat \<Rightarrow> nat" where
  "base64_char n = (if n < 26 then n + 65 else if n < 52 then n - 26 + 97 else if n < 62 then n - 52 + 48
     else if n = 62 then 43 else 47)"

definition is_base64_char :: "nat \<Rightarrow> bool" where
  "is_base64_char c \<longleftrightarrow> 65 \<le> c \<and> c \<le> 90 \<or> 97 \<le> c \<and> c \<le> 122 \<or> 48 \<le> c \<and> c \<le> 57 \<or> c = 43 \<or> c = 47"

definition is_nonce :: "ustr \<Rightarrow> bool" where
  "is_nonce s \<longleftrightarrow> takeWhile is_base64_char s \<noteq> [] \<and> dropWhile is_base64_char s \<in> {[], [61], [61, 61]}"

fun base64 :: "nat list \<Rightarrow> ustr" where
  "base64 (a # b # c # bs) =
     base64_char (a div 4) # base64_char (a mod 4 * 16 + b div 16) # base64_char (b mod 16 * 4 + c div 64)
       # base64_char (c mod 64) # base64 bs"
| "base64 [a, b] = [base64_char (a div 4), base64_char (a mod 4 * 16 + b div 16), base64_char (b mod 16 * 4), 61]"
| "base64 [a] = [base64_char (a div 4), base64_char (a mod 4 * 16), 61, 61]"
| "base64 [] = []"

text \<open>\<^verbatim>\<open>generate_nonce\<close> on the sixteen random bytes; \<open>None\<close> is the \<^verbatim>\<open>ValueError\<close> of \<^verbatim>\<open>shell_policy\<close>.\<close>

definition generate_nonce :: "nat list \<Rightarrow> ustr" where
  "generate_nonce token_bytes = base64 token_bytes"

definition shell_policy :: "ustr \<Rightarrow> ustr option" where
  "shell_policy nonce =
     (if \<not> is_nonce nonce then None
      else Some (join_directives
        [source ''default-src'' ''none'', source ''script-src'' ''self'', source ''style-src'' ''self'' @ 32 # quoted (lit ''nonce-'' @ nonce),
         source ''img-src'' ''self'', source ''font-src'' ''self'', source ''connect-src'' ''self'', source ''base-uri'' ''none'',
         source ''form-action'' ''self'', source ''frame-ancestors'' ''none'']))"

definition header_name :: "bool \<Rightarrow> ustr" where
  "header_name report_only = (if report_only then CSP_REPORT_ONLY_HEADER else CSP_HEADER)"

section \<open>Responses and their headers\<close>

text \<open>Header names are in lower case, as ASGI requires and Starlette writes them.\<close>

type_synonym headers = "(ustr \<times> ustr) list"

record http_response =
  resp_status :: nat
  resp_headers :: headers
  resp_body :: ustr

text \<open>\<^verbatim>\<open>headers.setdefault(name, value)\<close> and \<^verbatim>\<open>headers[name] = value\<close>.\<close>

definition default_header :: "ustr \<Rightarrow> ustr \<Rightarrow> headers \<Rightarrow> headers" where
  "default_header name v hs = (if lower name \<in> fst ` set hs then hs else hs @ [(lower name, v)])"

fun put_lower_header :: "ustr \<Rightarrow> ustr \<Rightarrow> headers \<Rightarrow> headers" where
  "put_lower_header k v [] = [(k, v)]"
| "put_lower_header k v (h # hs) =
     (if fst h = k then (k, v) # filter (\<lambda>x. fst x \<noteq> k) hs else h # put_lower_header k v hs)"

definition put_header :: "ustr \<Rightarrow> ustr \<Rightarrow> headers \<Rightarrow> headers" where
  "put_header name v hs = put_lower_header (lower name) v hs"

definition header :: "headers \<Rightarrow> ustr \<Rightarrow> ustr option" where
  "header hs name = map_of hs (lower name)"

section \<open>Serving the interface\<close>

definition INDEX :: ustr where "INDEX = lit ''index.html''"

definition IMMUTABLE :: ustr where "IMMUTABLE = lit ''public, max-age=31536000, immutable''"

definition CACHE_CONTROL :: ustr where "CACHE_CONTROL = lit ''Cache-Control''"

definition SHELL_PATHS :: "ustr list" where "SHELL_PATHS = [[], lit ''.'', INDEX]"

definition READ_METHODS :: "ustr list" where "READ_METHODS = [lit ''GET'', lit ''HEAD'']"

definition posix :: "ustr \<Rightarrow> ustr" where "posix path = map (\<lambda>c. if c = 92 then 47 else c) path"

definition is_client_route :: "ustr \<Rightarrow> bool" where
  "is_client_route path \<longleftrightarrow> \<not> (path = lit ''api'' \<or> starts_with (lit ''api/'') path) \<and> 46 \<notin> set (last (split_on 47 path))"

definition set_cache_control :: "ustr \<Rightarrow> http_response \<Rightarrow> http_response" where
  "set_cache_control path r =
     r\<lparr>resp_headers := put_header CACHE_CONTROL (if starts_with (lit ''assets/'') path then IMMUTABLE else lit ''no-cache'') (resp_headers r)\<rparr>"

text \<open>\<^verbatim>\<open>text.replace(p, r)\<close> for a pattern that is not empty.\<close>

function replace_text :: "ustr \<Rightarrow> ustr \<Rightarrow> ustr \<Rightarrow> ustr" where
  "replace_text p r s =
     (case s of
        [] \<Rightarrow> []
      | c # cs \<Rightarrow>
          if p \<noteq> [] \<and> starts_with p s then r @ replace_text p r (drop (length p) s) else c # replace_text p r cs)"
  by pat_completeness auto
termination by (relation "measure (\<lambda>(_, _, s). length s)") auto

declare replace_text.simps [simp del]

datatype static_result = Served http_response | Http_error nat

definition shell_response :: "(ustr \<Rightarrow> http_response) \<Rightarrow> ustr \<Rightarrow> ustr \<Rightarrow> http_response" where
  "shell_response html nonce shell =
     (let r = html (replace_text CSP_NONCE_PLACEHOLDER nonce shell)
      in r\<lparr>resp_headers := put_header CACHE_CONTROL (lit ''no-cache'') (resp_headers r)\<rparr>)"

text \<open>\<open>serve\<close> is \<^verbatim>\<open>StaticFiles.get_response\<close> for the request; the second result is the nonce left on the scope.\<close>

definition get_response ::
  "(ustr \<Rightarrow> http_response) \<Rightarrow> (ustr \<Rightarrow> static_result) \<Rightarrow> ustr option \<Rightarrow> ustr \<Rightarrow> ustr \<Rightarrow> ustr
     \<Rightarrow> static_result \<times> ustr option" where
  "get_response html serve shell nonce method path =
     (let served = posix path in
      if shell \<noteq> None \<and> served \<in> set SHELL_PATHS \<and> method \<in> set READ_METHODS
      then (Served (shell_response html nonce (the shell)), Some nonce)
      else
        (case serve path of
           Served r \<Rightarrow> (Served (set_cache_control served r), None)
         | Http_error code \<Rightarrow>
             if code \<noteq> 404 \<or> \<not> is_client_route served then (Http_error code, None)
             else
               (case shell of
                  Some sh \<Rightarrow> (Served (shell_response html nonce sh), Some nonce)
                | None \<Rightarrow>
                    (case serve INDEX of
                       Served r \<Rightarrow> (Served (set_cache_control INDEX r), None)
                     | Http_error code \<Rightarrow> (Http_error code, None)))))"

section \<open>The middleware\<close>

definition BASELINE_HEADERS :: "(ustr \<times> ustr) list" where
  "BASELINE_HEADERS =
     [(lit ''X-Content-Type-Options'', lit ''nosniff''), (lit ''Referrer-Policy'', lit ''no-referrer''),
      (lit ''X-Frame-Options'', lit ''DENY'')]"

definition policy_for :: "ustr option \<Rightarrow> ustr \<Rightarrow> ustr option" where
  "policy_for nonce path =
     (case nonempty nonce of
        Some n \<Rightarrow> shell_policy n
      | None \<Rightarrow> Some (if path \<in> set DOCS_PATHS then DOCS_POLICY else DEFAULT_POLICY))"

definition add_headers :: "bool \<Rightarrow> ustr option \<Rightarrow> ustr \<Rightarrow> headers \<Rightarrow> headers option" where
  "add_headers report_only nonce path hs =
     map_option (\<lambda>policy. default_header (header_name report_only) policy
         (fold (\<lambda>(name, v). default_header name v) BASELINE_HEADERS hs))
       (policy_for nonce path)"

text \<open>The messages of one response; the application ends normally or raises after some of them.\<close>

datatype message = Start nat headers | Body ustr

definition is_start :: "message \<Rightarrow> bool" where
  "is_start m \<longleftrightarrow> (case m of Start _ _ \<Rightarrow> True | Body _ \<Rightarrow> False)"

definition INTERNAL_ERROR_DETAIL :: ustr where "INTERNAL_ERROR_DETAIL = lit ''internal error''"

text \<open>\<open>json status detail\<close> is Starlette's JSON response, as its messages.\<close>

definition unhandled_error :: "(nat \<Rightarrow> ustr \<Rightarrow> message list) \<Rightarrow> message list \<times> bool \<Rightarrow> message list \<times> bool" where
  "unhandled_error json run =
     (case run of (sent, raised) \<Rightarrow>
        if \<not> raised then (sent, False)
        else if list_ex is_start sent then (sent, True)
        else (sent @ json 500 INTERNAL_ERROR_DETAIL, False))"

text \<open>Sending ends at a message whose headers cannot be built.\<close>

fun send_secured :: "bool \<Rightarrow> ustr option \<Rightarrow> ustr \<Rightarrow> message list \<Rightarrow> message list \<times> bool" where
  "send_secured report_only nonce path [] = ([], False)"
| "send_secured report_only nonce path (Body b # ms) =
     (case send_secured report_only nonce path ms of (sent, raised) \<Rightarrow> (Body b # sent, raised))"
| "send_secured report_only nonce path (Start code hs # ms) =
     (case add_headers report_only nonce path hs of
        None \<Rightarrow> ([], True)
      | Some hs' \<Rightarrow> (case send_secured report_only nonce path ms of (sent, raised) \<Rightarrow> (Start code hs' # sent, raised)))"

definition response_messages :: "http_response \<Rightarrow> message list" where
  "response_messages r = [Start (resp_status r) (resp_headers r), Body (resp_body r)]"

text \<open>
  The stack around an application's messages.  \<open>cors\<close> is what the CORS layer between the two makes of the
  headers of a response (the identity when no origin is configured).
\<close>

fun cors_message :: "(headers \<Rightarrow> headers) \<Rightarrow> message \<Rightarrow> message" where
  "cors_message cors (Start code hs) = Start code (cors hs)"
| "cors_message cors (Body b) = Body b"

definition app_stack ::
  "(nat \<Rightarrow> ustr \<Rightarrow> message list) \<Rightarrow> (headers \<Rightarrow> headers) \<Rightarrow> bool \<Rightarrow> ustr option \<Rightarrow> ustr \<Rightarrow> message list \<times> bool
     \<Rightarrow> message list \<times> bool" where
  "app_stack json cors report_only nonce path run =
     (case unhandled_error json run of (sent, raised) \<Rightarrow>
        (case send_secured report_only nonce path (map (cors_message cors) sent) of (out, failed) \<Rightarrow> (out, raised \<or> failed)))"

text \<open>A request that reaches the mount of the interface; \<open>page\<close> is what Starlette answers to an \<^verbatim>\<open>HTTPException\<close>.\<close>

definition frontend_response ::
  "(ustr \<Rightarrow> http_response) \<Rightarrow> (nat \<Rightarrow> http_response) \<Rightarrow> (nat \<Rightarrow> ustr \<Rightarrow> message list) \<Rightarrow> (headers \<Rightarrow> headers)
     \<Rightarrow> (ustr \<Rightarrow> static_result) \<Rightarrow> bool \<Rightarrow> ustr option \<Rightarrow> nat list \<Rightarrow> ustr \<Rightarrow> ustr \<Rightarrow> ustr \<Rightarrow> message list \<times> bool" where
  "frontend_response html page json cors serve report_only shell token_bytes method url_path path =
     (case get_response html serve shell (generate_nonce token_bytes) method path of (res, nonce) \<Rightarrow>
        app_stack json cors report_only nonce url_path
          (response_messages (case res of Served r \<Rightarrow> r | Http_error code \<Rightarrow> page code), False))"

section \<open>Nonces\<close>

lemma base64_char_ok: "n < 64 \<Longrightarrow> is_base64_char (base64_char n)"
  by (auto simp: base64_char_def is_base64_char_def)

lemma base64_shape:
  "list_all (\<lambda>b. b < 256) bs \<Longrightarrow> bs \<noteq> [] \<Longrightarrow>
     \<exists>xs pad. base64 bs = xs @ pad \<and> xs \<noteq> [] \<and> list_all is_base64_char xs \<and> pad \<in> {[], [61], [61, 61]}"
proof (induction bs rule: base64.induct)
  case (1 a b c bs)
  let ?q = "[base64_char (a div 4), base64_char (a mod 4 * 16 + b div 16), base64_char (b mod 16 * 4 + c div 64), base64_char (c mod 64)]"
  have small: "a div 4 < 64" "a mod 4 * 16 + b div 16 < 64" "b mod 16 * 4 + c div 64 < 64" "c mod 64 < 64"
    using 1 by (simp_all, linarith+)
  then have q: "list_all is_base64_char ?q" by (simp add: base64_char_ok)
  show ?case
  proof (cases "bs = []")
    case True
    then show ?thesis using q by - (rule exI [of _ ?q], rule exI [of _ "[]"], simp)
  next
    case False
    then obtain xs pad where "base64 bs = xs @ pad" "list_all is_base64_char xs" "pad \<in> {[], [61], [61, 61]}"
      using 1 by auto
    then show ?thesis using q by - (rule exI [of _ "?q @ xs"], rule exI [of _ pad], simp)
  qed
next
  case (2 a b)
  let ?q = "[base64_char (a div 4), base64_char (a mod 4 * 16 + b div 16), base64_char (b mod 16 * 4)]"
  have "a div 4 < 64" "a mod 4 < 4" "b div 16 < 16" "b mod 16 < 16" using 2 by auto
  then have "a div 4 < 64" "a mod 4 * 16 + b div 16 < 64" "b mod 16 * 4 < 64" by linarith+
  then have "list_all is_base64_char ?q" by (simp add: base64_char_ok)
  then show ?case by - (rule exI [of _ ?q], rule exI [of _ "[61]"], simp)
next
  case (3 a)
  let ?q = "[base64_char (a div 4), base64_char (a mod 4 * 16)]"
  have "a div 4 < 64" "a mod 4 * 16 < 64" using 3 by auto
  then have "list_all is_base64_char ?q" by (simp add: base64_char_ok)
  then show ?case by - (rule exI [of _ ?q], rule exI [of _ "[61, 61]"], simp)
qed simp

lemma generated_nonce:
  assumes "list_all (\<lambda>b. b < 256) bs" and "bs \<noteq> []"
  shows "is_nonce (generate_nonce bs)"
proof -
  obtain xs pad where x: "base64 bs = xs @ pad" "xs \<noteq> []" "list_all is_base64_char xs" "pad \<in> {[], [61], [61, 61]}"
    using base64_shape [OF assms] by blast
  have "takeWhile is_base64_char pad = []" "dropWhile is_base64_char pad = pad" using x(4) by (auto simp: is_base64_char_def)
  then have "takeWhile is_base64_char (xs @ pad) = xs" "dropWhile is_base64_char (xs @ pad) = pad"
    using x(3) by (simp_all add: list_all_iff)
  then show ?thesis using x by (simp add: is_nonce_def generate_nonce_def)
qed

section \<open>What a browser is told\<close>

text \<open>The headers the middleware adds are not set by the inner application, and CORS adds none of them.\<close>

definition policy_headers :: "ustr list" where
  "policy_headers = [CSP_HEADER, CSP_REPORT_ONLY_HEADER, lit ''X-Content-Type-Options'', lit ''Referrer-Policy'', lit ''X-Frame-Options'']"

definition unsecured :: "headers \<Rightarrow> bool" where
  "unsecured hs \<longleftrightarrow> list_all (\<lambda>name. header hs name = None) policy_headers"

definition has_baseline :: "headers \<Rightarrow> bool" where
  "has_baseline hs \<longleftrightarrow> header hs (lit ''X-Content-Type-Options'') = Some (lit ''nosniff'')
     \<and> header hs (lit ''Referrer-Policy'') = Some (lit ''no-referrer'') \<and> header hs (lit ''X-Frame-Options'') = Some (lit ''DENY'')"

lemma default_header_get:
  "header (default_header name v hs) k =
     (if lower k = lower name \<and> header hs name = None then Some v else header hs k)"
proof -
  have "lower name \<in> fst ` set hs \<longleftrightarrow> map_of hs (lower name) \<noteq> None" by (simp add: map_of_eq_None_iff)
  then show ?thesis by (auto simp: default_header_def header_def map_add_def split: option.splits)
qed

lemma names_differ:
  "lower CSP_HEADER \<noteq> lower (lit ''X-Content-Type-Options'')" "lower CSP_HEADER \<noteq> lower (lit ''Referrer-Policy'')"
  "lower CSP_HEADER \<noteq> lower (lit ''X-Frame-Options'')" "lower CSP_REPORT_ONLY_HEADER \<noteq> lower (lit ''X-Content-Type-Options'')"
  "lower CSP_REPORT_ONLY_HEADER \<noteq> lower (lit ''Referrer-Policy'')" "lower CSP_REPORT_ONLY_HEADER \<noteq> lower (lit ''X-Frame-Options'')"
  "lower CSP_HEADER \<noteq> lower CSP_REPORT_ONLY_HEADER" "lower (lit ''X-Content-Type-Options'') \<noteq> lower (lit ''Referrer-Policy'')"
  "lower (lit ''X-Content-Type-Options'') \<noteq> lower (lit ''X-Frame-Options'')" "lower (lit ''Referrer-Policy'') \<noteq> lower (lit ''X-Frame-Options'')"
  by (simp_all add: lower_def lower_char_def lit_def CSP_HEADER_def CSP_REPORT_ONLY_HEADER_def)

lemma headers_added:
  assumes "unsecured hs" and "policy_for nonce path = Some policy"
  shows "\<exists>hs'. add_headers ro nonce path hs = Some hs' \<and> has_baseline hs' \<and> header hs' (header_name ro) = Some policy
    \<and> header hs' (header_name (\<not> ro)) = None"
  using assms names_differ names_differ [symmetric]
  by (simp add: add_headers_def BASELINE_HEADERS_def has_baseline_def default_header_get header_name_def unsecured_def policy_headers_def)

lemma unsecured_put: "unsecured hs \<Longrightarrow> unsecured (put_header CACHE_CONTROL v hs)"
proof -
  assume u: "unsecured hs"
  have filt: "map_of (filter (\<lambda>x. fst x \<noteq> k) hs) k' = (if k' = k then None else map_of hs k')" for k k' :: ustr and hs :: headers
    by (induction hs) auto
  have get: "map_of (put_lower_header k v hs) k' = (if k' = k then Some v else map_of hs k')" for k k'
    by (induction hs) (auto simp: filt)
  show ?thesis using u names_differ
    by (simp add: unsecured_def policy_headers_def put_header_def header_def get)
       (simp add: lower_def lower_char_def lit_def CSP_HEADER_def CSP_REPORT_ONLY_HEADER_def CACHE_CONTROL_def)
qed

lemma shell_response_secure:
  assumes "\<forall>t. unsecured (resp_headers (html t)) \<and> resp_body (html t) = t"
  shows "unsecured (resp_headers (shell_response html nonce sh))"
    "resp_body (shell_response html nonce sh) = replace_text CSP_NONCE_PLACEHOLDER nonce sh"
  using assms by (simp_all add: shell_response_def Let_def unsecured_put)

lemma cached_secure: "unsecured (resp_headers r) \<Longrightarrow> unsecured (resp_headers (set_cache_control p r))"
  by (simp add: set_cache_control_def unsecured_put)

text \<open>C40: The interface is protected: every response of its mount carries the baseline headers and one policy, under the
  configured header only; the app shell is answered exactly to reads of its own paths and of unknown client routes, with
  its placeholder replaced by the fresh nonce and the strict policy for that nonce, and everything else gets the policy of
  its path, which has no nonce.\<close>
theorem interface_is_protected:
  assumes bytes: "list_all (\<lambda>b. b < 256) bytes" "bytes \<noteq> []"
    and refuses: "\<forall>p. method \<notin> set READ_METHODS \<longrightarrow> serve p = Http_error 405"
    and html: "\<forall>t. unsecured (resp_headers (html t)) \<and> resp_body (html t) = t"
    and page: "\<forall>c. unsecured (resp_headers (page c))"
    and files: "\<forall>p r. serve p = Served r \<longrightarrow> unsecured (resp_headers r)"
    and cors: "\<forall>hs. unsecured hs \<longrightarrow> unsecured (cors hs)"
  shows "\<exists>code hs body nonce. frontend_response html page json cors serve ro shell bytes method url_path path = ([Start code hs, Body body], False)
    \<and> has_baseline hs \<and> header hs (header_name (\<not> ro)) = None \<and> nonce = generate_nonce bytes \<and> is_nonce nonce
    \<and> (if shell \<noteq> None \<and> method \<in> set READ_METHODS
           \<and> (posix path \<in> set SHELL_PATHS \<or> serve path = Http_error 404 \<and> is_client_route (posix path))
       then header hs (header_name ro) = shell_policy nonce \<and> body = replace_text CSP_NONCE_PLACEHOLDER nonce (the shell)
       else header hs (header_name ro) = Some (if url_path \<in> set DOCS_PATHS then DOCS_POLICY else DEFAULT_POLICY))"
proof -
  let ?n = "generate_nonce bytes"
  define served where "served \<longleftrightarrow> shell \<noteq> None \<and> method \<in> set READ_METHODS
      \<and> (posix path \<in> set SHELL_PATHS \<or> serve path = Http_error 404 \<and> is_client_route (posix path))"
  obtain res nonce where g: "get_response html serve shell ?n method path = (res, nonce)" by fastforce
  define r where "r = (case res of Served r \<Rightarrow> r | Http_error code \<Rightarrow> page code)"
  have n: "is_nonce ?n" "?n \<noteq> []" using generated_nonce [OF bytes] by (auto simp: is_nonce_def)
  have one: "unsecured (resp_headers r) \<and> nonce = (if served then Some ?n else None)
      \<and> (served \<longrightarrow> resp_body r = replace_text CSP_NONCE_PLACEHOLDER ?n (the shell))"
    using g refuses html page files unfolding get_response_def Let_def r_def served_def
    
    by (auto simp: shell_response_secure [OF html] cached_secure split: if_splits static_result.splits option.splits)
  define policy where "policy = (if served then the (shell_policy ?n) else if url_path \<in> set DOCS_PATHS then DOCS_POLICY else DEFAULT_POLICY)"
  have sp: "shell_policy ?n = Some (the (shell_policy ?n))" using n by (simp add: shell_policy_def)
  then have pol: "policy_for nonce url_path = Some policy"
    using one n by (auto simp: policy_for_def policy_def nonempty_def)
  have "unsecured (cors (resp_headers r))" using cors one by simp
  then obtain hs where hs: "add_headers ro nonce url_path (cors (resp_headers r)) = Some hs" "has_baseline hs"
      "header hs (header_name ro) = Some policy" "header hs (header_name (\<not> ro)) = None"
    using headers_added [OF _ pol] by blast
  have "frontend_response html page json cors serve ro shell bytes method url_path path = ([Start (resp_status r) hs, Body (resp_body r)], False)"
    using g hs(1) by (simp add: frontend_response_def app_stack_def unhandled_error_def response_messages_def r_def)
  moreover have "if served then header hs (header_name ro) = shell_policy ?n \<and> resp_body r = replace_text CSP_NONCE_PLACEHOLDER ?n (the shell)
       else header hs (header_name ro) = Some (if url_path \<in> set DOCS_PATHS then DOCS_POLICY else DEFAULT_POLICY)"
    using one hs(3) sp by (cases served) (simp_all add: policy_def)
  ultimately show ?thesis unfolding served_def [symmetric] using hs n by blast
qed

text \<open>A deep link gets the shell with the nonce of three given bytes, and a post to it does not.\<close>

definition sample_serve :: "ustr \<Rightarrow> ustr \<Rightarrow> static_result" where
  "sample_serve method p = (if method \<in> set READ_METHODS then Http_error 404 else Http_error 405)"

theorem interface_is_protected_witness:
  "\<exists>code hs. frontend_response (\<lambda>t. \<lparr>resp_status = 200, resp_headers = [], resp_body = t\<rparr>) (\<lambda>c. \<lparr>resp_status = c, resp_headers = [], resp_body = []\<rparr>)
      (\<lambda>c d. []) (\<lambda>hs. hs) (sample_serve (lit ''GET'')) False (Some CSP_NONCE_PLACEHOLDER) ([77, 97, 110]) (lit ''GET'') (lit ''/build'') (lit ''build'')
     = ([Start code hs, Body (lit ''TWFu'')], False) \<and> header hs CSP_HEADER = shell_policy (lit ''TWFu'')"
proof -
  have nonce: "generate_nonce ([77, 97, 110]) = lit ''TWFu''"
    by (simp add: generate_nonce_def base64_char_def lit_def)
  have body: "replace_text CSP_NONCE_PLACEHOLDER n CSP_NONCE_PLACEHOLDER = n" for n
    by (simp add: CSP_NONCE_PLACEHOLDER_def lit_def replace_text.simps starts_with_def)
  have route: "is_client_route (posix (lit ''build''))" "posix (lit ''build'') \<notin> set SHELL_PATHS" "lit ''GET'' \<in> set READ_METHODS"
    by (simp_all add: is_client_route_def posix_def lit_def SHELL_PATHS_def INDEX_def READ_METHODS_def starts_with_def)
  show ?thesis
    using interface_is_protected [of "[77, 97, 110]" "lit ''GET''" "sample_serve (lit ''GET'')"
        "\<lambda>t. \<lparr>resp_status = 200, resp_headers = [], resp_body = t\<rparr>" "\<lambda>c. \<lparr>resp_status = c, resp_headers = [], resp_body = []\<rparr>"
        "\<lambda>hs. hs" "\<lambda>c d. []" False "Some CSP_NONCE_PLACEHOLDER" "lit ''/build''" "lit ''build''"] nonce body route
    by (simp add: sample_serve_def unsecured_def policy_headers_def header_def list_all_iff header_name_def) blast
qed

end
