(* ===== verification/Startup.thy ===== *)
theory Startup
  imports AuthMachine Throttle Sockets BuildTasks ContentRepo
begin

text \<open>
  \<^verbatim>\<open>db/migrate.py\<close>, \<^verbatim>\<open>db/instance_lock.py\<close> and the start and end of the service in \<^verbatim>\<open>api/services.py\<close>.  A
  database file is a value of any type: what Alembic and SQLite make of it is given by functions of the
  environment, and so are the outcomes of the locks and of the file system.
\<close>

section \<open>The data folder and its migration\<close>

text \<open>The database, the backups by name and the names of the files beside the content database.\<close>

record 'db data_folder =
  df_progress :: "'db option"
  df_backups :: "(ustr \<times> 'db) list"
  df_names :: "ustr list"

datatype migration_error =
    No_migrations | Folder_failed | Lock_timeout | Database_error | Not_writable | Backup_failed | Command_error

text \<open>
  \<open>me_revision\<close> is the revision of a database (\<open>Some None\<close> without one), \<open>None\<close> when it cannot be read; \<open>me_copy\<close>
  what a backup writes and whether it succeeds; \<open>me_upgrade\<close> what Alembic leaves and the error it raises.
\<close>

record 'db migration_env =
  me_head :: "ustr option"
  me_folder :: bool
  me_lock :: bool
  me_revision :: "'db \<Rightarrow> ustr option option"
  me_writable :: bool
  me_backup_folder :: bool
  me_copy :: "'db \<Rightarrow> 'db \<times> bool"
  me_upgrade :: "'db option \<Rightarrow> 'db option \<times> migration_error option"
  me_now :: instant

record migration_result =
  from_revision :: "ustr option"
  to_revision :: ustr
  upgraded :: bool
  backup_path :: "ustr option"

partial_function (option) unused_backup_loop :: "(ustr \<Rightarrow> bool) \<Rightarrow> ustr \<Rightarrow> nat \<Rightarrow> ustr \<Rightarrow> ustr option" where
  "unused_backup_loop exists stem counter target =
     (if exists target then unused_backup_loop exists stem (counter + 1) (stem @ lit ''-'' @ dec counter @ lit ''.db'')
      else Some target)"

definition unused_backup_path :: "(ustr \<Rightarrow> bool) \<Rightarrow> ustr \<Rightarrow> ustr option" where
  "unused_backup_path exists stem = unused_backup_loop exists stem 2 (stem @ lit ''.db'')"

text \<open>\<^verbatim>\<open>%Y%m%dT%H%M%SZ\<close> of an instant; the year is the C library's, as in the timestamps.\<close>

definition utc_stamp :: "instant \<Rightarrow> ustr" where
  "utc_stamp t =
     (case civil (t div DAY) of (y, m, d) \<Rightarrow>
        let us = t mod DAY in
        dec (nat y) @ pad 2 (nat m) @ pad 2 (nat d) @ LETTER_T # pad 2 (nat (us div HOUR))
          @ pad 2 (nat (us div (60 * SECOND) mod 60)) @ pad 2 (nat (us div SECOND mod 60)) @ [LETTER_Z])"

definition backup_stem :: "instant \<Rightarrow> ustr option \<Rightarrow> ustr" where
  "backup_stem now revision =
     lit ''progress-'' @ utc_stamp now @ lit ''-from-''
       @ (case revision of None \<Rightarrow> lit ''unversioned'' | Some r \<Rightarrow> if r = [] then lit ''unversioned'' else r)"

text \<open>\<^verbatim>\<open>_backup\<close>: \<open>None\<close> is a loop that does not end.  A copy that fails leaves what it has written.\<close>

definition backup ::
  "'db migration_env \<Rightarrow> 'db \<Rightarrow> ustr option \<Rightarrow> 'db data_folder \<Rightarrow> ((migration_error + ustr) \<times> 'db data_folder) option" where
  "backup env db revision folder =
     (if \<not> me_backup_folder env then Some (Inl Folder_failed, folder)
      else
        map_option (\<lambda>target.
            (if snd (me_copy env db) then Inr target else Inl Backup_failed,
             folder\<lparr>df_backups := df_backups folder @ [(target, fst (me_copy env db))]\<rparr>))
          (unused_backup_path (\<lambda>name. name \<in> fst ` set (df_backups folder)) (backup_stem (me_now env) revision)))"

definition upgrade ::
  "'db migration_env \<Rightarrow> ustr \<Rightarrow> ustr option \<Rightarrow> ustr option \<Rightarrow> 'db data_folder
     \<Rightarrow> (migration_error + migration_result) \<times> 'db data_folder" where
  "upgrade env head current path folder =
     (case me_upgrade env (df_progress folder) of (db, failure) \<Rightarrow>
        (case failure of
           Some e \<Rightarrow> Inl e
         | None \<Rightarrow> Inr \<lparr>from_revision = current, to_revision = head, upgraded = True, backup_path = path\<rparr>,
         folder\<lparr>df_progress := db\<rparr>))"

definition run_migrations ::
  "'db migration_env \<Rightarrow> 'db data_folder \<Rightarrow> ((migration_error + migration_result) \<times> 'db data_folder) option" where
  "run_migrations env folder =
     (case me_head env of
        None \<Rightarrow> Some (Inl No_migrations, folder)
      | Some head \<Rightarrow>
          if \<not> me_folder env then Some (Inl Folder_failed, folder)
          else if \<not> me_lock env then Some (Inl Lock_timeout, folder)
          else
            (case df_progress folder of
               None \<Rightarrow> Some (upgrade env head None None folder)
             | Some db \<Rightarrow>
                 (case me_revision env db of
                    None \<Rightarrow> Some (Inl Database_error, folder)
                  | Some current \<Rightarrow>
                      if current = Some head
                      then Some (Inr \<lparr>from_revision = current, to_revision = head, upgraded = False, backup_path = None\<rparr>, folder)
                      else if \<not> me_writable env then Some (Inl Not_writable, folder)
                      else
                        map_option (\<lambda>(res, folder).
                            case res of Inl e \<Rightarrow> (Inl e, folder) | Inr path \<Rightarrow> upgrade env head current (Some path) folder)
                          (backup env db current folder))))"

section \<open>The service\<close>

datatype lock_outcome = Lock_taken | Lock_held | Lock_file_failed

text \<open>\<open>se_rows\<close> and \<open>se_set_rows\<close> read and write the table of revoked sessions in a database.\<close>

record 'db start_env =
  se_lock :: lock_outcome
  se_migration :: "'db migration_env"
  se_content_name :: ustr
  se_unlink :: "ustr \<Rightarrow> bool"
  se_ping :: bool
  se_rows :: "'db \<Rightarrow> (ustr \<times> ustr) list"
  se_set_rows :: "(ustr \<times> ustr) list \<Rightarrow> 'db \<Rightarrow> 'db"
  se_now :: instant
  se_context :: bool
  se_jamdict :: bool
  se_content :: "content_file option"
  se_dispose :: bool

datatype start_error =
    Instance_locked | Lock_unwritable | Migration_startup migration_error \<comment> \<open>\<^verbatim>\<open>StartupError\<close>\<close>
  | Migration_raised migration_error | Ping_failed | Revocations_unreadable | Context_failed

record resources =
  res_lock :: bool
  res_engine :: bool

record ('c, 'q) services =
  svc_auth :: auth_settings
  svc_store :: revoked_store
  svc_sockets :: "'c session_sockets"
  svc_pending :: pending_gate
  svc_throttle :: throttle
  svc_tasks :: "'q build_manager"
  svc_ctx :: app_context
  svc_jamdict :: bool
  svc_content_fault :: "not_ready option"

text \<open>
  \<^verbatim>\<open>DatabaseError\<close>, \<^verbatim>\<open>CommandError\<close> and \<^verbatim>\<open>OSError\<close> become a \<^verbatim>\<open>StartupError\<close>; the \<^verbatim>\<open>RuntimeError\<close> of a missing
  head and the \<^verbatim>\<open>sqlite3.Error\<close> of a backup do not.
\<close>

fun is_handled :: "migration_error \<Rightarrow> bool" where
  "is_handled No_migrations = False"
| "is_handled Backup_failed = False"
| "is_handled e = True"

definition create_context :: "content_file option \<Rightarrow> app_context" where
  "create_context found = refresh_content_repo found \<lparr>ctx_repo = None, next_handle = 0\<rparr>"

definition check_content_schema :: "app_context \<Rightarrow> not_ready option" where
  "check_content_schema ctx = (case ctx_repo ctx of None \<Rightarrow> None | Some repo \<Rightarrow> verify_file (repo_file repo))"

text \<open>After the migration: the engine exists, and on an error it is disposed of before the error goes on.\<close>

definition open_services ::
  "auth_settings \<Rightarrow> 'db start_env \<Rightarrow> 'db data_folder
     \<Rightarrow> (start_error + ('c, 'q) services) \<times> resources \<times> 'db data_folder" where
  "open_services cfg env folder =
     (let closed = \<lparr>res_lock = True, res_engine = \<not> se_dispose env\<rparr> in
      if \<not> se_ping env then (Inl Ping_failed, closed, folder)
      else
        let rows = (case df_progress folder of None \<Rightarrow> [] | Some db \<Rightarrow> se_rows env db);
            folder = folder\<lparr>df_progress := map_option (se_set_rows env (live_rows (se_now env) rows)) (df_progress folder)\<rparr>
        in (case store_load (se_now env) \<lparr>revoked_rows = rows, revoked_memory = []\<rparr> of
              None \<Rightarrow> (Inl Revocations_unreadable, closed, folder)
            | Some store \<Rightarrow>
                if \<not> se_context env then (Inl Context_failed, closed, folder)
                else
                  (case new_pending_gate MAX_PENDING_AUTH of
                     None \<Rightarrow> (Inl Context_failed, closed, folder)
                   | Some gate \<Rightarrow>
                       (Inr \<lparr>svc_auth = cfg, svc_store = store, svc_sockets = [], svc_pending = gate,
                             svc_throttle = new_throttle 5 60, svc_tasks = new_manager 10 512,
                             svc_ctx = create_context (se_content env), svc_jamdict = se_jamdict env,
                             svc_content_fault = check_content_schema (create_context (se_content env))\<rparr>,
                        \<lparr>res_lock = True, res_engine = True\<rparr>, folder))))"

definition build_services ::
  "auth_settings \<Rightarrow> 'db start_env \<Rightarrow> 'db data_folder
     \<Rightarrow> ((start_error + ('c, 'q) services) \<times> resources \<times> 'db data_folder) option" where
  "build_services cfg env folder =
     (let free = \<lparr>res_lock = False, res_engine = False\<rparr> in
      case se_lock env of
        Lock_held \<Rightarrow> Some (Inl Instance_locked, free, folder)
      | Lock_file_failed \<Rightarrow> Some (Inl Lock_unwritable, free, folder)
      | Lock_taken \<Rightarrow>
          map_option (\<lambda>(migrated, folder).
              case migrated of
                Inl e \<Rightarrow> (Inl (if is_handled e then Migration_startup e else Migration_raised e), free, folder)
              | Inr _ \<Rightarrow>
                  (let folder = folder\<lparr>df_names := fst (remove_stale_temp_files (se_content_name env) (se_unlink env) (df_names folder))\<rparr> in
                   case open_services cfg env folder of
                     (Inl e, res, folder) \<Rightarrow> (Inl e, res\<lparr>res_lock := False\<rparr>, folder)
                   | (Inr s, res, folder) \<Rightarrow> (Inr s, res, folder)))
            (run_migrations (se_migration env) folder))"

text \<open>\<^verbatim>\<open>Services.aclose\<close>: whether it ends normally, and what is still held.\<close>

definition aclose_services :: "bool \<Rightarrow> bool \<Rightarrow> resources \<Rightarrow> bool \<times> resources" where
  "aclose_services wait_ok dispose_ok res = (wait_ok \<and> dispose_ok, \<lparr>res_lock = False, res_engine = res_engine res \<and> \<not> dispose_ok\<rparr>)"

section \<open>The search for a backup name\<close>

abbreviation numbered :: "ustr \<Rightarrow> nat \<Rightarrow> ustr" where
  "numbered stem n \<equiv> stem @ lit ''-'' @ dec n @ lit ''.db''"

lemma numbered_inject: "numbered stem m = numbered stem n \<longleftrightarrow> m = n"
  by simp

lemma free_number:
  assumes "finite {name. exists name}"
  shows "\<exists>n \<ge> k. \<not> exists (numbered stem n)"
proof (rule ccontr)
  assume "\<not> ?thesis"
  then have "numbered stem ` {k..} \<subseteq> {name. exists name}" by auto
  then have "finite (numbered stem ` {k..})" using assms by (rule finite_subset)
  then have "finite {k..}" by (rule finite_imageD) (simp add: inj_on_def)
  then show False by (simp add: infinite_Ici)
qed

lemma unused_backup_loop_ends:
  "\<not> exists (numbered stem n) \<Longrightarrow> counter \<le> n \<Longrightarrow>
     \<exists>t. unused_backup_loop exists stem counter target = Some t \<and> \<not> exists t"
proof (induction "n - counter" arbitrary: counter target)
  case 0
  then have "counter = n" by simp
  then show ?case using 0 by (subst unused_backup_loop.simps, subst unused_backup_loop.simps) simp
next
  case (Suc m)
  show ?case
  proof (cases "exists target")
    case True
    have "m = n - (counter + 1)" "counter + 1 \<le> n" using Suc.hyps(2) by auto
    then show ?thesis using Suc.hyps(1) [OF _ Suc.prems(1)] True by (subst unused_backup_loop.simps) simp
  next
    case False
    then show ?thesis by (subst unused_backup_loop.simps) simp
  qed
qed

lemma unused_backup_path_ends: "\<exists>t. unused_backup_path (\<lambda>name. name \<in> fst ` set bs) stem = Some t \<and> t \<notin> fst ` set bs"
proof -
  obtain n where "2 \<le> n" "\<not> numbered stem n \<in> fst ` set bs"
    using free_number [of "\<lambda>name. name \<in> fst ` set bs" 2 stem] by auto
  then show ?thesis unfolding unused_backup_path_def by (intro unused_backup_loop_ends) auto
qed

lemma backup_cases:
  obtains "backup env db revision folder = Some (Inl Folder_failed, folder)"
  | name where "name \<notin> fst ` set (df_backups folder)"
      "backup env db revision folder = Some (if snd (me_copy env db) then Inr name else Inl Backup_failed,
         folder\<lparr>df_backups := df_backups folder @ [(name, fst (me_copy env db))]\<rparr>)"
proof (cases "me_backup_folder env")
  case True
  obtain name where name: "unused_backup_path (\<lambda>name. name \<in> fst ` set (df_backups folder)) (backup_stem (me_now env) revision) = Some name"
      "name \<notin> fst ` set (df_backups folder)"
    using unused_backup_path_ends by blast
  then have "backup env db revision folder = Some (if snd (me_copy env db) then Inr name else Inl Backup_failed,
         folder\<lparr>df_backups := df_backups folder @ [(name, fst (me_copy env db))]\<rparr>)"
    using True by (simp add: backup_def)
  then show ?thesis using name(2) that(2) by blast
next
  case False
  then show ?thesis using that(1) by (simp add: backup_def)
qed

abbreviation with_backup :: "'db migration_env \<Rightarrow> ustr \<Rightarrow> 'db \<Rightarrow> 'db data_folder \<Rightarrow> 'db data_folder" where
  "with_backup env name db folder \<equiv> folder\<lparr>df_backups := df_backups folder @ [(name, fst (me_copy env db))]\<rparr>"

lemma run_migrations_cases:
  obtains (failed) e where "run_migrations env folder = Some (Inl e, folder)"
  | (current) head db where "me_head env = Some head" "df_progress folder = Some db" "me_revision env db = Some (Some head)"
      "run_migrations env folder = Some (Inr \<lparr>from_revision = Some head, to_revision = head, upgraded = False, backup_path = None\<rparr>, folder)"
  | (fresh) head where "me_head env = Some head" "df_progress folder = None"
      "run_migrations env folder = Some (upgrade env head None None folder)"
  | (copy_failed) name db where "df_progress folder = Some db" "name \<notin> fst ` set (df_backups folder)"
      "run_migrations env folder = Some (Inl Backup_failed, with_backup env name db folder)"
  | (copied) name db head current where "me_head env = Some head" "df_progress folder = Some db" "me_revision env db = Some current"
      "name \<notin> fst ` set (df_backups folder)" "snd (me_copy env db)"
      "run_migrations env folder = Some (upgrade env head current (Some name) (with_backup env name db folder))"
proof (cases "me_head env = None \<or> \<not> me_folder env \<or> \<not> me_lock env")
  case True
  then have "\<exists>e. run_migrations env folder = Some (Inl e, folder)" by (cases "me_head env") (auto simp: run_migrations_def)
  then show ?thesis using failed by blast
next
  case False
  then obtain head where head: "me_head env = Some head" "me_folder env" "me_lock env" by auto
  show ?thesis
  proof (cases "df_progress folder")
    case None
    then show ?thesis using head fresh by (simp add: run_migrations_def)
  next
    case (Some db)
    show ?thesis
    proof (cases "me_revision env db = None \<or> me_revision env db = Some (Some head) \<or> \<not> me_writable env")
      case True
      then consider "me_revision env db = Some (Some head)" | "\<exists>e. run_migrations env folder = Some (Inl e, folder)"
        using head Some by (cases "me_revision env db"; cases "me_revision env db = Some (Some head)") (auto simp: run_migrations_def)
      then show ?thesis
      proof cases
        case 1
        then show ?thesis using head Some current by (simp add: run_migrations_def)
      qed (use failed in blast)
    next
      case False
      then obtain rev where cur: "me_revision env db = Some rev" "rev \<noteq> Some head" "me_writable env" by auto
      have run: "run_migrations env folder = map_option (\<lambda>(res, folder).
          case res of Inl e \<Rightarrow> (Inl e, folder) | Inr path \<Rightarrow> upgrade env head rev (Some path) folder) (backup env db rev folder)"
        using head Some cur by (simp add: run_migrations_def)
      show ?thesis
      proof (rule backup_cases [of env db rev folder])
        assume "backup env db rev folder = Some (Inl Folder_failed, folder)"
        then show ?thesis using run failed by simp
      next
        fix name
        assume n: "name \<notin> fst ` set (df_backups folder)"
          and b: "backup env db rev folder = Some (if snd (me_copy env db) then Inr name else Inl Backup_failed, with_backup env name db folder)"
        show ?thesis
        proof (cases "snd (me_copy env db)")
          case True
          then show ?thesis using copied [of head db rev name] run b n head cur Some by simp
        next
          case False
          then show ?thesis using copy_failed [of db name] run b n Some by simp
        qed
      qed
    qed
  qed
qed

section \<open>Properties\<close>

text \<open>C38: The migration ends, whatever backups exist, and never costs data: every backup that existed is kept, a database
  that is not at the head is copied to a name that was free before Alembic touches it, and on success the database is
  either at the head already, and nothing changed, or what Alembic made of it.\<close>
theorem migration_keeps_backups:
  "\<exists>out folder'. run_migrations env folder = Some (out, folder')
    \<and> (\<exists>new. df_backups folder' = df_backups folder @ new \<and> fst ` set new \<inter> fst ` set (df_backups folder) = {}
         \<and> (df_progress folder' \<noteq> df_progress folder \<longrightarrow>
              (case df_progress folder of
                 None \<Rightarrow> new = []
               | Some db \<Rightarrow> \<exists>name. new = [(name, fst (me_copy env db))] \<and> snd (me_copy env db))))
    \<and> (\<forall>r. out = Inr r \<longrightarrow> me_head env = Some (to_revision r)
         \<and> (if upgraded r
            then me_upgrade env (df_progress folder) = (df_progress folder', None)
              \<and> (\<forall>db. df_progress folder = Some db \<longrightarrow> me_revision env db = Some (from_revision r)
                   \<and> (\<exists>name. backup_path r = Some name \<and> map_of (df_backups folder') name = Some (fst (me_copy env db))))
            else folder' = folder
              \<and> (\<exists>db. df_progress folder = Some db \<and> me_revision env db = Some (me_head env))))"
proof (cases rule: run_migrations_cases [of env folder])
  case (copied name db head current)
  have "map_of (df_backups folder) name = None" using copied(4) by (simp add: map_of_eq_None_iff)
  then have "([name \<mapsto> x] ++ map_of (df_backups folder)) name = Some x" for x by (simp add: map_add_def)
  then show ?thesis using copied by (auto simp: upgrade_def split: option.splits prod.splits)
qed (auto simp: upgrade_def split: option.splits prod.splits)

definition sample_migration :: "ustr migration_env" where
  "sample_migration =
     \<lparr>me_head = Some (lit ''2''), me_folder = True, me_lock = True, me_revision = (\<lambda>db. Some (Some db)), me_writable = True,
      me_backup_folder = True, me_copy = (\<lambda>db. (db, True)), me_upgrade = (\<lambda>_. (Some (lit ''2''), None)), me_now = 0\<rparr>"

theorem migration_keeps_backups_witness:
  "run_migrations sample_migration \<lparr>df_progress = None, df_backups = [(lit ''old.db'', lit ''0'')], df_names = []\<rparr>
     = Some (Inr \<lparr>from_revision = None, to_revision = lit ''2'', upgraded = True, backup_path = None\<rparr>,
         \<lparr>df_progress = Some (lit ''2''), df_backups = [(lit ''old.db'', lit ''0'')], df_names = []\<rparr>)"
  using migration_keeps_backups [of sample_migration "\<lparr>df_progress = None, df_backups = [(lit ''old.db'', lit ''0'')], df_names = []\<rparr>"]
  by (simp add: sample_migration_def run_migrations_def upgrade_def)

lemma live_rows_idem [simp]: "live_rows now (live_rows now rows) = live_rows now rows"
  by (simp add: live_rows_def)

lemma those_keys:
  "those (map (\<lambda>(sid, e). map_option (Pair sid) (f e)) rows) = Some mem \<Longrightarrow> map fst mem = map fst rows"
  by (induction rows arbitrary: mem) (auto split: option.splits)

lemma store_load_keys:
  assumes "store_load now \<lparr>revoked_rows = rows, revoked_memory = []\<rparr> = Some st"
  shows "revoked_rows st = live_rows now rows" "fst ` set (revoked_memory st) = fst ` set (live_rows now rows)"
proof -
  obtain mem where mem: "those (map (\<lambda>(sid, e). map_option (Pair sid) (parse_timestamp e)) (live_rows now rows)) = Some mem"
      "st = \<lparr>revoked_rows = live_rows now rows, revoked_memory = mem\<rparr>"
    using assms by (auto simp: store_load_def Let_def)
  then have "set (map fst mem) = set (map fst (live_rows now rows))" by (simp only: those_keys)
  then show "revoked_rows st = live_rows now rows" "fst ` set (revoked_memory st) = fst ` set (live_rows now rows)"
    using mem by simp_all
qed

lemma pending_gate_starts: "new_pending_gate MAX_PENDING_AUTH = Some \<lparr>pg_limit = MAX_PENDING_AUTH, pg_pending = 0\<rparr>"
  by (simp add: new_pending_gate_def MAX_PENDING_AUTH_def)

text \<open>C37: The service starts completely or not at all: a start always ends; without the instance lock nothing in the
  data folder is touched; on an error the lock is given back and the engine closed, and no backup is lost; on success both
  are held, the schema of the database is at the head, every revocation that has not lapsed is in memory and in the table,
  and no one is connected, throttled, waiting or building.\<close>
theorem startup_all_or_nothing:
  fixes env :: "'db start_env" and cfg :: auth_settings
  assumes rows: "\<And>rows db. se_rows env (se_set_rows env rows db) = rows"
    and upgrade: "\<And>db. snd (me_upgrade (se_migration env) db) = None \<Longrightarrow>
      \<exists>db'. fst (me_upgrade (se_migration env) db) = Some db' \<and> me_revision (se_migration env) db' = Some (me_head (se_migration env))"
    and keeps: "\<And>rows db. me_revision (se_migration env) (se_set_rows env rows db) = me_revision (se_migration env) db"
  shows "\<exists>out res folder'. (build_services cfg env folder :: ((start_error + ('c, 'q) services) \<times> resources \<times> 'db data_folder) option)
      = Some (out, res, folder')
    \<and> (\<exists>new. df_backups folder' = df_backups folder @ new)
    \<and> (se_lock env \<noteq> Lock_taken \<longrightarrow> folder' = folder)
    \<and> (case out of
         Inl e \<Rightarrow> \<not> res_lock res \<and> (se_dispose env \<longrightarrow> \<not> res_engine res)
       | Inr s \<Rightarrow> res_lock res \<and> res_engine res \<and> svc_sockets s = [] \<and> pg_pending (svc_pending s) = 0
           \<and> th_failures (svc_throttle s) = [] \<and> bm_active (svc_tasks s) = None
           \<and> (\<exists>db. df_progress folder' = Some db \<and> me_revision (se_migration env) db = Some (me_head (se_migration env))
                \<and> revoked_rows (svc_store s) = se_rows env db \<and> live_rows (se_now env) (se_rows env db) = se_rows env db
                \<and> fst ` set (revoked_memory (svc_store s)) = fst ` set (se_rows env db)))"
proof (cases "se_lock env = Lock_taken")
  case False
  then show ?thesis by (cases "se_lock env") (auto simp: build_services_def Let_def)
next
  case True
  obtain migrated folder1 where run: "run_migrations (se_migration env) folder = Some (migrated, folder1)"
      "\<exists>new. df_backups folder1 = df_backups folder @ new"
      "\<forall>r. migrated = Inr r \<longrightarrow> (\<exists>db. df_progress folder1 = Some db \<and> me_revision (se_migration env) db = Some (me_head (se_migration env)))"
  proof (cases rule: run_migrations_cases [of "se_migration env" folder])
    case (fresh head)
    then show ?thesis using that upgrade [of None] by (auto simp: upgrade_def split: option.splits prod.splits)
  next
    case (copied name db head current)
    then show ?thesis using that upgrade [of "Some db"] by (auto simp: upgrade_def split: option.splits prod.splits)
  qed (use that in auto)
  define folder2 where "folder2 = folder1\<lparr>df_names := fst (remove_stale_temp_files (se_content_name env) (se_unlink env) (df_names folder1))\<rparr>"
  show ?thesis
  proof (cases migrated)
    case (Inl e)
    then show ?thesis using True run by (simp add: build_services_def)
  next
    case (Inr r)
    then obtain db where db: "df_progress folder2 = Some db" "me_revision (se_migration env) db = Some (me_head (se_migration env))"
      using run(3) by (auto simp: folder2_def)
    have kept: "\<exists>new. df_backups folder2 = df_backups folder @ new" using run(2) by (simp add: folder2_def)
    have b: "(build_services cfg env folder :: ((start_error + ('c, 'q) services) \<times> resources \<times> 'db data_folder) option) =
        Some (case open_services cfg env folder2 of (Inl e, res, f) \<Rightarrow> (Inl e, res\<lparr>res_lock := False\<rparr>, f) | (Inr s, res, f) \<Rightarrow> (Inr s, res, f))"
      using True run(1) Inr by (simp add: build_services_def folder2_def Let_def)
    show ?thesis unfolding b using db kept rows keeps True
      by (auto simp: open_services_def Let_def pending_gate_starts new_throttle_def new_manager_def store_load_keys
          split: option.splits)
  qed
qed

definition sample_settings :: auth_settings where
  "sample_settings = \<lparr>auth_username = lit ''u'', password_hash = lit ''$argon2'', jwt_secret = replicate 32 65,
     access_ttl_minutes = 15, refresh_ttl_days = 30\<rparr>"

definition sample_start :: "(ustr \<times> (ustr \<times> ustr) list) start_env" where
  "sample_start =
     \<lparr>se_lock = Lock_taken,
      se_migration =
        \<lparr>me_head = Some (lit ''2''), me_folder = True, me_lock = True, me_revision = (\<lambda>db. Some (Some (fst db))), me_writable = True,
         me_backup_folder = True, me_copy = (\<lambda>db. (db, True)), me_upgrade = (\<lambda>_. (Some (lit ''2'', []), None)), me_now = 0\<rparr>,
      se_content_name = lit ''content.db'', se_unlink = (\<lambda>_. True), se_ping = True, se_rows = snd,
      se_set_rows = (\<lambda>rows db. (fst db, rows)), se_now = 0, se_context = True, se_jamdict = True, se_content = None, se_dispose = True\<rparr>"

theorem startup_all_or_nothing_witness:
  "\<exists>out res folder'. (build_services sample_settings sample_start \<lparr>df_progress = None, df_backups = [], df_names = []\<rparr>
      :: ((start_error + (nat, nat) services) \<times> resources \<times> (ustr \<times> (ustr \<times> ustr) list) data_folder) option)
    = Some (out, res, folder') \<and> (case out of Inl e \<Rightarrow> \<not> res_lock res | Inr s \<Rightarrow> res_lock res \<and> svc_sockets s = [])"
proof -
  have env: "se_rows sample_start (se_set_rows sample_start rows db) = rows"
      "me_revision (se_migration sample_start) (se_set_rows sample_start rows db) = me_revision (se_migration sample_start) db"
      "\<exists>db'. fst (me_upgrade (se_migration sample_start) old) = Some db' \<and> me_revision (se_migration sample_start) db' = Some (me_head (se_migration sample_start))"
    for rows db old by (simp_all add: sample_start_def)
  let ?folder = "\<lparr>df_progress = None, df_backups = [], df_names = []\<rparr>"
  obtain out :: "start_error + (nat, nat) services" and res folder' where
      "build_services sample_settings sample_start ?folder = Some (out, res, folder')"
      "case out of Inl e \<Rightarrow> \<not> res_lock res | Inr s \<Rightarrow> res_lock res \<and> svc_sockets s = []"
    using startup_all_or_nothing [where env = sample_start and cfg = sample_settings and 'c = nat and 'q = nat and
        folder = ?folder, OF env(1) env(3) env(2)]
    by (elim exE conjE) (rename_tac out res f new, case_tac out, simp_all)
  then show ?thesis by blast
qed

end
