(* ===== verification/Api.thy ===== *)
theory Api
  imports Startup Stats
begin

text \<open>
  \<^verbatim>\<open>api/schemas.py\<close>, \<^verbatim>\<open>api/deps.py\<close>, the routers under \<^verbatim>\<open>api/routers\<close>, \<^verbatim>\<open>services/health.py\<close>,
  \<^verbatim>\<open>services/config_check.py\<close> and the exception handlers of \<^verbatim>\<open>api/app.py\<close>: what each HTTP request does to the
  running service and what it answers.  Requests are values whose JSON has been read; a request whose JSON
  cannot be read, and one that no route matches, is answered by FastAPI.  Logins are in \<open>Throttle\<close>, because
  they wait for the password check between two steps, and the stream is in \<open>Sockets\<close> and \<open>BuildTasks\<close>.
\<close>

section \<open>Response models\<close>

text \<open>\<^verbatim>\<open>round(x, n)\<close> of a float.\<close>

definition round_digits :: "nat \<Rightarrow> rat \<Rightarrow> rat" where
  "round_digits n x = fl (of_int (round_half_even (x * 10 ^ n)) / 10 ^ n)"

record build_status_response =
  bs_task_id :: ustr
  bs_state :: build_state
  bs_dry_run :: bool
  bs_started_at :: int
  bs_finished_at :: "int option"
  bs_progress :: "build_progress option"
  bs_report :: "build_report option"
  bs_error :: "ustr option"

definition build_status :: "build_task \<Rightarrow> build_status_response" where
  "build_status task =
     \<lparr>bs_task_id = bt_id task, bs_state = bt_state task, bs_dry_run = bt_dry_run task, bs_started_at = bt_started_at task,
      bs_finished_at = bt_finished_at task, bs_progress = bt_progress task,
      bs_report = map_option (\<lambda>r. r\<lparr>rep_duration := round_digits 3 (rep_duration r)\<rparr>) (bt_report task),
      bs_error = bt_error task\<rparr>"

record content_summary_response =
  cs_built :: bool
  cs_kana :: int
  cs_kanji :: int
  cs_vocab :: int
  cs_unleveled :: int
  cs_kanji_by_level :: "(ustr \<times> int) list"
  cs_vocab_by_level :: "(ustr \<times> int) list"
  cs_meta :: "(ustr \<times> ustr) list"

definition not_built :: content_summary_response where
  "not_built = \<lparr>cs_built = False, cs_kana = 0, cs_kanji = 0, cs_vocab = 0, cs_unleveled = 0, cs_kanji_by_level = [],
     cs_vocab_by_level = [], cs_meta = []\<rparr>"

section \<open>Health\<close>

datatype health_status = Health_ok | Health_degraded | Health_error

fun severity :: "health_status \<Rightarrow> int" where
  "severity Health_ok = 0"
| "severity Health_degraded = 1"
| "severity Health_error = 2"

record component_health =
  ch_status :: health_status
  ch_detail :: ustr
  ch_latency_ms :: rat

record health_report =
  hr_status :: health_status
  hr_components :: "(ustr \<times> component_health) list"

text \<open>What a ping gives, after how many milliseconds; a failure comes with the name of its class.\<close>

datatype ping = Ping_ok rat | Ping_failed ustr rat

fun check_progress_db :: "ping \<Rightarrow> component_health" where
  "check_progress_db (Ping_ok ms) = \<lparr>ch_status = Health_ok, ch_detail = [], ch_latency_ms = ms\<rparr>"
| "check_progress_db (Ping_failed name ms) = \<lparr>ch_status = Health_error, ch_detail = name, ch_latency_ms = ms\<rparr>"

text \<open>\<open>why\<close> is the message of the schema error or the class of another one.\<close>

definition check_content_db :: "(not_ready \<Rightarrow> ustr) \<Rightarrow> rat \<Rightarrow> app_context \<Rightarrow> component_health" where
  "check_content_db why ms ctx =
     (case ctx_repo ctx of
        None \<Rightarrow> \<lparr>ch_status = Health_degraded, ch_detail = lit ''content.db not built yet; run a content build'', ch_latency_ms = 0\<rparr>
      | Some repo \<Rightarrow>
          (case verify_file (repo_file repo) of
             Some e \<Rightarrow> \<lparr>ch_status = Health_degraded, ch_detail = why e, ch_latency_ms = 0\<rparr>
           | None \<Rightarrow> \<lparr>ch_status = Health_ok, ch_detail = [], ch_latency_ms = ms\<rparr>))"

definition check_jamdict :: "bool \<Rightarrow> component_health" where
  "check_jamdict available =
     (if \<not> available
      then \<lparr>ch_status = Health_degraded, ch_detail = lit ''jamdict database unavailable; builds are disabled'', ch_latency_ms = 0\<rparr>
      else \<lparr>ch_status = Health_ok, ch_detail = [], ch_latency_ms = 0\<rparr>)"

definition worst_status :: "health_status list \<Rightarrow> health_status" where
  "worst_status sts = the (min_by (\<lambda>st. - severity st) sts)"

definition check_health :: "(not_ready \<Rightarrow> ustr) \<Rightarrow> ping \<Rightarrow> rat \<Rightarrow> app_context \<Rightarrow> bool \<Rightarrow> health_report" where
  "check_health why pinged ms ctx jamdict =
     (let components = [(lit ''progress_db'', check_progress_db pinged), (lit ''content_db'', check_content_db why ms ctx),
                        (lit ''jamdict'', check_jamdict jamdict)]
      in \<lparr>hr_status = worst_status (map (ch_status \<circ> snd) components), hr_components = components\<rparr>)"

definition health_response :: "health_report \<Rightarrow> health_report" where
  "health_response report =
     report\<lparr>hr_components := map (\<lambda>(name, c). (name, c\<lparr>ch_latency_ms := round_digits 2 (ch_latency_ms c)\<rparr>)) (hr_components report)\<rparr>"

section \<open>Configuration checks\<close>

record check_result =
  cr_name :: ustr
  cr_ok :: bool
  cr_detail :: ustr

text \<open>The deck's hash if the file is present; what trying to write the data folder raises.\<close>

definition run_config_checks :: "ustr \<Rightarrow> ustr \<Rightarrow> ustr \<Rightarrow> ustr option \<Rightarrow> ustr option \<Rightarrow> bool \<Rightarrow> check_result list" where
  "run_config_checks deck_path data_dir expected found folder_error jamdict =
     [(case found of
         Some _ \<Rightarrow> \<lparr>cr_name = lit ''deck_present'', cr_ok = True, cr_detail = deck_path\<rparr>
       | None \<Rightarrow> \<lparr>cr_name = lit ''deck_present'', cr_ok = False, cr_detail = lit ''missing: '' @ deck_path\<rparr>),
      (case found of
         Some actual \<Rightarrow>
           \<lparr>cr_name = lit ''deck_checksum'', cr_ok = (actual = expected),
            cr_detail = (if actual = expected then lit ''checksum matches''
              else lit ''expected '' @ expected @ lit '', got '' @ actual)\<rparr>
       | None \<Rightarrow> \<lparr>cr_name = lit ''deck_checksum'', cr_ok = False, cr_detail = lit ''deck file missing''\<rparr>),
      (case folder_error of
         None \<Rightarrow> \<lparr>cr_name = lit ''data_dir_writable'', cr_ok = True, cr_detail = data_dir\<rparr>
       | Some e \<Rightarrow> \<lparr>cr_name = lit ''data_dir_writable'', cr_ok = False, cr_detail = data_dir @ lit '': '' @ e\<rparr>),
      \<lparr>cr_name = lit ''jamdict_available'', cr_ok = jamdict,
       cr_detail = (if jamdict then lit ''ready'' else lit ''jamdict database unavailable; builds are disabled'')\<rparr>]"

definition config_check_response :: "check_result list \<Rightarrow> bool \<times> check_result list" where
  "config_check_response results = (list_all cr_ok results, results)"

section \<open>Requests and the server\<close>

text \<open>The running service with the progress store, the file of the gate that was verified and the counter of build ids.\<close>

record ('c, 'q) server = "('c, 'q) services" +
  srv_progress :: progress_db
  srv_verified :: "nat option"

text \<open>What a request finds outside the service.\<close>

record ('r, 'tok) api_env =
  ae_session :: "'r session_env"
  ae_encode :: "review_settings \<Rightarrow> ustr"
  ae_jwt :: "'tok jwt"
  ae_now :: instant
  ae_ids :: fresh_ids
  ae_build_id :: ustr
  ae_write_ok :: bool
  ae_why :: "not_ready \<Rightarrow> ustr"
  ae_ping :: ping
  ae_latency :: rat
  ae_deck_path :: ustr
  ae_data_dir :: ustr
  ae_deck_sha256 :: ustr
  ae_deck_found :: "ustr option"
  ae_folder_error :: "ustr option"

text \<open>The routes behind \<^verbatim>\<open>require_user\<close>, and the others.\<close>

datatype protected_request =
    Config_check | Start_build bool | Latest_build | Get_build ustr | Content_summary
  | Next_review | Answer_review card_key card_grade "instant option" "int option"
  | Get_settings | Update_settings review_settings | Stats_summary

datatype 'tok request = Health | Refresh_tokens 'tok | Logout 'tok | Protected "'tok option" protected_request

datatype 'tok payload =
    Health_body health_report | Tokens_body "'tok token_pair" | Checks_body "bool \<times> check_result list"
  | Build_body build_status_response | Content_body content_summary_response | Next_body next_card_view
  | Counts_body review_counts | Settings_body review_settings | Stats_body stats_summary | Empty_body

text \<open>An answer with its status; a problem carries only its status (and a message where the code gives one).\<close>

datatype 'tok reply = Reply nat "'tok payload" | Problem nat

text \<open>The bounds of \<^verbatim>\<open>AnswerRequest\<close> and of \<^verbatim>\<open>ReviewSettings\<close>; a body outside them is answered 422.\<close>

definition answer_request_ok :: "card_key \<Rightarrow> int option \<Rightarrow> bool" where
  "answer_request_ok k duration \<longleftrightarrow> 1 \<le> length (key_item_id k) \<and> length (key_item_id k) \<le> 255
     \<and> (case duration of None \<Rightarrow> True | Some ms \<Rightarrow> 0 \<le> ms \<and> ms \<le> 3600000)"

fun body_ok :: "protected_request \<Rightarrow> bool" where
  "body_ok (Answer_review k g expected duration) = answer_request_ok k duration"
| "body_ok (Update_settings s) = settings_ok s"
| "body_ok _ = True"

text \<open>\<^verbatim>\<open>_review_error_handler\<close> for the errors it is registered for, \<^verbatim>\<open>_unhandled_error_handler\<close> for the others.\<close>

fun error_status :: "session_error \<Rightarrow> nat" where
  "error_status (SNotReady e) = 503"
| "error_status (SUnknownItem k) = 404"
| "error_status (SStale k) = 409"
| "error_status _ = 500"

definition reply_of :: "('a \<Rightarrow> 'tok payload) \<Rightarrow> session_error + 'a \<Rightarrow> 'tok reply" where
  "reply_of body res = (case res of Inl e \<Rightarrow> Problem (error_status e) | Inr x \<Rightarrow> Reply 200 (body x))"

section \<open>The routes\<close>

definition content_summary :: "app_context \<Rightarrow> content_summary_response" where
  "content_summary ctx =
     (case ctx_repo ctx of
        None \<Rightarrow> not_built
      | Some repo \<Rightarrow>
          (case repo_file repo of
             Unreadable \<Rightarrow> not_built
           | Readable db \<Rightarrow>
               (case counts db of (kanas, kanjis, vocabs) \<Rightarrow>
                  let by_level = repo_counts_by_level db in
                  \<lparr>cs_built = True, cs_kana = kanas, cs_kanji = kanjis, cs_vocab = vocabs, cs_unleveled = ContentRepo.unleveled_kanji by_level,
                   cs_kanji_by_level = kanji_by_level by_level, cs_vocab_by_level = vocab_by_level by_level,
                   cs_meta = meta_rows db\<rparr>)))"

definition build_route :: "build_task option \<Rightarrow> 'tok reply" where
  "build_route found = (case found of None \<Rightarrow> Problem 404 | Some t \<Rightarrow> Reply 200 (Build_body (build_status t)))"

text \<open>One definition per route handler.\<close>

definition config_check_route :: "('r, 'tok) api_env \<Rightarrow> ('c, 'q) server \<Rightarrow> 'tok reply \<times> ('c, 'q) server" where
  "config_check_route env s =
     (Reply 200 (Checks_body (config_check_response
        (run_config_checks (ae_deck_path env) (ae_data_dir env) (ae_deck_sha256 env) (ae_deck_found env) (ae_folder_error env)
          (svc_jamdict s)))), s)"

definition start_build_route :: "('r, 'tok) api_env \<Rightarrow> bool \<Rightarrow> ('c, 'q) server \<Rightarrow> 'tok reply \<times> ('c, 'q) server" where
  "start_build_route env dry_run s =
     (case start_build (ae_build_id env) (ae_now env) dry_run (svc_tasks s) of
        Inl _ \<Rightarrow> (Problem 409, s)
      | Inr (task, m) \<Rightarrow> (Reply 202 (Build_body (build_status task)), s\<lparr>svc_tasks := m\<rparr>))"

definition latest_build_route :: "('r, 'tok) api_env \<Rightarrow> ('c, 'q) server \<Rightarrow> 'tok reply \<times> ('c, 'q) server" where
  "latest_build_route env s =
     (build_route (latest_task (svc_tasks s)), s)"

definition get_build_route :: "('r, 'tok) api_env \<Rightarrow> ustr \<Rightarrow> ('c, 'q) server \<Rightarrow> 'tok reply \<times> ('c, 'q) server" where
  "get_build_route env i s =
     (build_route (get_task i (svc_tasks s)), s)"

definition content_summary_route :: "('r, 'tok) api_env \<Rightarrow> ('c, 'q) server \<Rightarrow> 'tok reply \<times> ('c, 'q) server" where
  "content_summary_route env s =
     (Reply 200 (Content_body (content_summary (svc_ctx s))), s)"

definition next_review_route :: "('r, 'tok) api_env \<Rightarrow> ('c, 'q) server \<Rightarrow> 'tok reply \<times> ('c, 'q) server" where
  "next_review_route env s =
     (case next_card (ae_session env) (ae_now env) (svc_ctx s) (srv_verified s) (srv_progress s) of
        (res, verified) \<Rightarrow> (reply_of Next_body res, s\<lparr>srv_verified := verified\<rparr>))"

definition answer_route :: "('r, 'tok) api_env \<Rightarrow> card_key \<Rightarrow> card_grade \<Rightarrow> instant option \<Rightarrow> int option \<Rightarrow> ('c, 'q) server \<Rightarrow> 'tok reply \<times> ('c, 'q) server" where
  "answer_route env k g expected duration s =
     (case answer (ae_session env) (ae_now env) (svc_ctx s) (srv_verified s) k g expected duration (srv_progress s) of
        (res, verified, db) \<Rightarrow> (reply_of Counts_body res, s\<lparr>srv_verified := verified, srv_progress := db\<rparr>))"

definition get_settings_route :: "('r, 'tok) api_env \<Rightarrow> ('c, 'q) server \<Rightarrow> 'tok reply \<times> ('c, 'q) server" where
  "get_settings_route env s =
     (Reply 200 (Settings_body (stored_settings (env_decode (ae_session env)) (srv_progress s))), s)"

definition update_settings_route :: "('r, 'tok) api_env \<Rightarrow> review_settings \<Rightarrow> ('c, 'q) server \<Rightarrow> 'tok reply \<times> ('c, 'q) server" where
  "update_settings_route env settings s =
     (Reply 200 (Settings_body settings), s\<lparr>srv_progress := save_settings (ae_encode env) settings (srv_progress s)\<rparr>)"

definition stats_route :: "('r, 'tok) api_env \<Rightarrow> ('c, 'q) server \<Rightarrow> 'tok reply \<times> ('c, 'q) server" where
  "stats_route env s =
     (case review_stats (env_tz (ae_session env)) (env_decode (ae_session env)) (ae_now env) (svc_ctx s) (srv_verified s) (srv_progress s) of
        (res, verified) \<Rightarrow> (reply_of Stats_body res, s\<lparr>srv_verified := verified\<rparr>))"

definition health_route :: "('r, 'tok) api_env \<Rightarrow> ('c, 'q) server \<Rightarrow> 'tok reply \<times> ('c, 'q) server" where
  "health_route env s =
     (let report = check_health (ae_why env) (ae_ping env) (ae_latency env) (svc_ctx s) (svc_jamdict s)
      in (Reply (if hr_status report = Health_error then 503 else 200) (Health_body (health_response report)), s))"

definition refresh_route :: "('r, 'tok) api_env \<Rightarrow> 'tok \<Rightarrow> ('c, 'q) server \<Rightarrow> 'tok reply \<times> ('c, 'q) server" where
  "refresh_route env tok s =
     (case refresh_tokens (ae_jwt env) (svc_auth s) (store_is_revoked (svc_store s)) (ae_now env) (ae_ids env) tok of
        Inl _ \<Rightarrow> (Problem 401, s)
      | Inr pair \<Rightarrow> (Reply 200 (Tokens_body pair), s))"

text \<open>A logout whose write fails ends in the fixed 500.\<close>

definition logout_route :: "('r, 'tok) api_env \<Rightarrow> 'tok \<Rightarrow> ('c, 'q) server \<Rightarrow> 'tok reply \<times> ('c, 'q) server" where
  "logout_route env tok s =
     (case logout_session (ae_jwt env) (svc_auth s) (ae_write_ok env) (ae_now env) tok (svc_store s) (svc_sockets s) of
        (res, store, _) \<Rightarrow> (if res = None then Problem 500 else Reply 204 Empty_body, s\<lparr>svc_store := store\<rparr>))"

lemmas route_defs = config_check_route_def start_build_route_def latest_build_route_def get_build_route_def
  content_summary_route_def next_review_route_def answer_route_def get_settings_route_def update_settings_route_def
  stats_route_def health_route_def refresh_route_def logout_route_def

fun handle :: "('r, 'tok) api_env \<Rightarrow> protected_request \<Rightarrow> ('c, 'q) server \<Rightarrow> 'tok reply \<times> ('c, 'q) server" where
  "handle env Config_check s = config_check_route env s"
| "handle env (Start_build dry_run) s = start_build_route env dry_run s"
| "handle env Latest_build s = latest_build_route env s"
| "handle env (Get_build i) s = get_build_route env i s"
| "handle env Content_summary s = content_summary_route env s"
| "handle env Next_review s = next_review_route env s"
| "handle env (Answer_review k g expected duration) s = answer_route env k g expected duration s"
| "handle env Get_settings s = get_settings_route env s"
| "handle env (Update_settings settings) s = update_settings_route env settings s"
| "handle env Stats_summary s = stats_route env s"

text \<open>\<^verbatim>\<open>require_user\<close>; \<open>None\<close> is the 401.\<close>

definition require_user :: "('r, 'tok) api_env \<Rightarrow> ('c, 'q) server \<Rightarrow> 'tok option \<Rightarrow> ustr option" where
  "require_user env s credentials =
     (case credentials of
        None \<Rightarrow> None
      | Some tok \<Rightarrow>
          (case authenticate (ae_jwt env) (svc_auth s) (store_is_revoked (svc_store s)) (ae_now env) tok of
             Inl _ \<Rightarrow> None
           | Inr user \<Rightarrow> Some user))"

fun respond :: "('r, 'tok) api_env \<Rightarrow> 'tok request \<Rightarrow> ('c, 'q) server \<Rightarrow> 'tok reply \<times> ('c, 'q) server" where
  "respond env Health s = health_route env s"
| "respond env (Refresh_tokens tok) s = refresh_route env tok s"
| "respond env (Logout tok) s = logout_route env tok s"
| "respond env (Protected credentials req) s =
     (case require_user env s credentials of
        None \<Rightarrow> (Problem 401, s)
      | Some _ \<Rightarrow> if \<not> body_ok req then (Problem 422, s) else handle env req s)"

end
