(* ===== verification/ApiProperties.thy ===== *)
theory ApiProperties
  imports Api SessionProperties CoreProperties AuthProperties
begin

text \<open>What the HTTP interface promises: who may change what, and what an answer to a card is answered with.\<close>

section \<open>Who may change what\<close>

text \<open>The part of the server that a request of each kind may write.\<close>

definition unchanged_but ::
  "bool \<Rightarrow> bool \<Rightarrow> bool \<Rightarrow> bool \<Rightarrow> ('c, 'q) server \<Rightarrow> ('c, 'q) server \<Rightarrow> bool" where
  "unchanged_but store tasks gate data s s' \<longleftrightarrow>
     s' = s\<lparr>svc_store := (if store then svc_store s' else svc_store s), svc_tasks := (if tasks then svc_tasks s' else svc_tasks s),
            srv_verified := (if gate then srv_verified s' else srv_verified s),
            srv_progress := (if data then srv_progress s' else srv_progress s)\<rparr>"

fun writes_progress :: "protected_request \<Rightarrow> bool" where
  "writes_progress (Answer_review k g expected duration) = True"
| "writes_progress (Update_settings settings) = True"
| "writes_progress _ = False"

lemma handle_writes:
  assumes "handle env req s = (reply, s')"
  shows "unchanged_but False (\<exists>dry. req = Start_build dry) True (writes_progress req) s s'"
  using assms by (cases req) (auto simp: unchanged_but_def route_defs split: prod.splits sum.splits)

lemma error_status_bounds: "error_status e \<noteq> 401" "error_status e \<noteq> 200"
  by (cases e; simp)+

lemma handle_not_401: "handle env req s = (reply, s') \<Longrightarrow> reply \<noteq> Problem 401"
  by (cases req) (auto simp: route_defs reply_of_def build_route_def error_status_bounds split: prod.splits sum.splits option.splits)


text \<open>A server that stores \<open>sample_content\<close>, and requests that carry the claims of a token as the token.\<close>

definition sample_server :: "(nat, nat) server" where
  "sample_server =
     \<lparr>svc_auth = sample_auth 30, svc_store = \<lparr>revoked_rows = [], revoked_memory = []\<rparr>, svc_sockets = [],
      svc_pending = \<lparr>pg_limit = 16, pg_pending = 0\<rparr>, svc_throttle = new_throttle 5 60, svc_tasks = new_manager 10 512,
      svc_ctx = sample_ctx, svc_jamdict = True, svc_content_fault = None, srv_progress = empty_db, srv_verified = None\<rparr>"

definition sample_api :: "(unit, claims \<times> ustr) api_env" where
  "sample_api =
     \<lparr>ae_session = sample_env, ae_encode = (\<lambda>_. []), ae_jwt = plain_jwt, ae_now = T0, ae_ids = sample_ids,
      ae_build_id = lit ''b'', ae_write_ok = True, ae_why = (\<lambda>_. []), ae_ping = Ping_ok 1, ae_latency = 1,
      ae_deck_path = [], ae_data_dir = [], ae_deck_sha256 = [], ae_deck_found = None, ae_folder_error = None\<rparr>"

abbreviation sample_token :: "claims \<times> ustr" where
  "sample_token \<equiv> (fst (pair_claims (sample_auth 30) T0 sample_ids (lit ''user'') None), lit ''secret'')"


section \<open>The answer route\<close>

definition server_ok :: "('c, 'q) server \<Rightarrow> bool" where
  "server_ok s \<longleftrightarrow> db_ok (srv_progress s) \<and> gate_sound (svc_ctx s, srv_verified s)"

lemma gate_of_sound:
  assumes "gate_sound (ctx, v)"
  shows "gate_repository ctx v =
    (case ctx_repo ctx of
       None \<Rightarrow> (Inl NotBuilt, v)
     | Some repo \<Rightarrow> (case verify_file (repo_file repo) of Some e \<Rightarrow> (Inl e, v) | None \<Rightarrow> (Inr repo, Some (repo_handle repo))))"
  using assms by (auto simp: gate_repository_def gate_sound_def split: option.splits)

lemma gate_stays_sound: "gate_sound (ctx, v) \<Longrightarrow> gate_repository ctx v = (r, v') \<Longrightarrow> gate_sound (ctx, v')"
  using gate_sound_step [of "(ctx, v)" Request] by simp

text \<open>The content the gate lets through.\<close>

definition usable_content :: "app_context \<Rightarrow> content_db option" where
  "usable_content ctx =
     (case ctx_repo ctx of
        Some repo \<Rightarrow> (case repo_file repo of Readable cdb \<Rightarrow> if schema_verified cdb then Some cdb else None | Unreadable \<Rightarrow> None)
      | None \<Rightarrow> None)"

lemma gate_usable:
  assumes "gate_sound (ctx, v)"
  shows "case usable_content ctx of
      None \<Rightarrow> \<exists>e. gate_repository ctx v = (Inl e, v)
    | Some cdb \<Rightarrow> \<exists>repo. gate_repository ctx v = (Inr repo, Some (repo_handle repo)) \<and> repo_db repo = Inr cdb"
  using gate_of_sound [OF assms]
  by (auto simp: usable_content_def repo_db_def split: option.splits content_file.splits)

lemma answer_route_spec:
  assumes ok: "server_ok s" and sess: "ae_session env = app_env rc z rnk below rng decode" and doc: "fsrs_documented rc"
    and fit: "times_fit (ae_session env) (ae_now env)"
  shows "\<exists>reply s'. answer_route env k g expected duration s = (reply, s') \<and> server_ok s'
    \<and> (case usable_content (svc_ctx s) of
         None \<Rightarrow> reply = Problem 503 \<and> srv_progress s' = srv_progress s
       | Some cdb \<Rightarrow>
           if load_item cdb k = None then reply = Problem 404 \<and> srv_progress s' = srv_progress s
           else if last_review_of (srv_progress s) k \<noteq> expected then reply = Problem 409 \<and> srv_progress s' = srv_progress s
           else (\<exists>cnts. reply = Reply 200 (Counts_body cnts)) \<and> last_review_of (srv_progress s') k = Some (ae_now env)
             \<and> (\<exists>l. log_rows (srv_progress s') = log_rows (srv_progress s) @ [l])
             \<and> (\<forall>j. j \<noteq> k \<longrightarrow> card_of (srv_progress s') j = card_of (srv_progress s) j))"
proof -
  let ?env = "ae_session env" and ?db = "srv_progress s" and ?now = "ae_now env"
  have db: "db_ok ?db" and gate: "gate_sound (svc_ctx s, srv_verified s)" using ok by (auto simp: server_ok_def)
  show ?thesis
  proof (cases "usable_content (svc_ctx s)")
    case None
    then obtain e where "gate_repository (svc_ctx s) (srv_verified s) = (Inl e, srv_verified s)" using gate_usable [OF gate] by auto
    then show ?thesis using None ok by (simp add: answer_route_def answer_def reply_of_def server_ok_def)
  next
    case (Some cdb)
    then obtain repo where repo: "gate_repository (svc_ctx s) (srv_verified s) = (Inr repo, Some (repo_handle repo))" "repo_db repo = Inr cdb"
      using gate_usable [OF gate] by auto
    have sound: "gate_sound (svc_ctx s, Some (repo_handle repo))" by (rule gate_stays_sound [OF gate repo(1)])
    note ans = answer_eq [OF repo]
    note wr = app.write_answer_eq [OF db, of rc z rnk below rng decode ?now cdb k g expected duration, folded sess]
    show ?thesis
    proof (cases "load_item cdb k \<noteq> None \<and> last_review_of ?db k = expected")
      case False
      then have "write_answer ?env ?now cdb k g expected duration ?db = Inl (if load_item cdb k = None then SUnknownItem k else SStale k)"
        using wr by auto
      then show ?thesis using Some ok False sound
        by (auto simp: answer_route_def ans answer_in_def reply_of_def server_ok_def)
    next
      case item: True
      have "\<exists>db'. write_answer ?env ?now cdb k g (last_review_of ?db k) duration ?db = Inr db'"
        unfolding sess by (rule app.write_answer_succeeds [OF db doc]) (use item in simp)
      then obtain db' where w: "write_answer ?env ?now cdb k g expected duration ?db = Inr db'" using item by auto
      note w' = w [unfolded sess] and fit' = fit [unfolded sess]
      note pres = app.write_answer_preserves [OF db doc fit' w']
      obtain p where "make_plan ?env ?now cdb (stored_settings (env_decode ?env) ?db) db' = Inr p" using plan_total [OF pres(1)] by blast
      then have "answer_in ?env ?now cdb k g expected duration ?db = (Inr (plan_counts p), db')" using w by (simp add: answer_in_def)
      moreover have "\<exists>l. log_rows db' = log_rows ?db @ [l]"
        using app.write_answerE [OF db doc fit' w'] record_review_log by metis
      ultimately show ?thesis using Some item pres sound
        by (simp add: answer_route_def ans reply_of_def server_ok_def)
    qed
  qed
qed


lemma sample_user: "require_user sample_api sample_server (Some sample_token) \<noteq> None"
  by (simp add: require_user_def sample_api_def sample_server_def authenticate_def decode_token_def plain_jwt_def store_is_revoked_def
      sample_simps)

lemma sample_server_ok: "server_ok sample_server"
  by (simp add: server_ok_def sample_server_def db_ok_empty gate_sound_def sample_ctx_def)


end
