(* ===== verification/Service.thy ===== *)
theory Service
  imports ApiProperties
begin

text \<open>
  The whole service over time, as a state machine: it starts on the data of the last run, answers requests,
  finds new content after a build, and its builds and its throttle go on by themselves.
\<close>

section \<open>States and steps\<close>

text \<open>The server over the data of the progress store, before its gate has verified anything.\<close>

definition server_of :: "('c, 'q) services \<Rightarrow> progress_db \<Rightarrow> ('c, 'q) server" where
  "server_of svc db =
     \<lparr>svc_auth = svc_auth svc, svc_store = svc_store svc, svc_sockets = svc_sockets svc, svc_pending = svc_pending svc,
      svc_throttle = svc_throttle svc, svc_tasks = svc_tasks svc, svc_ctx = svc_ctx svc, svc_jamdict = svc_jamdict svc,
      svc_content_fault = svc_content_fault svc, srv_progress = db, srv_verified = None\<rparr>"

text \<open>An environment in which the program runs: its own scheduler and policies, times within the range of the timestamps.\<close>

definition runs_in :: "review_fun \<Rightarrow> ('r, 'tok) api_env \<Rightarrow> bool" where
  "runs_in rc env \<longleftrightarrow> (\<exists>z rnk below rng decode. ae_session env = app_env rc z rnk below rng decode)
     \<and> times_fit (ae_session env) (ae_now env)"

text \<open>The database file holds the review data and the table of ended sessions; a start leaves the review data as it was.\<close>

type_synonym progress_file = "progress_db \<times> (ustr \<times> ustr) list"

inductive service_step ::
  "review_fun \<Rightarrow> ('r, 'tok) api_env \<Rightarrow> ('c, 'q) server \<Rightarrow> ('c, 'q) server \<Rightarrow> bool" for rc where
  request: "runs_in rc env \<Longrightarrow> respond env req s = (reply, s') \<Longrightarrow> service_step rc env s s'"
| content: "service_step rc env s (s\<lparr>svc_ctx := refresh_content_repo found (svc_ctx s)\<rparr>)"
| builds: "service_step rc env s (s\<lparr>svc_tasks := m\<rparr>)"
| throttled: "service_step rc env s (s\<lparr>svc_throttle := th\<rparr>)"
| streams: "service_step rc env s (s\<lparr>svc_sockets := reg, svc_pending := pg\<rparr>)"
| restart: "build_services cfg (senv :: progress_file start_env) folder = Some (Inr svc, res, folder') \<Longrightarrow>
    df_progress folder' = Some (srv_progress s, rows) \<Longrightarrow>
    service_step rc env s (server_of (svc :: ('c, 'q) services) (srv_progress s))"

inductive service_reach :: "review_fun \<Rightarrow> ('r, 'tok) api_env itself \<Rightarrow> ('c, 'q) server \<Rightarrow> bool" for rc T where
  first: "build_services cfg (senv :: progress_file start_env) folder = Some (Inr svc, res, folder') \<Longrightarrow>
    df_progress folder' = Some (empty_db, rows) \<Longrightarrow>
    service_reach rc T (server_of (svc :: ('c, 'q) services) empty_db)"
| next_step: "service_reach rc T s \<Longrightarrow> service_step rc (env :: ('r, 'tok) api_env) s s' \<Longrightarrow> service_reach rc T s'"

section \<open>Every route keeps the server consistent\<close>

lemma opened_ctx: "open_services cfg senv folder = (Inr svc, res, folder') \<Longrightarrow> svc_ctx svc = create_context (se_content senv)"
  unfolding open_services_def Let_def by (auto split: option.splits if_splits)

lemma started_ctx:
  assumes "build_services cfg senv folder = Some (Inr svc, res, folder')"
  shows "svc_ctx svc = create_context (se_content senv)"
proof (cases "se_lock senv")
  case Lock_taken
  obtain m f where run: "run_migrations (se_migration senv) folder = Some (m, f)"
    using assms Lock_taken by (auto simp: build_services_def Let_def)
  show ?thesis
  proof (cases m)
    case (Inr r)
    then show ?thesis using assms Lock_taken run
      by (auto simp: build_services_def Let_def opened_ctx split: sum.splits prod.splits)
  qed (use assms Lock_taken run in \<open>simp add: build_services_def Let_def\<close>)
qed (use assms in \<open>simp_all add: build_services_def Let_def\<close>)

lemma server_of_ok: "build_services cfg senv folder = Some (Inr svc, res, folder') \<Longrightarrow> db_ok db \<Longrightarrow> server_ok (server_of svc db)"
  using started_ctx [of cfg senv folder svc res folder']
  by (auto simp: server_ok_def server_of_def gate_sound_def create_context_def refresh_content_repo_def split: option.splits)

lemma runs_inE:
  assumes "runs_in rc env"
  obtains z rnk below rng decode where "ae_session env = app_env rc z rnk below rng decode" "times_fit (ae_session env) (ae_now env)"
  using assms unfolding runs_in_def by blast

text \<open>The routes of the review data, one by one: the reply is no 500, and a 503 only while no usable content is there.\<close>

definition sound_reply :: "('c, 'q) server \<Rightarrow> 'tok reply \<Rightarrow> ('c, 'q) server \<Rightarrow> bool" where
  "sound_reply s reply s' \<longleftrightarrow> server_ok s' \<and> reply \<noteq> Problem 500 \<and> (reply = Problem 503 \<longrightarrow> usable_content (svc_ctx s) = None)"

lemma answer_sound:
  assumes ok: "server_ok s" and env: "runs_in rc env" and doc: "fsrs_documented rc"
    and r: "answer_route env k g expected duration s = (reply, s')"
  shows "sound_reply s reply s'"
proof -
  obtain z rnk below rng decode where sess: "ae_session env = app_env rc z rnk below rng decode" and fit: "times_fit (ae_session env) (ae_now env)"
    using env by (rule runs_inE)
  from answer_route_spec [OF ok sess doc fit, of k g expected duration] r
  show ?thesis by (auto simp: sound_reply_def split: option.splits if_splits)
qed

lemma next_answered:
  assumes ok: "server_ok s" and env: "runs_in rc env" and content: "usable_content (svc_ctx s) = Some cdb"
  shows "\<exists>n s'. next_review_route env s = (Reply 200 (Next_body n), s') \<and> server_ok s'"
proof -
  obtain z rnk below rng decode where sess: "ae_session env = app_env rc z rnk below rng decode" using env by (rule runs_inE)
  have db: "db_ok (srv_progress s)" and gate: "gate_sound (svc_ctx s, srv_verified s)" using ok by (auto simp: server_ok_def)
  obtain repo where repo: "gate_repository (svc_ctx s) (srv_verified s) = (Inr repo, Some (repo_handle repo))" "repo_db repo = Inr cdb"
    using gate_usable [OF gate] content by auto
  obtain due where due: "due_cards (srv_progress s) (ae_now env) ORPHAN_SCAN = Inr due" using due_cards_eq [OF db] by blast
  obtain p where plan: "make_plan (ae_session env) (ae_now env) cdb (stored_settings (env_decode (ae_session env)) (srv_progress s)) (srv_progress s) = Inr p"
    using plan_total [OF db] by blast
  then obtain n where "next_card_in (ae_session env) (ae_now env) cdb (srv_progress s) = Inr n"
    using app.next_card_spec [OF db due plan [unfolded sess]] unfolding sess by auto
  then show ?thesis using ok repo gate_stays_sound [OF gate repo(1)]
    by (auto simp: next_review_route_def next_card_def reply_of_def server_ok_def)
qed

lemma next_sound:
  assumes ok: "server_ok s" and env: "runs_in rc env" and r: "next_review_route env s = (reply, s')"
  shows "sound_reply s reply s'"
proof (cases "usable_content (svc_ctx s)")
  case None
  have "gate_sound (svc_ctx s, srv_verified s)" using ok by (simp add: server_ok_def)
  then obtain e where "gate_repository (svc_ctx s) (srv_verified s) = (Inl e, srv_verified s)" using gate_usable None by fastforce
  then show ?thesis using r ok None by (auto simp: next_review_route_def next_card_def reply_of_def sound_reply_def server_ok_def)
next
  case (Some cdb)
  then show ?thesis using next_answered [OF ok env Some] r by (auto simp: sound_reply_def)
qed

lemma stats_total:
  assumes "db_ok db" and "settings_ok s"
  shows "\<exists>st. stats_in z now s cdb db = Inr st"
proof -
  have hour: "0 \<le> rollover_hour s" "rollover_hour s \<le> 23" using settings_okD [OF assms(2)] by auto
  note window = study_day_window_eq [OF hour]
  have date: "\<exists>d. study_date (Aware t) (rollover_hour s) z = Inr d" for t by (simp add: study_date_def window)
  have tally: "\<exists>t. tally_reviews (rollover_hour s) z acc xs = Inr t" for acc xs
  proof (induction xs arbitrary: acc)
    case (Cons x xs)
    obtain d where "study_date (Aware (rec_reviewed_at x)) (rollover_hour s) z = Inr d" using date by blast
    then show ?case using Cons.IH by simp
  qed simp
  have "\<exists>rs. reviews_between db a b = Inr rs" for a b
  proof -
    let ?rows = "sort_key (\<lambda>l. (log_reviewed_at l, log_id l)) (filter (in_span a b) (log_rows db))"
    have "\<forall>l \<in> set ?rows. record_of_row l = Some (the_record l)"
      using assms(1) log_ok_record(1) by (auto simp: db_ok_def)
    then have "those (map record_of_row ?rows) = Some (map the_record ?rows)" by (intro those_map_Some) auto
    then show ?thesis by (simp add: reviews_between_def decoded_def)
  qed
  then obtain rs where rs: "reviews_between db (day_start (rollover_hour s) z (study_index (rollover_hour s) z now) - (int RETENTION_DAYS + 1) * DAY)
      (day_start (rollover_hour s) z (study_index (rollover_hour s) z now + 1)) = Inr rs" by blast
  obtain today where today: "study_date (Aware now) (rollover_hour s) z = Inr today" using date by blast
  obtain t where t: "tally_reviews (rollover_hour s) z \<lparr>tally_daily = first_days today, tally_answered = 0, tally_passed = 0\<rparr> rs = Inr t"
    using tally by blast
  obtain m where m: "new_cards_introduced db (day_start (rollover_hour s) z (study_index (rollover_hour s) z now))
      (day_start (rollover_hour s) z (study_index (rollover_hour s) z now + 1)) = Inr m"
    using new_cards_introduced_eq [OF assms(1)] by blast
  obtain sts where "card_states db = Inr sts" using card_states_eq [OF assms(1)] by blast
  then show ?thesis using rs today t m by (simp add: stats_in_def Let_def window)
qed

lemma stats_sound:
  assumes ok: "server_ok s" and r: "stats_route env s = (reply, s')"
  shows "sound_reply s reply s'"
proof -
  have db: "db_ok (srv_progress s)" and gate: "gate_sound (svc_ctx s, srv_verified s)" using ok by (auto simp: server_ok_def)
  show ?thesis
  proof (cases "usable_content (svc_ctx s)")
    case None
    then obtain e where "gate_repository (svc_ctx s) (srv_verified s) = (Inl e, srv_verified s)" using gate_usable [OF gate] by auto
    then show ?thesis using r ok None by (auto simp: stats_route_def review_stats_def reply_of_def sound_reply_def server_ok_def)
  next
    case (Some cdb)
    then obtain repo where repo: "gate_repository (svc_ctx s) (srv_verified s) = (Inr repo, Some (repo_handle repo))" "repo_db repo = Inr cdb"
      using gate_usable [OF gate] by auto
    obtain st where "stats_in (env_tz (ae_session env)) (ae_now env) (stored_settings (env_decode (ae_session env)) (srv_progress s)) cdb (srv_progress s) = Inr st"
      using stats_total [OF db settings_always_ok] by blast
    then show ?thesis using r ok repo gate_stays_sound [OF gate repo(1)]
      by (auto simp: stats_route_def review_stats_def reply_of_def sound_reply_def server_ok_def)
  qed
qed

lemma other_routes_sound:
  assumes "server_ok s" and "handle env req s = (reply, s')" and "\<not> (\<exists>k g expected duration. req = Answer_review k g expected duration)"
    and "req \<noteq> Next_review" and "req \<noteq> Stats_summary"
  shows "sound_reply s reply s'"
  using assms by (cases req) (auto simp: route_defs build_route_def sound_reply_def server_ok_def save_settings_def split: sum.splits prod.splits option.splits)

lemma handle_sound:
  assumes "server_ok s" and "runs_in rc env" and "fsrs_documented rc" and "handle env req s = (reply, s')"
  shows "sound_reply s reply s'"
proof (cases req)
  case (Answer_review k g expected duration)
  then show ?thesis using assms answer_sound by simp
next
  case Next_review
  then show ?thesis using assms next_sound by simp
next
  case Stats_summary
  then show ?thesis using assms stats_sound by simp
qed (use assms other_routes_sound in \<open>blast\<close>)+

lemma respond_ok:
  assumes "server_ok s" and "runs_in rc env" and "fsrs_documented rc" and "respond env req s = (reply, s')"
  shows "server_ok s'"
proof (cases req)
  case (Protected credentials r)
  then show ?thesis using assms handle_sound [of s rc env r reply s'] by (auto simp: sound_reply_def split: option.splits if_splits)
qed (use assms in \<open>auto simp: route_defs server_ok_def Let_def split: sum.splits prod.splits\<close>)

lemma service_step_ok:
  assumes "service_step rc env s s'" and "server_ok s" and "fsrs_documented rc"
  shows "server_ok s'"
  using assms
proof (cases rule: service_step.cases)
  case (request req reply)
  then show ?thesis using assms respond_ok by blast
next
  case (content found)
  then show ?thesis using assms gate_sound_step [of "(svc_ctx s, srv_verified s)" "Refresh found"] by (simp add: server_ok_def)
next
  case (restart cfg senv folder svc res folder' rows)
  then show ?thesis using server_of_ok [OF restart(2)] assms(2) by (simp add: server_ok_def)
qed (simp_all add: server_ok_def)

lemma service_reach_ok: "service_reach rc T s \<Longrightarrow> fsrs_documented rc \<Longrightarrow> server_ok s"
proof (induction rule: service_reach.induct)
  case (first cfg senv folder svc res folder' rows)
  then show ?case using server_of_ok db_ok_empty by blast
next
  case (next_step s env s')
  then show ?case using service_step_ok by blast
qed


text \<open>A first start on an empty folder, and a request for the next card before any content was built.\<close>

definition first_start_env :: "progress_file start_env" where
  "first_start_env =
     \<lparr>se_lock = Lock_taken,
      se_migration =
        \<lparr>me_head = Some (lit ''2''), me_folder = True, me_lock = True, me_revision = (\<lambda>db. Some None), me_writable = True,
         me_backup_folder = True, me_copy = (\<lambda>db. (db, True)), me_upgrade = (\<lambda>_. (Some (empty_db, []), None)), me_now = 0\<rparr>,
      se_content_name = lit ''content.db'', se_unlink = (\<lambda>_. True), se_ping = True, se_rows = snd,
      se_set_rows = (\<lambda>rows db. (fst db, rows)), se_now = 0, se_context = True, se_jamdict = True, se_content = None, se_dispose = True\<rparr>"

definition first_services :: "(nat, nat) services" where
  "first_services =
     \<lparr>svc_auth = sample_auth 30, svc_store = \<lparr>revoked_rows = [], revoked_memory = []\<rparr>, svc_sockets = [],
      svc_pending = \<lparr>pg_limit = MAX_PENDING_AUTH, pg_pending = 0\<rparr>, svc_throttle = new_throttle 5 60, svc_tasks = new_manager 10 512,
      svc_ctx = create_context None, svc_jamdict = True, svc_content_fault = None\<rparr>"

lemma first_services_start:
  "build_services (sample_auth 30) first_start_env \<lparr>df_progress = None, df_backups = [], df_names = []\<rparr>
     = Some (Inr first_services, \<lparr>res_lock = True, res_engine = True\<rparr>, \<lparr>df_progress = Some (empty_db, []), df_backups = [], df_names = []\<rparr>)"
  by (simp add: build_services_def open_services_def first_start_env_def run_migrations_def upgrade_def Let_def store_load_def
      live_rows_def pending_gate_starts first_services_def create_context_def refresh_content_repo_def check_content_schema_def)

lemma sample_runs: "runs_in sample_review sample_api"
  using sample_fit(1) by (auto simp: runs_in_def sample_api_def sample_env_def)


end
