(* ===== verification/BuildRun.thy ===== *)
theory BuildRun
  imports Service BuildProperties
begin

text \<open>
  A content build inside the running service: the dictionary the context opened (\<^verbatim>\<open>create_context\<close>), the
  orchestrator made from it (\<^verbatim>\<open>create_content_build_orchestrator\<close>), the worker of
  \<^verbatim>\<open>BuildTaskManager._run\<close> with its progress callbacks, and the new content taken into use.
\<close>

section \<open>The dictionary and the orchestrator\<close>

text \<open>
  What opening the dictionary meets: the file of an explicit path, an \<^verbatim>\<open>OSError\<close> or SQLite error, what the
  library reports, its lookups, and the path and the graded characters of its database.
\<close>

record dictionary_env =
  de_path_ok :: bool
  de_fault :: bool
  de_available :: bool
  de_has_kd2 :: bool
  de_lookup :: "ustr \<Rightarrow> lookup"
  de_has_path :: bool
  de_grades :: "(ustr \<times> int) list option"

text \<open>\<^verbatim>\<open>kanji_source\<close> and \<^verbatim>\<open>kanji_catalog\<close> of the context are the same service, or both \<^verbatim>\<open>None\<close>.\<close>

type_synonym dictionary = "kanji_source \<times> (jamdict_error + ustr list)"

definition init_dictionary :: "dictionary_env \<Rightarrow> dictionary option" where
  "init_dictionary e =
     (if de_fault e then None
      else (case open_jamdict False (de_path_ok e) (de_available e) (de_has_kd2 e) (de_lookup e) of
              Some _ \<Rightarrow> None
            | None \<Rightarrow> Some (get_kanji (de_lookup e), graded_kanji (de_has_path e) (de_grades e))))"

record orchestrator =
  orc_sha256 :: ustr
  orc_source :: kanji_source
  orc_catalog :: "(jamdict_error + ustr list) option"

text \<open>\<open>Inl\<close> is the \<^verbatim>\<open>ContentBuildError\<close>.\<close>

definition create_content_build_orchestrator :: "ustr \<Rightarrow> dictionary option \<Rightarrow> unit + orchestrator" where
  "create_content_build_orchestrator sha256 dict =
     (case dict of
        None \<Rightarrow> Inl ()
      | Some (src, cat) \<Rightarrow> Inr \<lparr>orc_sha256 = sha256, orc_source = src, orc_catalog = Some cat\<rparr>)"

section \<open>The worker\<close>

datatype run_error = NoDictionary | BuildError build_error

text \<open>What a run meets: the pinned digest, the dictionary, the deck, the writer, names and clocks, an error of taking the
  new content into use, and the text of an error (its class and message).\<close>

record build_world =
  bw_sha256 :: ustr
  bw_dictionary :: "dictionary option"
  bw_deck :: "deck_file option"
  bw_write :: write_env
  bw_target :: ustr
  bw_deck_name :: ustr
  bw_built_at :: ustr
  bw_duration :: rat
  bw_finished_at :: int
  bw_refresh_error :: "ustr option"
  bw_text :: "run_error \<Rightarrow> ustr"

text \<open>The notifications that the callback passes on to the event loop.\<close>

fun passed_on :: "ustr option \<Rightarrow> build_progress list \<Rightarrow> build_progress list" where
  "passed_on last_stage [] = []"
| "passed_on last_stage (p # ps) =
     (case callback_step last_stage p of
        (last_stage, pass) \<Rightarrow> (if pass then p # passed_on last_stage ps else passed_on last_stage ps))"

text \<open>The worker thread: the result, its notifications and the files it leaves.\<close>

definition run_worker ::
  "build_world \<Rightarrow> bool \<Rightarrow> content_files \<Rightarrow> (run_error + build_report) \<times> build_progress list \<times> content_files" where
  "run_worker w dry fs =
     (case create_content_build_orchestrator (bw_sha256 w) (bw_dictionary w) of
        Inl _ \<Rightarrow> (Inl NoDictionary, [], fs)
      | Inr orc \<Rightarrow>
          (case build_content (import_vocab (orc_sha256 orc) (bw_deck w)) (orc_source orc) (orc_catalog orc) (bw_write w)
                  (bw_target w) (bw_deck_name w) (bw_built_at w) (bw_duration w) dry fs of
             (res, ps, fs) \<Rightarrow> (map_sum BuildError id res, ps, fs)))"

definition content_found :: "content_files \<Rightarrow> content_file option" where
  "content_found fs = map_option Readable (target_db fs)"

text \<open>\<^verbatim>\<open>_run\<close> of the task \<open>t\<close> to its end, when it is not cancelled.\<close>

definition run_build :: "build_world \<Rightarrow> build_task \<Rightarrow> ('c, 'q) server \<Rightarrow> content_files \<Rightarrow> ('c, 'q) server \<times> content_files" where
  "run_build w t s fs =
     (case run_worker w (bt_dry_run t) fs of
        (res, ps, fs) \<Rightarrow>
          let s = s\<lparr>svc_tasks := fold (on_progress (bt_id t)) (passed_on None ps) (svc_tasks s)\<rparr>;
              done = (\<lambda>e. s\<lparr>svc_tasks := finish_build (bt_id t) (bw_finished_at w) e (svc_tasks s)\<rparr>) in
          (case res of
             Inl e \<Rightarrow> (done (Raised (bw_text w e)), fs)
           | Inr rep \<Rightarrow>
               if bt_dry_run t then (done (Built rep), fs)
               else (case bw_refresh_error w of
                       Some e \<Rightarrow> (done (RefreshFailed rep e), fs)
                     | None \<Rightarrow> ((done (Built rep))\<lparr>svc_ctx := refresh_content_repo (content_found fs) (svc_ctx s)\<rparr>, fs))))"

text \<open>The task a request started, to its end.\<close>

definition build_to_end ::
  "build_world \<Rightarrow> ('r, 'tok) api_env \<Rightarrow> bool \<Rightarrow> ('c, 'q) server \<Rightarrow> content_files
     \<Rightarrow> 'tok reply \<times> ('c, 'q) server \<times> content_files" where
  "build_to_end w env dry s fs =
     (case handle env (Start_build dry) s of
        (reply, s) \<Rightarrow>
          (case (reply, get_task (ae_build_id env) (svc_tasks s)) of
             (Reply _ _, Some t) \<Rightarrow> (reply, run_build w t s fs)
           | _ \<Rightarrow> (reply, s, fs)))"

section \<open>A run from its start to its end\<close>

lemma progress_keeps:
  assumes "tasks_inv m" and "get_task i m = Some t" and "bt_state t = RUNNING"
  shows "tasks_inv (fold (on_progress i) ps m) \<and> bm_active (fold (on_progress i) ps m) = bm_active m
    \<and> (\<exists>p. get_task i (fold (on_progress i) ps m) = Some (t\<lparr>bt_progress := p\<rparr>))"
  using assms
proof (induction ps arbitrary: m t)
  case Nil
  then show ?case by (metis build_task.surjective build_task.update_convs(6) fold_simps(1))
next
  case (Cons p ps)
  let ?m = "on_progress i p m"
  have "tasks_inv ?m"
  proof (rule tasks_inv_update [OF Cons.prems(1), where f = "\<lambda>t. t\<lparr>bt_progress := Some p\<rparr>" and i = i and act = "bm_active m"])
    show "\<forall>x \<in> set (bm_tasks m). task_ok (bm_active m) (fst x, if fst x = i then (snd x)\<lparr>bt_progress := Some p\<rparr> else snd x)"
      using Cons.prems(1) by (fastforce simp: tasks_inv_def)
  qed (use Cons.prems in \<open>simp_all add: on_progress_def\<close>)
  moreover have "get_task i ?m = Some (t\<lparr>bt_progress := Some p\<rparr>)" "bm_active ?m = bm_active m"
    using Cons.prems get_task_update [of i i "\<lambda>t. t\<lparr>bt_progress := Some p\<rparr>" m] by (simp_all add: on_progress_def get_task_def)
  ultimately show ?case using Cons.IH [of ?m "t\<lparr>bt_progress := Some p\<rparr>"] Cons.prems(3) by simp
qed

lemma build_leveled_total: "\<forall>ch. \<exists>d. src ch = Inr d \<Longrightarrow> \<exists>r. build_leveled src ls built m = Inr r"
proof (induction src ls built m rule: build_leveled.induct)
  case (2 src ch l rest built m)
  from 2(3) obtain d where "src ch = Inr d" by blast
  then show ?case using 2 by (cases d) (auto simp: and_then_def)
qed simp

lemma build_unleveled_total: "\<forall>ch. \<exists>d. src ch = Inr d \<Longrightarrow> \<exists>r. build_unleveled src cs built u = Inr r"
proof (induction src cs built u rule: build_unleveled.induct)
  case (2 src ch rest built u)
  from 2(3) obtain d where "src ch = Inr d" by blast
  then show ?case using 2 by (cases d) (auto simp: and_then_def)
qed simp

lemma build_kanji_total:
  assumes "\<forall>ch. \<exists>d. src ch = Inr d"
  shows "\<exists>kb ns. build_kanji src (Some (Inr cs)) lv = Inr (kb, ns)"
proof -
  let ?cs = "sort (remdups (filter (\<lambda>c. c \<notin> set (map fst lv)) cs))"
  obtain built m where "build_leveled src (sort_key (\<lambda>(ch, l). (- level_value l, ch)) lv) [] 0 = Inr (built, m)"
    using build_leveled_total [OF assms] by (metis surj_pair)
  moreover obtain all u where "build_unleveled src ?cs built 0 = Inr (all, u)"
    using build_unleveled_total [OF assms] by (metis surj_pair)
  ultimately show ?thesis by (simp add: build_kanji_def Let_def unleveled_candidates_def and_then_def raise_as_def)
qed

text \<open>When the dictionary answers and the writer works, the build of an imported deck succeeds.\<close>

lemma build_content_total:
  assumes "\<forall>ch. \<exists>d. src ch = Inr d" and deck: "import_vocab sha file = Inr deck"
    and "we_mkdir_ok env \<and> we_sql_ok env \<and> retries_succeed (we_outcomes env)"
  shows "\<exists>rep ns fs'. build_content (Inr deck) src (Some (Inr cs)) env target name tim dur dry fs = (Inr rep, ns, fs')"
proof -
  obtain kb ns where kb: "build_kanji src (Some (Inr cs)) (derive_kanji_levels (deck_vocab deck)) = Inr (kb, ns)"
    using build_kanji_total [OF assms(1)] by blast
  have "distinct (map kanji_item_id (kb_kanji kb))" using build_kanji_covers [OF kb derive_kanji_levels_distinct] by blast
  from write_content_ok(1) [OF build_meta_distinct distinct_all_kana_ids this imported_ids [OF deck]]
  obtain u fs' where "write_content (we_mkdir_ok env) (we_sql_ok env) (we_outcomes env) all_kana (kb_kanji kb) (deck_vocab deck)
      (build_meta tim name deck kb) fs = (Inr u, fs')" using assms(3) by blast
  then show ?thesis by (cases dry) (simp_all add: build_content_def Let_def kb)
qed

lemma build_content_success:
  assumes "build_content (Inr deck) src cat env target name tim dur False fs = (Inr rep, ns, fs')"
  obtains db where "target_db fs' = Some db" "schema_verified db" "length (kana_rows db) = rep_kana_count rep"
    "length (kanji_rows db) = rep_kanji_count rep" "length (vocab_rows db) = rep_vocab_count rep"
    "map (snd \<circ> snd) (vocab_rows db) = deck_vocab deck"
proof -
  from assms obtain kb p where w: "write_content (we_mkdir_ok env) (we_sql_ok env) (we_outcomes env) all_kana (kb_kanji kb) (deck_vocab deck)
       (build_meta tim name deck kb) fs = (Inr (), fs')" and rep: "rep = build_summary False target deck kb dur"
    by (rule build_content_Inr)
  from write_content_Inr [OF w] show thesis
    by (intro that) (auto simp: rep build_summary_def schema_verified_def build_meta_def comp_def)
qed

lemma build_content_dry: "build_content deck src cat env target name tim dur True fs = (r, ns, fs') \<Longrightarrow> fs' = fs"
  by (auto simp: build_content_def Let_def split: sum.splits prod.splits)

lemma write_content_failed: "write_content mk sq oc kanas kanjis vocabs meta fs = (Inl e, fs') \<Longrightarrow> target_db fs' = target_db fs"
  by (auto simp: write_content_def Let_def split: if_splits sum.splits)

lemma build_content_failed: "build_content deck src cat env target name tim dur dry fs = (Inl e, ns, fs') \<Longrightarrow> target_db fs' = target_db fs"
  by (auto simp: build_content_def Let_def dest!: write_content_failed split: sum.splits prod.splits if_splits)

text \<open>What a worker leaves: on an error and in a dry run the database it found, otherwise one of this program's schema.\<close>

lemma run_worker_files:
  assumes "run_worker w dry fs = (res, ps, fs')"
  shows "case res of
      Inl e \<Rightarrow> target_db fs' = target_db fs
    | Inr rep \<Rightarrow> (if dry then fs' = fs
        else \<exists>db. target_db fs' = Some db \<and> schema_verified db \<and> length (kana_rows db) = rep_kana_count rep
          \<and> length (kanji_rows db) = rep_kanji_count rep \<and> length (vocab_rows db) = rep_vocab_count rep
          \<and> (\<forall>deck. import_vocab (bw_sha256 w) (bw_deck w) = Inr deck \<longrightarrow> map (snd \<circ> snd) (vocab_rows db) = deck_vocab deck))"
proof (cases "create_content_build_orchestrator (bw_sha256 w) (bw_dictionary w)")
  case (Inl u)
  then show ?thesis using assms by (auto simp: run_worker_def)
next
  case (Inr orc)
  then have sha: "orc_sha256 orc = bw_sha256 w"
    by (auto simp: create_content_build_orchestrator_def split: option.splits prod.splits)
  let ?deck = "import_vocab (orc_sha256 orc) (bw_deck w)"
  obtain r ns f where b: "build_content ?deck (orc_source orc) (orc_catalog orc) (bw_write w) (bw_target w) (bw_deck_name w)
      (bw_built_at w) (bw_duration w) dry fs = (r, ns, f)" by (metis prod_cases3)
  then have res: "res = map_sum BuildError id r" "fs' = f" using assms Inr by (auto simp: run_worker_def)
  show ?thesis
  proof (cases r)
    case (Inl e)
    then show ?thesis using build_content_failed b res by auto
  next
    case (Inr rep)
    then obtain deck where deck: "?deck = Inr deck" using b by (cases ?deck) (auto simp: build_content_def Let_def)
    show ?thesis
    proof (cases dry)
      case True
      then show ?thesis using build_content_dry b res Inr by auto
    next
      case False
      then show ?thesis using build_content_success [of deck] b [unfolded deck] Inr res deck [unfolded sha] by fastforce
    qed
  qed
qed

text \<open>The steps of the service that a run consists of.\<close>

lemma run_build_reach:
  assumes "service_reach rc T s" and "run_build w t s fs = (s', fs')"
  shows "service_reach rc T s'"
proof -
  have tasks: "service_reach rc T (x\<lparr>svc_tasks := m\<rparr>)" if "service_reach rc T x" for x m
    using that service_step.builds by (rule service_reach.next_step)
  have content: "service_reach rc T (x\<lparr>svc_ctx := refresh_content_repo found (svc_ctx x)\<rparr>)" if "service_reach rc T x" for x found
    using that service_step.content by (rule service_reach.next_step)
  show ?thesis
    using assms(2) tasks [OF assms(1)] content [OF tasks [OF assms(1)]]
    by (auto simp: run_build_def Let_def split: prod.splits sum.splits if_splits option.splits)
qed

text \<open>A request to start a build while none is active: the new task runs until its end, and is then the latest one.\<close>

lemma build_to_endE:
  assumes inv: "tasks_inv (svc_tasks s)" "bm_active (svc_tasks s) = None" "ae_build_id env \<notin> fst ` set (bm_tasks (svc_tasks s))"
    and b: "build_to_end w env dry s fs = (reply, s', fs')"
  obtains res ps t e where "run_worker w dry fs = (res, ps, fs')" "bt_state t = RUNNING" "bt_error t = None" "bt_dry_run t = dry"
    "reply = Reply 202 (Build_body (build_status t))" "tasks_inv (svc_tasks s')" "bm_active (svc_tasks s') = None"
    "\<exists>p. latest_task (svc_tasks s') = Some ((settle e (t\<lparr>bt_progress := p\<rparr>))\<lparr>bt_finished_at := Some (bw_finished_at w)\<rparr>)"
    "bt_id t = ae_build_id env"
    "e = (case res of Inl x \<Rightarrow> Raised (bw_text w x)
       | Inr rep \<Rightarrow> (case bw_refresh_error w of Some x \<Rightarrow> if dry then Built rep else RefreshFailed rep x | None \<Rightarrow> Built rep))"
    "svc_ctx s' = (case res of Inl _ \<Rightarrow> svc_ctx s
       | Inr _ \<Rightarrow> if dry \<or> bw_refresh_error w \<noteq> None then svc_ctx s else refresh_content_repo (content_found fs') (svc_ctx s))"
    "srv_progress s' = srv_progress s" "srv_verified s' = srv_verified s"
proof -
  let ?i = "ae_build_id env"
  obtain t m where st: "start_build ?i (ae_now env) dry (svc_tasks s) = Inr (t, m)"
    using inv(2) by (simp add: start_build_def Let_def)
  have t: "bt_dry_run t = dry" using st by (auto simp: start_build_def Let_def split: option.splits)
  note c = start_build_cases [OF st inv(1,3)] and new = tasks_step_start [OF st inv(1,3)]
  have "(?i, t) \<in> set (bm_tasks m)"
    using new c last_in_set [of "bm_tasks m"] by (cases "last (bm_tasks m)") (auto simp: latest_task_def tasks_inv_def split: if_splits)
  then have got: "get_task ?i m = Some t" using new get_task_unique by blast
  obtain res ps f where w: "run_worker w dry fs = (res, ps, f)" by (metis prod_cases3)
  let ?m = "fold (on_progress ?i) (passed_on None ps) m"
  have run: "tasks_inv ?m" "bm_active ?m = Some ?i" using progress_keeps [of m ?i t "passed_on None ps"] new got c by auto
  obtain p where p: "get_task ?i ?m = Some (t\<lparr>bt_progress := p\<rparr>)" using progress_keeps [of m ?i t "passed_on None ps"] new got c by auto
  have fin: "tasks_inv (finish_build ?i now e ?m) \<and> bm_active (finish_build ?i now e ?m) = None
      \<and> latest_task (finish_build ?i now e ?m) = Some ((settle e (t\<lparr>bt_progress := p\<rparr>))\<lparr>bt_finished_at := Some now\<rparr>)" for now e
    using tasks_finish [OF run p] c latest_task_update [OF run p] by (simp add: finish_build_eq [OF p])
  have "handle env (Start_build dry) s = (Reply 202 (Build_body (build_status t)), s\<lparr>svc_tasks := m\<rparr>)"
    by (simp add: start_build_route_def st)
  then have b': "reply = Reply 202 (Build_body (build_status t))" "run_build w t (s\<lparr>svc_tasks := m\<rparr>) fs = (s', fs')"
    using b by (simp_all add: build_to_end_def got)
  define e where "e = (case res of Inl x \<Rightarrow> Raised (bw_text w x)
       | Inr rep \<Rightarrow> (case bw_refresh_error w of Some x \<Rightarrow> if dry then Built rep else RefreshFailed rep x | None \<Rightarrow> Built rep))"
  have "fs' = f \<and> svc_tasks s' = finish_build ?i (bw_finished_at w) e ?m \<and> srv_progress s' = srv_progress s \<and> srv_verified s' = srv_verified s
      \<and> svc_ctx s' = (case res of Inl _ \<Rightarrow> svc_ctx s
         | Inr _ \<Rightarrow> if dry \<or> bw_refresh_error w \<noteq> None then svc_ctx s else refresh_content_repo (content_found fs') (svc_ctx s))"
    using b'(2) t c by (auto simp: run_build_def w Let_def e_def split: sum.splits if_splits option.splits)
  then show thesis using that [of res ps t e] w b'(1) t c fin [of "bw_finished_at w" e] e_def by auto
qed

section \<open>A sample build\<close>

definition sample_world :: build_world where
  "sample_world =
     \<lparr>bw_sha256 = lit ''ab'', bw_dictionary = Some (\<lambda>_. Inr None, Inr []), bw_deck = Some sample_file, bw_write = sample_write_env,
      bw_target = lit ''content.db'', bw_deck_name = lit ''deck.apkg'', bw_built_at = [], bw_duration = 0, bw_finished_at = T0 + SECOND,
      bw_refresh_error = None, bw_text = (\<lambda>_. [])\<rparr>"

definition no_files :: content_files where
  "no_files = \<lparr>target_db = None, tmp_db = None\<rparr>"

lemma sample_idle: "tasks_inv (svc_tasks sample_server)" "bm_active (svc_tasks sample_server) = None"
    "ae_build_id sample_api \<notin> fst ` set (bm_tasks (svc_tasks sample_server))"
  by (simp_all add: sample_server_def new_manager_def tasks_inv_def)

section \<open>Properties\<close>



text \<open>C6: A first build makes the deck studyable: with a dictionary that answers, the pinned deck and a folder that can be written,
  a request for a build is answered 202, its task succeeds, the summary shows the words of the deck and the counts of the
  report, and from then on a request for the next card is answered 200.\<close>
theorem build_then_study:
  assumes "server_ok s" and "tasks_inv (svc_tasks s)" and "bm_active (svc_tasks s) = None"
    and "ae_build_id env \<notin> fst ` set (bm_tasks (svc_tasks s))"
    and "bw_dictionary w = Some (src, Inr cs)" and "\<forall>ch. \<exists>d. src ch = Inr d"
    and "import_vocab (bw_sha256 w) (bw_deck w) = Inr deck"
    and "we_mkdir_ok (bw_write w) \<and> we_sql_ok (bw_write w) \<and> retries_succeed (we_outcomes (bw_write w))"
    and "bw_refresh_error w = None" and "runs_in rc env'"
    and "build_to_end w env False s fs = (reply, s', fs')"
  shows "(\<exists>st. reply = Reply 202 (Build_body st) \<and> bs_state st = RUNNING)
    \<and> (\<exists>t rep. latest_task (svc_tasks s') = Some t \<and> bt_state t = SUCCEEDED \<and> bt_report t = Some rep
        \<and> cs_built (content_summary (svc_ctx s')) \<and> cs_vocab (content_summary (svc_ctx s')) = int (length (deck_vocab deck))
        \<and> cs_vocab (content_summary (svc_ctx s')) = int (rep_vocab_count rep)
        \<and> cs_kanji (content_summary (svc_ctx s')) = int (rep_kanji_count rep)
        \<and> cs_kana (content_summary (svc_ctx s')) = int (rep_kana_count rep))
    \<and> (\<exists>n s''. next_review_route env' s' = (Reply 200 (Next_body n), s''))"
  using assms(2-4,11)
proof (rule build_to_endE)
  fix res ps t e
  assume w: "run_worker w False fs = (res, ps, fs')" and t: "bt_state t = RUNNING" "bt_dry_run t = False"
    and reply: "reply = Reply 202 (Build_body (build_status t))"
    and l: "\<exists>p. latest_task (svc_tasks s') = Some ((settle e (t\<lparr>bt_progress := p\<rparr>))\<lparr>bt_finished_at := Some (bw_finished_at w)\<rparr>)"
    and e: "e = (case res of Inl x \<Rightarrow> Raised (bw_text w x)
       | Inr rep \<Rightarrow> (case bw_refresh_error w of Some x \<Rightarrow> if False then Built rep else RefreshFailed rep x | None \<Rightarrow> Built rep))"
    and ctx: "svc_ctx s' = (case res of Inl _ \<Rightarrow> svc_ctx s
       | Inr _ \<Rightarrow> if False \<or> bw_refresh_error w \<noteq> None then svc_ctx s else refresh_content_repo (content_found fs') (svc_ctx s))"
    and same: "srv_progress s' = srv_progress s" "srv_verified s' = srv_verified s"
  obtain rep ns f where "build_content (Inr deck) src (Some (Inr cs)) (bw_write w) (bw_target w) (bw_deck_name w) (bw_built_at w)
      (bw_duration w) False fs = (Inr rep, ns, f)" using build_content_total [OF assms(6,7,8)] by blast
  then have res: "res = Inr rep" using w by (simp add: run_worker_def create_content_build_orchestrator_def assms(5,7))
  then obtain db where db: "target_db fs' = Some db" "schema_verified db" "length (kana_rows db) = rep_kana_count rep"
      "length (kanji_rows db) = rep_kanji_count rep" "length (vocab_rows db) = rep_vocab_count rep"
      "map (snd \<circ> snd) (vocab_rows db) = deck_vocab deck"
    using run_worker_files [OF w] assms(7) by auto
  have ctx': "svc_ctx s' = refresh_content_repo (Some (Readable db)) (svc_ctx s)" using ctx res assms(9) db(1) by (simp add: content_found_def)
  have "gate_sound (svc_ctx s', srv_verified s')"
    using assms(1) gate_sound_step [of "(svc_ctx s, srv_verified s)" "Refresh (Some (Readable db))"] by (simp add: ctx' same server_ok_def)
  then have "server_ok s'" using assms(1) same by (simp add: server_ok_def)
  moreover have "usable_content (svc_ctx s') = Some db" using db(2) by (simp add: ctx' refresh_content_repo_def usable_content_def)
  ultimately have "\<exists>n s''. next_review_route env' s' = (Reply 200 (Next_body n), s'')" using next_answered [OF _ assms(10)] by blast
  moreover have "length (deck_vocab deck) = rep_vocab_count rep" using db(5,6) by (metis length_map)
  ultimately show ?thesis
    using reply t l e res assms(9) db
    by (auto simp: build_status_def ctx' refresh_content_repo_def content_summary_def counts_def Let_def)
qed

theorem build_then_study_witness:
  "\<exists>reply s' fs'. build_to_end sample_world sample_api False sample_server no_files = (reply, s', fs')
     \<and> cs_vocab (content_summary (svc_ctx s')) = 2 \<and> (\<exists>n s''. next_review_route sample_api s' = (Reply 200 (Next_body n), s''))"
proof -
  obtain reply s' fs' where b: "build_to_end sample_world sample_api False sample_server no_files = (reply, s', fs')"
    by (metis prod_cases3)
  have two: "length (deck_vocab sample_deck) = 2" using sample_deck_imports by (simp add: sample_deck_imported)
  have w: "bw_dictionary sample_world = Some (\<lambda>_. Inr None, Inr [])" "import_vocab (bw_sha256 sample_world) (bw_deck sample_world) = Inr sample_deck"
      "we_mkdir_ok (bw_write sample_world) \<and> we_sql_ok (bw_write sample_world) \<and> retries_succeed (we_outcomes (bw_write sample_world))"
      "bw_refresh_error sample_world = None"
    using sample_write_env_ok by (simp_all add: sample_world_def sample_deck_imported)
  have "\<forall>ch. \<exists>d. (\<lambda>_. Inr None) ch = (Inr d :: unit + kanji_details option)" by simp
  from build_then_study [OF sample_server_ok sample_idle w(1) this w(2-4) sample_runs b] b show ?thesis by (auto simp: two)
qed

end
