(* ===== verification/Schema.thy ===== *)
theory Schema
  imports Service
begin

text \<open>
  The schema of \<^verbatim>\<open>progress.db\<close>: the migrations \<^verbatim>\<open>db/migrations/versions/0001_initial.py\<close> and
  \<^verbatim>\<open>0002_revoked_session.py\<close> as operations on a schema, the tables that \<^verbatim>\<open>db/models.py\<close> declares, and the
  rows of the store as values of their columns.  What SQLite refuses is written out; Alembic is an argument, of
  which \<open>alembic_documented\<close> says that it runs the scripts along their \<^verbatim>\<open>down_revision\<close> links.
\<close>

section \<open>Schemas and operations\<close>

text \<open>\<^verbatim>\<open>Integer\<close>, \<^verbatim>\<open>Float\<close>, \<^verbatim>\<open>String(n)\<close> and \<^verbatim>\<open>String\<close>.\<close>

datatype column_type = SqlInteger | SqlFloat | SqlString "nat option"

record sql_column =
  col_name :: string
  col_type :: column_type
  col_nullable :: bool
  col_default :: "string option"

record sql_table =
  tab_name :: string
  tab_columns :: "sql_column list"
  tab_primary :: "string list"
  tab_unique :: "(string \<times> string list) list"

record sql_index =
  idx_name :: string
  idx_table :: string
  idx_columns :: "string list"

record sql_schema =
  sch_tables :: "sql_table list"
  sch_indexes :: "sql_index list"

datatype ddl = Create_table sql_table | Create_index sql_index | Drop_table string | Drop_index string

text \<open>
  What SQLite does; \<open>None\<close> is its error.  A table that is dropped takes its indexes with it, and a constraint
  and an index can only name columns of the table.
\<close>

definition has_columns :: "string list \<Rightarrow> sql_table \<Rightarrow> bool" where
  "has_columns cs t \<longleftrightarrow> set cs \<subseteq> set (map col_name (tab_columns t))"

fun apply_ddl :: "ddl \<Rightarrow> sql_schema \<Rightarrow> sql_schema option" where
  "apply_ddl (Create_table t) s =
     (if tab_name t \<in> set (map tab_name (sch_tables s)) \<or> \<not> distinct (map col_name (tab_columns t))
         \<or> \<not> has_columns (tab_primary t @ concat (map snd (tab_unique t))) t then None
      else Some (s\<lparr>sch_tables := sch_tables s @ [t]\<rparr>))"
| "apply_ddl (Create_index i) s =
     (if idx_name i \<in> set (map idx_name (sch_indexes s)) then None
      else (case find (\<lambda>t. tab_name t = idx_table i) (sch_tables s) of
              None \<Rightarrow> None
            | Some t \<Rightarrow> if has_columns (idx_columns i) t then Some (s\<lparr>sch_indexes := sch_indexes s @ [i]\<rparr>) else None))"
| "apply_ddl (Drop_table n) s =
     (if n \<in> set (map tab_name (sch_tables s))
      then Some (s\<lparr>sch_tables := filter (\<lambda>t. tab_name t \<noteq> n) (sch_tables s),
                   sch_indexes := filter (\<lambda>i. idx_table i \<noteq> n) (sch_indexes s)\<rparr>)
      else None)"
| "apply_ddl (Drop_index n) s =
     (if n \<in> set (map idx_name (sch_indexes s))
      then Some (s\<lparr>sch_indexes := filter (\<lambda>i. idx_name i \<noteq> n) (sch_indexes s)\<rparr>) else None)"

fun run_ddl :: "ddl list \<Rightarrow> sql_schema \<Rightarrow> sql_schema option" where
  "run_ddl [] s = Some s"
| "run_ddl (op # ops) s = Option.bind (apply_ddl op s) (run_ddl ops)"

definition column :: "string \<Rightarrow> column_type \<Rightarrow> bool \<Rightarrow> string option \<Rightarrow> sql_column" where
  "column n ty nullable server_default = \<lparr>col_name = n, col_type = ty, col_nullable = nullable, col_default = server_default\<rparr>"

definition no_schema :: sql_schema where
  "no_schema = \<lparr>sch_tables = [], sch_indexes = []\<rparr>"

section \<open>The migrations\<close>

text \<open>\<^verbatim>\<open>upgrade\<close> of revision 0001.\<close>

definition upgrade_0001 :: "ddl list" where
  "upgrade_0001 =
     [Create_table
        \<lparr>tab_name = ''card_state'',
         tab_columns =
           [column ''id'' SqlInteger False None,
            column ''item_id'' (SqlString (Some 255)) False None,
            column ''direction'' (SqlString (Some 32)) False None,
            column ''state'' SqlInteger False (Some ''0''),
            column ''step'' SqlInteger True None,
            column ''stability'' SqlFloat True None,
            column ''difficulty'' SqlFloat True None,
            column ''due'' (SqlString (Some 32)) False None,
            column ''last_review'' (SqlString (Some 32)) True None,
            column ''reps'' SqlInteger False (Some ''0''),
            column ''lapses'' SqlInteger False (Some ''0'')],
         tab_primary = [''id''],
         tab_unique = [(''uq_card_state_item_direction'', [''item_id'', ''direction''])]\<rparr>,
      Create_index \<lparr>idx_name = ''ix_card_state_due'', idx_table = ''card_state'', idx_columns = [''due'']\<rparr>,
      Create_table
        \<lparr>tab_name = ''review_log'',
         tab_columns =
           [column ''id'' SqlInteger False None,
            column ''item_id'' (SqlString (Some 255)) False None,
            column ''direction'' (SqlString (Some 32)) False None,
            column ''grade'' SqlInteger False None,
            column ''mode'' (SqlString (Some 32)) False (Some ''flip''),
            column ''reviewed_at'' (SqlString (Some 32)) False None,
            column ''state_before'' SqlInteger True None,
            column ''stability_before'' SqlFloat True None,
            column ''difficulty_before'' SqlFloat True None,
            column ''elapsed_days'' SqlFloat True None,
            column ''duration_ms'' SqlInteger True None],
         tab_primary = [''id''], tab_unique = []\<rparr>,
      Create_index \<lparr>idx_name = ''ix_review_log_card'', idx_table = ''review_log'', idx_columns = [''item_id'', ''direction'']\<rparr>,
      Create_index \<lparr>idx_name = ''ix_review_log_reviewed_at'', idx_table = ''review_log'', idx_columns = [''reviewed_at'']\<rparr>,
      Create_table
        \<lparr>tab_name = ''app_setting'',
         tab_columns = [column ''key'' (SqlString (Some 128)) False None, column ''value'' (SqlString None) False None],
         tab_primary = [''key''], tab_unique = []\<rparr>]"

definition downgrade_0001 :: "ddl list" where
  "downgrade_0001 =
     [Drop_table ''app_setting'', Drop_index ''ix_review_log_reviewed_at'', Drop_index ''ix_review_log_card'', Drop_table ''review_log'',
      Drop_index ''ix_card_state_due'', Drop_table ''card_state'']"

definition upgrade_0002 :: "ddl list" where
  "upgrade_0002 =
     [Create_table
        \<lparr>tab_name = ''revoked_session'',
         tab_columns = [column ''sid'' (SqlString (Some 64)) False None, column ''expires_at'' (SqlString (Some 32)) False None],
         tab_primary = [''sid''], tab_unique = []\<rparr>]"

definition downgrade_0002 :: "ddl list" where
  "downgrade_0002 = [Drop_table ''revoked_session'']"

record migration =
  mig_revision :: string
  mig_down_revision :: "string option"
  mig_upgrade :: "ddl list"
  mig_downgrade :: "ddl list"

definition migrations :: "migration list" where
  "migrations =
     [\<lparr>mig_revision = ''0001'', mig_down_revision = None, mig_upgrade = upgrade_0001, mig_downgrade = downgrade_0001\<rparr>,
      \<lparr>mig_revision = ''0002'', mig_down_revision = Some ''0001'', mig_upgrade = upgrade_0002, mig_downgrade = downgrade_0002\<rparr>]"

text \<open>\<^verbatim>\<open>command.upgrade(cfg, "head")\<close>: from the current revision along the scripts that follow it.\<close>

definition alembic_documented :: "(string option \<Rightarrow> sql_schema \<Rightarrow> (string option \<times> sql_schema) option) \<Rightarrow> bool" where
  "alembic_documented up \<longleftrightarrow> (\<forall>current s. up current s =
     (case find (\<lambda>m. mig_down_revision m = current) migrations of
        None \<Rightarrow> Some (current, s)
      | Some m \<Rightarrow> Option.bind (run_ddl (mig_upgrade m) s) (up (Some (mig_revision m)))))"

section \<open>The declared tables\<close>

text \<open>\<^verbatim>\<open>Mapped[T]\<close> is not nullable, \<^verbatim>\<open>Mapped[T | None]\<close> is, and a primary key never is.\<close>

definition CardState_table :: sql_table where
  "CardState_table =
     \<lparr>tab_name = ''card_state'',
      tab_columns =
        [column ''id'' SqlInteger False None, column ''item_id'' (SqlString (Some 255)) False None,
         column ''direction'' (SqlString (Some 32)) False None, column ''state'' SqlInteger False (Some ''0''),
         column ''step'' SqlInteger True None, column ''stability'' SqlFloat True None, column ''difficulty'' SqlFloat True None,
         column ''due'' (SqlString (Some 32)) False None, column ''last_review'' (SqlString (Some 32)) True None,
         column ''reps'' SqlInteger False (Some ''0''), column ''lapses'' SqlInteger False (Some ''0'')],
      tab_primary = [''id''], tab_unique = [(''uq_card_state_item_direction'', [''item_id'', ''direction''])]\<rparr>"

definition ReviewLog_table :: sql_table where
  "ReviewLog_table =
     \<lparr>tab_name = ''review_log'',
      tab_columns =
        [column ''id'' SqlInteger False None, column ''item_id'' (SqlString (Some 255)) False None,
         column ''direction'' (SqlString (Some 32)) False None, column ''grade'' SqlInteger False None,
         column ''mode'' (SqlString (Some 32)) False (Some ''flip''), column ''reviewed_at'' (SqlString (Some 32)) False None,
         column ''state_before'' SqlInteger True None, column ''stability_before'' SqlFloat True None,
         column ''difficulty_before'' SqlFloat True None, column ''elapsed_days'' SqlFloat True None,
         column ''duration_ms'' SqlInteger True None],
      tab_primary = [''id''], tab_unique = []\<rparr>"

definition AppSetting_table :: sql_table where
  "AppSetting_table =
     \<lparr>tab_name = ''app_setting'',
      tab_columns = [column ''key'' (SqlString (Some 128)) False None, column ''value'' (SqlString None) False None],
      tab_primary = [''key''], tab_unique = []\<rparr>"

definition RevokedSession_table :: sql_table where
  "RevokedSession_table =
     \<lparr>tab_name = ''revoked_session'',
      tab_columns = [column ''sid'' (SqlString (Some 64)) False None, column ''expires_at'' (SqlString (Some 32)) False None],
      tab_primary = [''sid''], tab_unique = []\<rparr>"

text \<open>\<^verbatim>\<open>Base.metadata\<close>.\<close>

definition Base_metadata :: sql_schema where
  "Base_metadata =
     \<lparr>sch_tables = [CardState_table, ReviewLog_table, AppSetting_table, RevokedSession_table],
      sch_indexes =
        [\<lparr>idx_name = ''ix_card_state_due'', idx_table = ''card_state'', idx_columns = [''due'']\<rparr>,
         \<lparr>idx_name = ''ix_review_log_card'', idx_table = ''review_log'', idx_columns = [''item_id'', ''direction'']\<rparr>,
         \<lparr>idx_name = ''ix_review_log_reviewed_at'', idx_table = ''review_log'', idx_columns = [''reviewed_at'']\<rparr>]\<rparr>"

lemmas schema_defs = upgrade_0001_def upgrade_0002_def downgrade_0001_def downgrade_0002_def migrations_def Base_metadata_def
  CardState_table_def ReviewLog_table_def AppSetting_table_def RevokedSession_table_def column_def no_schema_def has_columns_def

section \<open>The migrations make the declared tables\<close>

definition with_schema :: "sql_schema \<Rightarrow> sql_schema \<Rightarrow> sql_schema" where
  "with_schema s added = \<lparr>sch_tables = sch_tables s @ sch_tables added, sch_indexes = sch_indexes s @ sch_indexes added\<rparr>"

text \<open>A database without the tables and indexes of the program, such as a new one that holds Alembic's own table only.\<close>

definition foreign_schema :: "sql_schema \<Rightarrow> bool" where
  "foreign_schema s \<longleftrightarrow> set (map tab_name (sch_tables s)) \<inter> set (map tab_name (sch_tables Base_metadata)) = {}
     \<and> set (map idx_name (sch_indexes s)) \<inter> set (map idx_name (sch_indexes Base_metadata)) = {}
     \<and> set (map idx_table (sch_indexes s)) \<subseteq> set (map tab_name (sch_tables s))"

lemma foreign_facts:
  assumes "foreign_schema s"
  shows "n \<in> {''card_state'', ''review_log'', ''app_setting'', ''revoked_session''} \<Longrightarrow>
      n \<notin> tab_name ` set (sch_tables s) \<and> find (\<lambda>t. tab_name t = n) (sch_tables s) = None
      \<and> filter (\<lambda>t. tab_name t \<noteq> n) (sch_tables s) = sch_tables s \<and> filter (\<lambda>i. idx_table i \<noteq> n) (sch_indexes s) = sch_indexes s"
    and "n \<in> {''ix_card_state_due'', ''ix_review_log_card'', ''ix_review_log_reviewed_at''} \<Longrightarrow>
      n \<notin> idx_name ` set (sch_indexes s) \<and> filter (\<lambda>i. idx_name i \<noteq> n) (sch_indexes s) = sch_indexes s"
proof -
  assume "n \<in> {''card_state'', ''review_log'', ''app_setting'', ''revoked_session''}"
  then have "n \<in> tab_name ` set (sch_tables Base_metadata)" by (auto simp: schema_defs)
  then have "n \<notin> tab_name ` set (sch_tables s)" using assms unfolding foreign_schema_def set_map by blast
  moreover from this have "n \<notin> idx_table ` set (sch_indexes s)" using assms by (auto simp: foreign_schema_def)
  ultimately show "n \<notin> tab_name ` set (sch_tables s) \<and> find (\<lambda>t. tab_name t = n) (sch_tables s) = None
      \<and> filter (\<lambda>t. tab_name t \<noteq> n) (sch_tables s) = sch_tables s \<and> filter (\<lambda>i. idx_table i \<noteq> n) (sch_indexes s) = sch_indexes s"
    by (auto simp: find_None_iff filter_id_conv)
next
  assume "n \<in> {''ix_card_state_due'', ''ix_review_log_card'', ''ix_review_log_reviewed_at''}"
  then have "n \<in> idx_name ` set (sch_indexes Base_metadata)" by (auto simp: schema_defs)
  then have "n \<notin> idx_name ` set (sch_indexes s)" using assms unfolding foreign_schema_def set_map by blast
  then show "n \<notin> idx_name ` set (sch_indexes s) \<and> filter (\<lambda>i. idx_name i \<noteq> n) (sch_indexes s) = sch_indexes s"
    by (auto simp: filter_id_conv)
qed

lemma upgrade_result:
  assumes "foreign_schema s"
  shows "\<exists>mid. run_ddl upgrade_0001 s = Some mid \<and> run_ddl upgrade_0002 mid = Some (with_schema s Base_metadata)
    \<and> run_ddl downgrade_0002 (with_schema s Base_metadata) = Some mid \<and> run_ddl downgrade_0001 mid = Some s"
  using foreign_facts [OF assms]
  by (simp add: schema_defs with_schema_def find_append)

lemma upgrade_links:
  assumes "alembic_documented up"
  shows "up (Some ''0002'') s = Some (Some ''0002'', s)" and "up (Some ''0001'') s = Option.bind (run_ddl upgrade_0002 s) (up (Some ''0002''))"
    and "up None s = Option.bind (run_ddl upgrade_0001 s) (up (Some ''0001''))"
  using assms [unfolded alembic_documented_def, rule_format, of "Some ''0002''" s]
    assms [unfolded alembic_documented_def, rule_format, of "Some ''0001''" s]
    assms [unfolded alembic_documented_def, rule_format, of None s]
  by (simp_all add: migrations_def)

lemma upgrade_whole:
  assumes "alembic_documented up" and "foreign_schema s"
  shows "up None s = Some (Some ''0002'', with_schema s Base_metadata)"
proof -
  obtain mid where "run_ddl upgrade_0001 s = Some mid" "run_ddl upgrade_0002 mid = Some (with_schema s Base_metadata)"
    using upgrade_result [OF assms(2)] by blast
  then show ?thesis by (simp add: upgrade_links [OF assms(1)])
qed

section \<open>Rows as values\<close>

datatype sql_value = Null | IntVal int | FloatVal pyfloat | TextVal ustr

definition nullable :: "('a \<Rightarrow> sql_value) \<Rightarrow> 'a option \<Rightarrow> sql_value" where
  "nullable f x = (case x of None \<Rightarrow> Null | Some y \<Rightarrow> f y)"

definition card_values :: "card_row \<Rightarrow> (string \<times> sql_value) list" where
  "card_values r =
     [(''id'', IntVal (row_id r)), (''item_id'', TextVal (row_item r)), (''direction'', TextVal (row_direction r)),
      (''state'', IntVal (row_state r)), (''step'', nullable IntVal (row_step r)), (''stability'', nullable FloatVal (row_stability r)),
      (''difficulty'', nullable FloatVal (row_difficulty r)), (''due'', TextVal (row_due r)),
      (''last_review'', nullable TextVal (row_last_review r)), (''reps'', IntVal (row_reps r)), (''lapses'', IntVal (row_lapses r))]"

definition log_values :: "log_row \<Rightarrow> (string \<times> sql_value) list" where
  "log_values l =
     [(''id'', IntVal (log_id l)), (''item_id'', TextVal (log_item l)), (''direction'', TextVal (log_direction l)),
      (''grade'', IntVal (log_grade l)), (''mode'', TextVal (log_mode l)), (''reviewed_at'', TextVal (log_reviewed_at l)),
      (''state_before'', nullable IntVal (log_state_before l)), (''stability_before'', nullable FloatVal (log_stability_before l)),
      (''difficulty_before'', nullable FloatVal (log_difficulty_before l)), (''elapsed_days'', nullable FloatVal (log_elapsed_days l)),
      (''duration_ms'', nullable IntVal (log_duration_ms l))]"

definition setting_values :: "ustr \<times> ustr \<Rightarrow> (string \<times> sql_value) list" where
  "setting_values p = [(''key'', TextVal (fst p)), (''value'', TextVal (snd p))]"

text \<open>What the schema asks of a row and of a table; the lengths are the declared ones, which SQLite itself ignores.\<close>

fun fits_column :: "sql_column \<Rightarrow> sql_value \<Rightarrow> bool" where
  "fits_column c Null = col_nullable c"
| "fits_column c (IntVal n) = (col_type c = SqlInteger)"
| "fits_column c (FloatVal x) = (col_type c = SqlFloat)"
| "fits_column c (TextVal t) = (case col_type c of SqlString None \<Rightarrow> True | SqlString (Some n) \<Rightarrow> length t \<le> n | _ \<Rightarrow> False)"

definition fits_row :: "sql_table \<Rightarrow> (string \<times> sql_value) list \<Rightarrow> bool" where
  "fits_row t vs \<longleftrightarrow> map fst vs = map col_name (tab_columns t) \<and> list_all2 fits_column (tab_columns t) (map snd vs)"

definition values_of :: "string list \<Rightarrow> (string \<times> sql_value) list \<Rightarrow> sql_value option list" where
  "values_of cs vs = map (map_of vs) cs"

definition table_fits :: "sql_table \<Rightarrow> (string \<times> sql_value) list list \<Rightarrow> bool" where
  "table_fits t rows \<longleftrightarrow> list_all (fits_row t) rows \<and> distinct (map (values_of (tab_primary t)) rows)
     \<and> list_all (\<lambda>(_, cs). distinct (map (values_of cs) rows)) (tab_unique t)"

definition store_tables :: "progress_db \<Rightarrow> (string \<times> (string \<times> sql_value) list list) list" where
  "store_tables db =
     [(''card_state'', map card_values (card_rows db)), (''review_log'', map log_values (log_rows db)),
      (''app_setting'', map setting_values (setting_rows db))]"

definition store_fits :: "sql_schema \<Rightarrow> progress_db \<Rightarrow> bool" where
  "store_fits s db \<longleftrightarrow>
     list_all (\<lambda>(name, rows). list_ex (\<lambda>t. tab_name t = name \<and> table_fits t rows) (sch_tables s)) (store_tables db)"

section \<open>What the service stores fits\<close>

text \<open>What the tables ask beyond the consistency of the store.\<close>

definition short_texts :: "progress_db \<Rightarrow> bool" where
  "short_texts db \<longleftrightarrow> (\<forall>r \<in> set (card_rows db). length (row_item r) \<le> 255) \<and> (\<forall>l \<in> set (log_rows db). length (log_mode l) \<le> 32)
     \<and> distinct (map fst (setting_rows db)) \<and> (\<forall>k \<in> fst ` set (setting_rows db). length k \<le> 128)"

lemma length_stamp: "stamp_ok t \<Longrightarrow> length (stamp t) = 27"
proof -
  assume ok: "stamp_ok t"
  obtain y m d where c: "civil (t div DAY) = (y, m, d)" by (metis prod_cases3)
  have "dec (nat y) = pad 4 (nat y)" using year_bounds [OF ok c] by (intro dec_pad4) auto
  then show ?thesis by (simp add: stamp_def c render_def Let_def)
qed

lemma good_stamp_length: "good_stamp s \<Longrightarrow> length s \<le> 32"
  by (erule good_stampE) (use length_stamp in fastforce)

lemma direction_length: "direction_of_value s = Some d \<Longrightarrow> length s \<le> 32"
  by (drule direction_of_valueD) (cases d; simp add: lit_def)

lemma distinct_values:
  assumes "distinct (map f xs)" and "\<And>x y. x \<in> set xs \<Longrightarrow> y \<in> set xs \<Longrightarrow> g x = g y \<Longrightarrow> f x = f y"
  shows "distinct (map g xs)"
  using assms by (simp add: distinct_conv_nth) (metis nth_mem)

lemma sorted_ids_distinct: "sorted_wrt (<) (map f xs) \<Longrightarrow> distinct (map (f :: 'a \<Rightarrow> int) xs)"
  by (simp add: strict_sorted_iff)

lemma card_row_fits: "row_ok r \<Longrightarrow> length (row_item r) \<le> 255 \<Longrightarrow> fits_row CardState_table (card_values r)"
  using good_stamp_length direction_length
  by (auto simp: fits_row_def CardState_table_def card_values_def column_def nullable_def row_ok_def split: option.splits)

lemma log_row_fits:
  "log_ok l \<Longrightarrow> length (log_item l) \<le> 255 \<Longrightarrow> length (log_mode l) \<le> 32 \<Longrightarrow> fits_row ReviewLog_table (log_values l)"
  using good_stamp_length direction_length
  by (auto simp: fits_row_def ReviewLog_table_def log_values_def column_def nullable_def log_ok_def split: option.splits)

lemma setting_row_fits: "length (fst p) \<le> 128 \<Longrightarrow> fits_row AppSetting_table (setting_values p)"
  by (simp add: fits_row_def AppSetting_table_def setting_values_def column_def)

lemma store_fits_metadata:
  assumes ok: "db_ok db" and short: "short_texts db"
  shows "store_fits Base_metadata db"
proof -
  have rows: "\<forall>r \<in> set (card_rows db). row_ok r \<and> length (row_item r) \<le> 255" using ok short by (auto simp: db_ok_def short_texts_def)
  have "length (log_item l) \<le> 255" if "l \<in> set (log_rows db)" for l
  proof -
    have "log_key l \<in> row_key ` set (card_rows db)" using ok that by (auto simp: db_ok_def)
    then show ?thesis using short by (auto simp: log_key_def row_key_def short_texts_def)
  qed
  then have logs: "\<forall>l \<in> set (log_rows db). log_ok l \<and> length (log_item l) \<le> 255 \<and> length (log_mode l) \<le> 32"
    using ok short by (auto simp: db_ok_def short_texts_def)
  have "distinct (map (\<lambda>r. values_of [''id''] (card_values r)) (card_rows db))"
    by (rule distinct_values [OF sorted_ids_distinct [of row_id]]) (use ok in \<open>auto simp: db_ok_def values_of_def card_values_def\<close>)
  moreover have "distinct (map (\<lambda>r. values_of [''item_id'', ''direction''] (card_values r)) (card_rows db))"
    by (rule distinct_values [of row_key]) (use ok in \<open>auto simp: db_ok_def row_key_def values_of_def card_values_def\<close>)
  ultimately have cards: "table_fits CardState_table (map card_values (card_rows db))"
    using card_row_fits rows by (auto simp: table_fits_def list_all_iff CardState_table_def comp_def)
  have "distinct (map (\<lambda>l. values_of [''id''] (log_values l)) (log_rows db))"
    by (rule distinct_values [OF sorted_ids_distinct [of log_id]]) (use ok in \<open>auto simp: db_ok_def values_of_def log_values_def\<close>)
  then have log: "table_fits ReviewLog_table (map log_values (log_rows db))"
    using log_row_fits logs by (auto simp: table_fits_def list_all_iff ReviewLog_table_def comp_def)
  have "distinct (map (\<lambda>p. values_of [''key''] (setting_values p)) (setting_rows db))"
    by (rule distinct_values [of fst]) (use short in \<open>auto simp: short_texts_def values_of_def setting_values_def\<close>)
  then have settings: "table_fits AppSetting_table (map setting_values (setting_rows db))"
    using setting_row_fits short by (auto simp: table_fits_def list_all_iff AppSetting_table_def comp_def short_texts_def)
  show ?thesis
    using cards log settings
    by (simp add: store_fits_def store_tables_def Base_metadata_def) (simp add: CardState_table_def ReviewLog_table_def AppSetting_table_def)
qed

lemma store_fits_more: "store_fits s db \<Longrightarrow> store_fits (with_schema s' s) db"
  by (auto simp: store_fits_def with_schema_def list_all_iff)

lemma short_record:
  assumes "short_texts db" and "length (key_item_id k) \<le> 255" and "length mode \<le> 32"
    and rec: "record_review k b a g mode dur db = Inr db'"
  shows "short_texts db'"
proof (cases "sched_state b = NEW")
  case True
  show ?thesis using assms(1-3) rec unfolding record_review_new [OF True]
    by (auto simp: short_texts_def new_row_def log_entry_def)
next
  case False
  show ?thesis using assms(1-3) rec unfolding record_review_update [OF False]
    by (auto simp: short_texts_def updated_row_def log_entry_def)
qed

lemma short_settings: "short_texts db \<Longrightarrow> short_texts (save_settings encode s db)"
  by (auto simp: short_texts_def save_settings_def set_setting_def distinct_update dom_update SETTINGS_KEY_def lit_def)

lemma answer_store:
  "answer env now ctx v k g expected duration db = (res, v', db') \<Longrightarrow>
     db' = db \<or> (\<exists>cdb. write_answer env now cdb k g expected duration db = Inr db')"
  by (auto simp: answer_def answer_in_def split: prod.splits sum.splits)

lemma short_respond:
  assumes ok: "server_ok s" and short: "short_texts (srv_progress s)" and env: "runs_in rc env" and doc: "fsrs_documented rc"
    and r: "respond env req s = (reply, s')"
  shows "short_texts (srv_progress s')"
proof (cases req)
  case (Protected credentials p)
  then consider "s' = s" | "body_ok p" "handle env p s = (reply, s')" using r by (auto split: option.splits if_splits)
  then show ?thesis
  proof cases
    case 1
    then show ?thesis using short by simp
  next
    case 2
    show ?thesis
    proof (cases "writes_progress p")
      case False
      then have "srv_progress s' = srv_progress s" using 2(2) by (cases p) (auto simp: route_defs split: prod.splits sum.splits)
      then show ?thesis using short by simp
    next
      case True
      then show ?thesis
      proof (cases p)
        case (Update_settings settings)
        then show ?thesis using 2 short by (auto simp: update_settings_route_def short_settings)
      next
        case (Answer_review k g expected duration)
        obtain z rnk below rng decode where sess: "ae_session env = app_env rc z rnk below rng decode"
          and fit: "times_fit (ae_session env) (ae_now env)" using env by (rule runs_inE)
        obtain res v db' where a: "answer (ae_session env) (ae_now env) (svc_ctx s) (srv_verified s) k g expected duration (srv_progress s)
            = (res, v, db')" by (metis prod_cases3)
        then have db': "srv_progress s' = db'" using 2 Answer_review by (auto simp: answer_route_def)
        from answer_store [OF a] show ?thesis
        proof
          assume "db' = srv_progress s"
          then show ?thesis using short db' by simp
        next
          assume "\<exists>cdb. write_answer (ae_session env) (ae_now env) cdb k g expected duration (srv_progress s) = Inr db'"
          then obtain cdb where w: "write_answer (app_env rc z rnk below rng decode) (ae_now env) cdb k g expected duration (srv_progress s) = Inr db'"
            unfolding sess by blast
          have "db_ok (srv_progress s)" using ok by (simp add: server_ok_def)
          from app.write_answerE [OF this doc fit [unfolded sess] w] obtain a where
            "record_review k (base_schedule (srv_progress s) k (ae_now env)) a g REVIEW_MODE duration (srv_progress s) = Inr db'" by metis
          moreover have "length (key_item_id k) \<le> 255" using 2(1) Answer_review by (simp add: answer_request_ok_def)
          moreover have "length REVIEW_MODE \<le> 32" by (simp add: REVIEW_MODE_def lit_def)
          ultimately show ?thesis using short_record [OF short] db' by blast
        qed
      qed simp_all
    qed
  qed
qed (use r short in \<open>auto simp: route_defs Let_def split: sum.splits prod.splits\<close>)

lemma service_reach_short: "service_reach rc T s \<Longrightarrow> fsrs_documented rc \<Longrightarrow> short_texts (srv_progress s)"
proof (induction rule: service_reach.induct)
  case (first cfg senv folder svc res folder' rows)
  then show ?case by (simp add: server_of_def short_texts_def empty_db_def)
next
  case (next_step s env s')
  from next_step(2) show ?case
  proof (cases rule: service_step.cases)
    case (request req reply)
    then show ?thesis using short_respond service_reach_ok [OF next_step(1)] next_step by blast
  qed (use next_step in \<open>simp_all add: server_of_def\<close>)
qed

section \<open>Properties\<close>

text \<open>An Alembic for these two scripts.\<close>

definition sample_alembic :: "string option \<Rightarrow> sql_schema \<Rightarrow> (string option \<times> sql_schema) option" where
  "sample_alembic current s =
     (if current = None then map_option (Pair (Some ''0002'')) (Option.bind (run_ddl upgrade_0001 s) (run_ddl upgrade_0002))
      else if current = Some ''0001'' then map_option (Pair (Some ''0002'')) (run_ddl upgrade_0002 s)
      else Some (current, s))"

lemma sample_alembic_documented: "alembic_documented sample_alembic"
  unfolding alembic_documented_def
proof (intro allI)
  fix current s
  show "sample_alembic current s =
     (case find (\<lambda>m. mig_down_revision m = current) migrations of
        None \<Rightarrow> Some (current, s)
      | Some m \<Rightarrow> Option.bind (run_ddl (mig_upgrade m) s) (sample_alembic (Some (mig_revision m))))"
    by (cases "run_ddl upgrade_0001 s"; cases "run_ddl upgrade_0002 s")
      (auto simp: sample_alembic_def migrations_def map_option_case split: option.splits)
qed

text \<open>C39: On a database that holds none of the program's tables yet, the migrations run to the head revision and make exactly the
  tables and indexes that the models declare, in one go or in two; downgrading undoes them and leaves the database as it was.\<close>
theorem migrations_make_the_models:
  assumes "alembic_documented up" and "foreign_schema s"
  shows "up None s = Some (Some ''0002'', with_schema s Base_metadata)
    \<and> (\<exists>mid. run_ddl upgrade_0001 s = Some mid
         \<and> up (Some ''0001'') mid = Some (Some ''0002'', with_schema s Base_metadata)
         \<and> run_ddl downgrade_0002 (with_schema s Base_metadata) = Some mid \<and> run_ddl downgrade_0001 mid = Some s)
    \<and> up (Some ''0002'') s = Some (Some ''0002'', s)"
proof -
  obtain mid where mid: "run_ddl upgrade_0001 s = Some mid" "run_ddl upgrade_0002 mid = Some (with_schema s Base_metadata)"
    "run_ddl downgrade_0002 (with_schema s Base_metadata) = Some mid" "run_ddl downgrade_0001 mid = Some s"
    using upgrade_result [OF assms(2)] by blast
  moreover from this have "up (Some ''0001'') mid = Some (Some ''0002'', with_schema s Base_metadata)"
    by (simp add: upgrade_links [OF assms(1)])
  ultimately show ?thesis using upgrade_whole [OF assms] upgrade_links(1) [OF assms(1)] by blast
qed

theorem migrations_make_the_models_witness:
  "sample_alembic None no_schema = Some (Some ''0002'', with_schema no_schema Base_metadata)"
  using migrations_make_the_models [OF sample_alembic_documented, of no_schema] by (simp add: foreign_schema_def no_schema_def)



end
