(* ===== verification/JamdictThreads.thy ===== *)
theory JamdictThreads
  imports Jamdict
begin

text \<open>
  The instances of the dictionary library behind one \<^verbatim>\<open>JamdictService\<close> (\<^verbatim>\<open>services/jamdict_service.py\<close>).
  A connection of the library may be used only on the thread that opened it, so every thread has an
  instance of its own; an object given by a test is shared.  Instances are numbered as they are opened.  A
  thread reads and writes only its own entry of the \<^verbatim>\<open>threading.local\<close>, so calls can be taken one at a time.
\<close>

record 't jam_service =
  jam_injected :: bool
  jam_locals :: "('t \<times> nat) list"
  jam_opened :: nat

text \<open>The end of the constructor, on the thread \<open>t\<close>.\<close>

definition new_jam_service :: "bool \<Rightarrow> 't \<Rightarrow> 't jam_service" where
  "new_jam_service injected t = \<lparr>jam_injected = injected, jam_locals = [(t, 0)], jam_opened = 1\<rparr>"

definition jam_for_current_thread :: "'t \<Rightarrow> 't jam_service \<Rightarrow> nat \<times> 't jam_service" where
  "jam_for_current_thread t s =
     (case map_of (jam_locals s) t of
        Some j \<Rightarrow> (j, s)
      | None \<Rightarrow>
          if jam_injected s then (0, s\<lparr>jam_locals := (t, 0) # jam_locals s\<rparr>)
          else (jam_opened s, s\<lparr>jam_locals := (t, jam_opened s) # jam_locals s, jam_opened := jam_opened s + 1\<rparr>))"

text \<open>Lookups on threads, in the order they happen: which thread used which instance.\<close>

fun jam_calls :: "'t list \<Rightarrow> 't jam_service \<Rightarrow> ('t \<times> nat) list \<times> 't jam_service" where
  "jam_calls [] s = ([], s)"
| "jam_calls (t # ts) s =
     (case jam_for_current_thread t s of (j, s) \<Rightarrow>
        (case jam_calls ts s of (uses, s) \<Rightarrow> ((t, j) # uses, s)))"

definition jam_inv :: "'t jam_service \<Rightarrow> bool" where
  "jam_inv s \<longleftrightarrow> distinct (map fst (jam_locals s)) \<and> \<not> jam_injected s
     \<and> distinct (map snd (jam_locals s)) \<and> set (map snd (jam_locals s)) = {..<jam_opened s}"

lemma jam_inv_step:
  assumes "jam_inv s" and "jam_for_current_thread t s = (j, s')"
  shows "jam_inv s' \<and> set (jam_locals s) \<subseteq> set (jam_locals s') \<and> (t, j) \<in> set (jam_locals s')
    \<and> fst ` set (jam_locals s') = insert t (fst ` set (jam_locals s))"
proof (cases "map_of (jam_locals s) t")
  case None
  then have "t \<notin> fst ` set (jam_locals s)" by (simp add: map_of_eq_None_iff)
  moreover have "jam_opened s \<notin> snd ` set (jam_locals s)" using assms(1) by (auto simp: jam_inv_def)
  moreover have "snd p < jam_opened s" if "p \<in> set (jam_locals s)" for p
    using assms(1) that unfolding jam_inv_def set_map by (metis imageI lessThan_iff)
  ultimately show ?thesis using assms None
    by (auto simp: jam_for_current_thread_def jam_inv_def lessThan_Suc less_SucI)
next
  case (Some i)
  then have "t \<in> fst ` set (jam_locals s)" by (force dest: map_of_SomeD)
  then show ?thesis using assms Some by (auto simp: jam_for_current_thread_def dest: map_of_SomeD)
qed

lemma jam_calls_inv:
  "jam_inv s \<Longrightarrow> jam_calls ts s = (uses, s') \<Longrightarrow>
     jam_inv s' \<and> set uses \<union> set (jam_locals s) \<subseteq> set (jam_locals s')
     \<and> fst ` set (jam_locals s') = set ts \<union> fst ` set (jam_locals s)"
proof (induction ts arbitrary: s uses s')
  case (Cons t ts)
  obtain j s1 where j: "jam_for_current_thread t s = (j, s1)" by fastforce
  obtain us s2 where u: "jam_calls ts s1 = (us, s2)" by fastforce
  have out: "uses = (t, j) # us" "s' = s2" using Cons.prems(2) j u by auto
  note step = jam_inv_step [OF Cons.prems(1) j]
  show ?case using Cons.IH [OF _ u] step by (auto simp: out)
qed simp

text \<open>No connection is ever used by two threads, a thread keeps its own, and only threads that look something up open one.\<close>

theorem connections_stay_on_their_thread:
  assumes "jam_calls ts (new_jam_service False t0) = (uses, s)"
  shows "(\<forall>(t, i) \<in> set uses. \<forall>(u, j) \<in> set uses. i = j \<longleftrightarrow> t = u) \<and> jam_opened s = card (insert t0 (set ts))"
proof -
  have "jam_inv (new_jam_service False t0)" by (auto simp: jam_inv_def new_jam_service_def)
  from jam_calls_inv [OF this assms] have inv: "jam_inv s" and sub: "set uses \<subseteq> set (jam_locals s)"
    and threads: "fst ` set (jam_locals s) = insert t0 (set ts)" by (auto simp: new_jam_service_def)
  have fsts: "inj_on fst (set (jam_locals s))" "inj_on snd (set (jam_locals s))" using inv by (auto simp: jam_inv_def distinct_map)
  have "card (snd ` set (jam_locals s)) = jam_opened s" using inv by (simp add: jam_inv_def)
  then have "jam_opened s = card (insert t0 (set ts))" using fsts threads by (metis card_image)
  moreover have "i = j \<longleftrightarrow> t = u" if "(t, i) \<in> set uses" "(u, j) \<in> set uses" for t u i j
    using that sub fsts unfolding inj_on_def by (metis fst_conv snd_conv subsetD)
  ultimately show ?thesis by blast
qed

text \<open>An object given by a test is the one every thread uses.\<close>

lemma injected_is_shared:
  "jam_injected s \<Longrightarrow> \<forall>p \<in> set (jam_locals s). snd p = 0 \<Longrightarrow> jam_calls ts s = (uses, s') \<Longrightarrow> \<forall>p \<in> set uses. snd p = 0"
proof (induction ts arbitrary: s uses s')
  case (Cons t ts)
  obtain j s1 where j: "jam_for_current_thread t s = (j, s1)" by fastforce
  obtain us s2 where u: "jam_calls ts s1 = (us, s2)" by fastforce
  have "jam_injected s1 \<and> (\<forall>p \<in> set (jam_locals s1). snd p = 0) \<and> j = 0"
    using j Cons.prems(1,2) by (auto simp: jam_for_current_thread_def dest!: map_of_SomeD split: option.splits)
  then show ?case using Cons.IH [OF _ _ u] Cons.prems(3) j u by auto
qed simp

end
