(* ===== verification/App.thy ===== *)
theory App
  imports Api ConfigProperties
begin

text \<open>
  The rest of \<^verbatim>\<open>api/app.py\<close> and \<^verbatim>\<open>main.py\<close>: the body of a 422, the published OpenAPI document with the
  messages of the WebSocket, how the launcher ends, which proxies it trusts; and the bodies and answers of the
  login routes (\<^verbatim>\<open>api/schemas.py\<close>, \<^verbatim>\<open>api/routers/auth.py\<close>).  FastAPI's own document and Pydantic's schema of a
  model are arguments.
\<close>

datatype json = JNull | JBool bool | JNum rat | JStr ustr | JArr "json list" | JObj "(ustr \<times> json) list"

section \<open>The body of a 422\<close>

text \<open>An error of Pydantic; \<open>ve_input\<close> is the submitted value.\<close>

record validation_error =
  ve_loc :: "json list"
  ve_msg :: ustr
  ve_type :: ustr
  ve_input :: json
  ve_ctx :: "json option"

definition validation_error_body :: "validation_error list \<Rightarrow> json" where
  "validation_error_body errors =
     JObj [(lit ''detail'',
       JArr (map (\<lambda>e. JObj [(lit ''loc'', JArr (ve_loc e)), (lit ''msg'', JStr (ve_msg e)), (lit ''type'', JStr (ve_type e))]) errors))]"

text \<open>Nothing that was submitted shows in the answer.\<close>

lemma validation_error_hides_input:
  "length errors = length errors' \<Longrightarrow>
   (\<forall>(e, e') \<in> set (zip errors errors'). ve_loc e = ve_loc e' \<and> ve_msg e = ve_msg e' \<and> ve_type e = ve_type e') \<Longrightarrow>
     validation_error_body errors = validation_error_body errors'"
  by (induction errors errors' rule: list_induct2) (auto simp: validation_error_body_def)

section \<open>The OpenAPI document\<close>

definition set_default :: "ustr \<Rightarrow> json \<Rightarrow> (ustr \<times> json) list \<Rightarrow> (ustr \<times> json) list" where
  "set_default k v d = (if k \<in> fst ` set d then d else d @ [(k, v)])"

definition entries :: "ustr \<Rightarrow> (ustr \<times> json) list \<Rightarrow> (ustr \<times> json) list" where
  "entries k d = (case map_of d k of Some (JObj es) \<Rightarrow> es | _ \<Rightarrow> [])"

text \<open>One turn of the loop over the message models: their definitions are kept when already known, the model itself is not.\<close>

definition add_model :: "ustr \<times> (ustr \<times> json) list \<Rightarrow> (ustr \<times> json) list \<Rightarrow> (ustr \<times> json) list" where
  "add_model p comps =
     (case p of (name, message) \<Rightarrow>
        AList.update name (JObj (AList.delete (lit ''$defs'') message))
          (fold (\<lambda>(n, d). set_default n d) (entries (lit ''$defs'') message) comps))"

definition add_models :: "(ustr \<times> (ustr \<times> json) list) list \<Rightarrow> (ustr \<times> json) list \<Rightarrow> (ustr \<times> json) list" where
  "add_models models sch =
     (let sch = set_default (lit ''components'') (JObj []) sch;
          components = set_default (lit ''schemas'') (JObj []) (entries (lit ''components'') sch);
          schemas = fold add_model models (entries (lit ''schemas'') components)
      in AList.update (lit ''components'') (JObj (AList.update (lit ''schemas'') (JObj schemas) components)) sch)"

text \<open>\<^verbatim>\<open>custom_openapi\<close>; \<open>cached\<close> is \<^verbatim>\<open>app.openapi_schema\<close>, which counts only when it is not empty.\<close>

definition custom_openapi ::
  "(ustr \<times> (ustr \<times> json) list) list \<Rightarrow> (ustr \<times> json) list \<Rightarrow> (ustr \<times> json) list option
     \<Rightarrow> (ustr \<times> json) list \<times> (ustr \<times> json) list option" where
  "custom_openapi models sch cached =
     (case cached of
        Some (e # es) \<Rightarrow> (e # es, cached)
      | _ \<Rightarrow> (add_models models sch, Some (add_models models sch)))"

definition published :: "(ustr \<times> json) list \<Rightarrow> (ustr \<times> json) list" where
  "published sch = entries (lit ''schemas'') (entries (lit ''components'') sch)"

lemma map_of_set_default: "map_of (set_default k v d) j = (if j = k \<and> map_of d k = None then Some v else map_of d j)"
proof -
  have "k \<in> fst ` set d \<longleftrightarrow> map_of d k \<noteq> None" by (metis map_of_eq_None_iff)
  then show ?thesis by (auto simp: set_default_def map_add_def split: option.splits)
qed

lemma fold_set_default:
  "map_of (fold (\<lambda>(n, d). set_default n d) ds comps) j = (case map_of comps j of Some x \<Rightarrow> Some x | None \<Rightarrow> map_of ds j)"
  by (induction ds arbitrary: comps) (auto simp: map_of_set_default split: option.splits)

lemma map_of_add_model:
  "map_of (add_model (name, message) comps) j =
     (if j = name then Some (JObj (AList.delete (lit ''$defs'') message))
      else case map_of comps j of Some x \<Rightarrow> Some x | None \<Rightarrow> map_of (entries (lit ''$defs'') message) j)"
  by (simp add: add_model_def update_conv' fold_set_default)

lemma entries_update [simp]: "entries k (AList.update k (JObj es) d) = es"
  by (simp add: entries_def update_conv')

lemma published_eq: "published (add_models models sch) = fold add_model models (published sch)"
proof -
  have d: "entries k (set_default k (JObj []) xs) = entries k xs" for k xs
    by (auto simp: entries_def map_of_set_default split: option.splits)
  show ?thesis by (simp add: published_def add_models_def Let_def d)
qed

lemma fold_models_other:
  "j \<notin> fst ` set models \<Longrightarrow> map_of comps j = Some x \<Longrightarrow> map_of (fold add_model models comps) j = Some x"
  by (induction models arbitrary: comps) (auto simp: map_of_add_model)

lemma fold_models_own:
  "distinct (map fst models) \<Longrightarrow> (name, message) \<in> set models \<Longrightarrow>
     map_of (fold add_model models comps) name = Some (JObj (AList.delete (lit ''$defs'') message))"
proof (induction models arbitrary: comps)
  case (Cons p ps)
  show ?case
  proof (cases "p = (name, message)")
    case True
    then show ?thesis using Cons.prems(1) by (simp add: fold_models_other map_of_add_model)
  next
    case False
    then show ?thesis using Cons by simp
  qed
qed simp

lemma fold_models_defs:
  "(name, message) \<in> set models \<Longrightarrow> map_of (entries (lit ''$defs'') message) j \<noteq> None \<Longrightarrow> map_of (fold add_model models comps) j \<noteq> None"
proof (induction models arbitrary: comps)
  case (Cons p ps)
  have keep: "map_of c j \<noteq> None \<Longrightarrow> map_of (fold add_model qs c) j \<noteq> None" for qs c
    by (induction qs arbitrary: c) (auto simp: map_of_add_model split: option.splits)
  show ?case
  proof (cases "p = (name, message)")
    case True
    then show ?thesis using Cons.prems(2) keep [of "add_model p comps" ps] by (auto simp: map_of_add_model split: option.splits)
  next
    case False
    then show ?thesis using Cons by simp
  qed
qed simp

text \<open>
  The document has every WebSocket message under its name, a definition for every name a message refers to, and
  the components of the HTTP routes as they were; it is computed once.
\<close>

theorem document_has_messages:
  assumes "distinct (map fst models)" and "custom_openapi models sch None = (doc, cached)"
  shows "(\<forall>(name, message) \<in> set models. map_of (published doc) name = Some (JObj (AList.delete (lit ''$defs'') message))
        \<and> (\<forall>j. map_of (entries (lit ''$defs'') message) j \<noteq> None \<longrightarrow> map_of (published doc) j \<noteq> None))
    \<and> (\<forall>j x. j \<notin> fst ` set models \<and> map_of (published sch) j = Some x \<longrightarrow> map_of (published doc) j = Some x)
    \<and> custom_openapi models sch cached = (doc, cached)"
proof -
  have doc: "doc = add_models models sch" "cached = Some doc" using assms(2) by (auto simp: custom_openapi_def)
  have "fst ` set doc \<noteq> {}" by (auto simp: doc(1) add_models_def Let_def dom_update)
  then have "custom_openapi models sch cached = (doc, cached)" by (cases doc) (auto simp: doc(2) custom_openapi_def)
  then show ?thesis
    using fold_models_own [OF assms(1)] fold_models_defs fold_models_other
    by (auto simp: doc(1) published_eq split: prod.splits)
qed

section \<open>The launcher\<close>

lemma strip_subset: "set (strip x) \<subseteq> set x"
  by (auto simp: strip_def dest!: set_dropWhileD)

text \<open>\<^verbatim>\<open>main\<close>: an invalid configuration ends with status 2, an error that is no \<^verbatim>\<open>ConfigError\<close> with a traceback.\<close>

datatype launch = Exits int | Crashes | Serves uvicorn_config

definition main :: "config_error + service_config \<Rightarrow> launch" where
  "main loaded =
     (case loaded of
        Inr config \<Rightarrow> Serves (build_server_config config)
      | Inl (Uncaught e) \<Rightarrow> Crashes
      | Inl _ \<Rightarrow> Exits 2)"

lemma split_join_commas: "xs \<noteq> [] \<Longrightarrow> \<forall>x \<in> set xs. 44 \<notin> set x \<Longrightarrow> split_on 44 (join_commas xs) = xs"
proof (induction xs rule: join_commas.induct)
  case (2 x)
  have "split_on 44 x = [x]" if "44 \<notin> set x" for x :: ustr using that by (induction x) auto
  then show ?case using 2 by simp
next
  case (3 x y xs)
  have "split_on 44 (x @ 44 # r) = x # split_on 44 r" if "44 \<notin> set x" for x r :: ustr using that by (induction x) auto
  then show ?case using 3 by simp
qed simp

text \<open>
  A server that starts trusts the addresses that are configured and no other: without any it ignores the
  headers of proxies, and otherwise its list reads back as the configured entries, none of which is every address.
\<close>

theorem proxies_trusted_are_configured:
  assumes "load_service_config fs ip cfg = Inr config" and "main (Inr config) = Serves uv"
  shows "case uv_forwarded_allow_ips uv of
      None \<Rightarrow> \<not> uv_proxy_headers uv \<and> trusted_proxies cfg = []
    | Some ips \<Rightarrow> uv_proxy_headers uv \<and> split_on 44 ips = trusted_proxies cfg
        \<and> (\<forall>p \<in> set (split_on 44 ips). \<exists>n. ip p True = Some n \<and> 0 < n)"
proof -
  have v: "validate_service_config fs ip cfg = Inr []"
    using assms(1) by (auto simp: load_service_config_def and_then_Inr raise_as_Inr split: if_splits)
  have p: "srv_trusted_proxies (sc_server config) = trusted_proxies cfg"
    using assms(1) by (auto simp: load_service_config_def and_then_Inr split: if_splits)
  have "44 \<notin> set x" if "x \<in> set (trusted_proxies cfg)" for x
  proof -
    from that obtain w where "w \<in> set (split_on 44 (get_string cfg ''server'' ''trusted_proxies'' []))" "x = strip w"
      by (auto simp: trusted_proxies_def comma_list_def)
    then show ?thesis using split_on_no_sep strip_subset by fastforce
  qed
  then have "trusted_proxies cfg \<noteq> [] \<Longrightarrow> split_on 44 (join_commas (trusted_proxies cfg)) = trusted_proxies cfg"
    by (simp add: split_join_commas)
  moreover have "\<forall>x \<in> set (trusted_proxies cfg). \<exists>n. ip x True = Some n \<and> 0 < n"
    using v unfolding validate_service_config_fine list_all_iff trusted_proxy_fine by (auto split: option.splits)
  ultimately show ?thesis using assms(2) by (auto simp: main_def build_server_config_def Let_def p)
qed

section \<open>The login routes\<close>

text \<open>The bounds of the request bodies, and of the first message of a stream.\<close>

definition login_request_ok :: "ustr \<Rightarrow> ustr \<Rightarrow> bool" where
  "login_request_ok username password \<longleftrightarrow> 1 \<le> length username \<and> length username \<le> 256
     \<and> 1 \<le> length password \<and> length password \<le> 1024"

definition token_request_ok :: "ustr \<Rightarrow> bool" where
  "token_request_ok tok \<longleftrightarrow> 1 \<le> length tok"

record 'tok token_response =
  tr_access_token :: 'tok
  tr_refresh_token :: 'tok
  tr_token_type :: ustr
  tr_expires_in :: int

definition tokens_response :: "'tok token_pair \<Rightarrow> 'tok token_response" where
  "tokens_response p =
     \<lparr>tr_access_token = access_token p, tr_refresh_token = refresh_token p, tr_token_type = token_kind p, tr_expires_in = expires_in p\<rparr>"

text \<open>The status and the headers of a login; the body of a success is the token response.\<close>

fun login_answer :: "'tok login_result \<Rightarrow> nat \<times> (ustr \<times> ustr) list \<times> 'tok token_response option" where
  "login_answer (TooManyRequests wait) = (429, [(lit ''Retry-After'', dec (nat wait))], None)"
| "login_answer InvalidCredentials = (401, [(lit ''WWW-Authenticate'', lit ''Bearer'')], None)"
| "login_answer (Tokens p) = (200, [], Some (tokens_response p))"

text \<open>A whole login without another one in between: the body, the throttle, the password check.\<close>

definition login_route ::
  "(ustr \<Rightarrow> ustr \<Rightarrow> bool option) \<Rightarrow> ustr \<Rightarrow> 'tok jwt \<Rightarrow> auth_settings \<Rightarrow> instant \<Rightarrow> fresh_ids \<Rightarrow> rat \<Rightarrow> rat \<Rightarrow> rat
     \<Rightarrow> ustr option \<Rightarrow> ustr \<Rightarrow> ustr \<Rightarrow> throttle \<Rightarrow> (nat \<times> (ustr \<times> ustr) list \<times> 'tok token_response option) \<times> throttle" where
  "login_route verify dummy jwt cfg now fresh clock later latest host username password th =
     (if \<not> login_request_ok username password then ((422, [], None), th)
      else (case login_begin clock later latest (client_host host) th of
              (Some res, th) \<Rightarrow> (login_answer res, th)
            | (None, th) \<Rightarrow>
                (case login_finish jwt cfg now fresh (verify_credentials verify cfg dummy username password) (client_host host) th of
                   (res, th) \<Rightarrow> (login_answer res, th))))"

text \<open>The wait that a throttled client is told is a number of whole seconds, none below zero.\<close>

lemma throttled_wait: "fst (login_begin clock later latest client th) = Some (TooManyRequests n) \<Longrightarrow> 0 \<le> n"
  by (auto simp: login_begin_def retry_after_def split: prod.splits if_splits)

text \<open>
  What a login is answered: 422 for a body out of bounds; otherwise 429 exactly while the client is throttled, whatever the
  password; otherwise tokens exactly for the configured user with a password that the hasher verifies.
\<close>

theorem login_answered:
  assumes "login_route verify dummy jwt cfg now fresh clock later latest host username password th = ((code, headers, body), th')"
  shows "code = (if \<not> login_request_ok username password then 422
           else if fst (retry_after clock later (client_host host) th) \<noteq> None then 429
           else if username = auth_username cfg \<and> verify password (password_hash cfg) = Some True then 200 else 401)
    \<and> (code = 200 \<longleftrightarrow> body \<noteq> None)
    \<and> (code = 200 \<longrightarrow> body = Some (tokens_response (issue_tokens jwt cfg now fresh username None)) \<and> remembered th' (client_host host) = [])"
proof (cases "login_request_ok username password")
  case False
  then show ?thesis using assms by (auto simp: login_route_def)
next
  case ok: True
  obtain w th1 where r: "retry_after clock later (client_host host) th = (w, th1)" by fastforce
  have valid: "verify_credentials verify cfg dummy username password
      \<longleftrightarrow> username = auth_username cfg \<and> verify password (password_hash cfg) = Some True"
    by (auto simp: verify_credentials_def Let_def split: option.splits)
  show ?thesis
  proof (cases w)
    case (Some x)
    then show ?thesis using assms ok r by (auto simp: login_route_def login_begin_def)
  next
    case None
    then show ?thesis using assms ok r
      by (auto simp: login_route_def login_begin_def login_finish_def valid reset_remembered split: if_splits)
  qed
qed

end
