(* ===== verification/Documented.thy ===== *)
theory Documented
  imports Service App
begin

text \<open>
  The documented error responses (\<^verbatim>\<open>api/responses.py\<close>) and the statuses that each route declares, compared with the
  statuses it can answer.  FastAPI adds a 422 to every route that has a body or a parameter of the path.
\<close>

section \<open>The declared statuses\<close>

text \<open>A dictionary of responses, by status, with its description.\<close>

type_synonym responses = "(nat \<times> string) list"

definition UNAUTHORIZED :: responses where
  "UNAUTHORIZED = [(401, ''Missing, invalid or expired access token.'')]"

definition NOT_FOUND :: responses where
  "NOT_FOUND = [(404, ''The item or task does not exist.'')]"

definition CONFLICT :: responses where
  "CONFLICT = [(409, ''The request conflicts with the current state (for example a stale card).'')]"

definition TOO_MANY_REQUESTS :: responses where
  "TOO_MANY_REQUESTS = [(429, ''Too many failed logins; wait for the number of seconds in Retry-After.'')]"

definition UNAVAILABLE :: responses where
  "UNAVAILABLE = [(503, ''Content has not been built, or content.db cannot be used.'')]"

text \<open>What each router declares for all of its routes.\<close>

definition admin_router :: responses where "admin_router = UNAUTHORIZED"

definition content_router :: responses where "content_router = UNAUTHORIZED"

definition reviews_router :: responses where "reviews_router = UNAUTHORIZED @ UNAVAILABLE"

definition settings_router :: responses where "settings_router = UNAUTHORIZED"

definition stats_router :: responses where "stats_router = UNAUTHORIZED @ UNAVAILABLE"

text \<open>With what each route adds.\<close>

fun declared_responses :: "protected_request \<Rightarrow> responses" where
  "declared_responses Config_check = admin_router"
| "declared_responses (Start_build dry) = admin_router @ CONFLICT"
| "declared_responses Latest_build = admin_router @ NOT_FOUND"
| "declared_responses (Get_build i) = admin_router @ NOT_FOUND"
| "declared_responses Content_summary = content_router"
| "declared_responses Next_review = reviews_router"
| "declared_responses (Answer_review k g expected duration) = reviews_router @ NOT_FOUND @ CONFLICT"
| "declared_responses Get_settings = settings_router"
| "declared_responses (Update_settings settings) = settings_router"
| "declared_responses Stats_summary = stats_router"

fun success_status :: "protected_request \<Rightarrow> nat" where
  "success_status (Start_build dry) = 202"
| "success_status _ = 200"

text \<open>Routes with a body or a parameter.\<close>

fun has_input :: "protected_request \<Rightarrow> bool" where
  "has_input (Start_build dry) = True"
| "has_input (Get_build i) = True"
| "has_input (Answer_review k g expected duration) = True"
| "has_input (Update_settings settings) = True"
| "has_input _ = False"

definition declared_statuses :: "protected_request \<Rightarrow> nat list" where
  "declared_statuses req = success_status req # map fst (declared_responses req) @ (if has_input req then [422] else [])"

definition refresh_statuses :: "nat list" where
  "refresh_statuses = [200] @ map fst UNAUTHORIZED @ [422]"

definition login_statuses :: "nat list" where
  "login_statuses = [200] @ map fst (UNAUTHORIZED @ TOO_MANY_REQUESTS) @ [422]"

definition logout_statuses :: "nat list" where
  "logout_statuses = [204, 422]"

definition health_statuses :: "nat list" where
  "health_statuses = [200, 503]"

lemmas response_defs = admin_router_def content_router_def reviews_router_def settings_router_def stats_router_def UNAUTHORIZED_def NOT_FOUND_def CONFLICT_def
  TOO_MANY_REQUESTS_def UNAVAILABLE_def

fun status_of :: "'tok reply \<Rightarrow> nat" where
  "status_of (Reply code body) = code"
| "status_of (Problem code) = code"

section \<open>Every answer is declared\<close>

lemma session_status:
  "status_of (reply_of body res) \<in> {200, 503, 404, 409, 500}"
proof (cases res)
  case (Inl e)
  then show ?thesis by (cases e) (simp_all add: reply_of_def)
qed (simp add: reply_of_def)

lemma session_reply_cases: "reply_of body res \<noteq> Problem 500 \<Longrightarrow> status_of (reply_of body res) \<noteq> 500"
  by (auto simp: reply_of_def split: sum.splits)

text \<open>\<^verbatim>\<open>next\<close> and the statistics ask for no item, so they answer no 404 or 409.\<close>

lemma next_status:
  assumes "server_ok s" and "runs_in rc env" and "next_review_route env s = (reply, s')"
  shows "status_of reply \<in> {200, 503}"
proof (cases "usable_content (svc_ctx s)")
  case None
  have "gate_sound (svc_ctx s, srv_verified s)" using assms(1) by (simp add: server_ok_def)
  then obtain e where "gate_repository (svc_ctx s) (srv_verified s) = (Inl e, srv_verified s)" using gate_usable None by fastforce
  then show ?thesis using assms(3) by (auto simp: next_review_route_def next_card_def reply_of_def)
next
  case (Some cdb)
  then show ?thesis using next_answered [OF assms(1,2) Some] assms(3) by auto
qed

lemma stats_status:
  assumes "server_ok s" and "stats_route env s = (reply, s')"
  shows "status_of reply \<in> {200, 503}"
proof -
  have gate: "gate_sound (svc_ctx s, srv_verified s)" and db: "db_ok (srv_progress s)" using assms(1) by (auto simp: server_ok_def)
  show ?thesis
  proof (cases "usable_content (svc_ctx s)")
    case None
    then obtain e where "gate_repository (svc_ctx s) (srv_verified s) = (Inl e, srv_verified s)" using gate_usable [OF gate] by auto
    then show ?thesis using assms(2) by (auto simp: stats_route_def review_stats_def reply_of_def)
  next
    case (Some cdb)
    then obtain repo where repo: "gate_repository (svc_ctx s) (srv_verified s) = (Inr repo, Some (repo_handle repo))" "repo_db repo = Inr cdb"
      using gate_usable [OF gate] by auto
    obtain st where "stats_in (env_tz (ae_session env)) (ae_now env) (stored_settings (env_decode (ae_session env)) (srv_progress s)) cdb (srv_progress s) = Inr st"
      using stats_total [OF db settings_always_ok] by blast
    then show ?thesis using assms(2) repo by (auto simp: stats_route_def review_stats_def reply_of_def)
  qed
qed

lemma answer_status:
  assumes "server_ok s" and "runs_in rc env" and "fsrs_documented rc" and "answer_route env k g expected duration s = (reply, s')"
  shows "status_of reply \<in> {200, 503, 404, 409}"
proof -
  have "reply \<noteq> Problem 500" using answer_sound [OF assms] by (simp add: sound_reply_def)
  moreover obtain res where "reply = reply_of Counts_body res" using assms(4) by (auto simp: answer_route_def split: prod.splits)
  ultimately show ?thesis using session_status [of Counts_body res] session_reply_cases [of Counts_body res] by auto
qed

lemma handle_declared:
  assumes "server_ok s" and "runs_in rc env" and "fsrs_documented rc" and "handle env req s = (reply, s')"
  shows "status_of reply \<in> set (declared_statuses req)"
proof (cases req)
  case (Answer_review k g expected duration)
  then show ?thesis using answer_status [OF assms(1-3)] assms(4) by (fastforce simp: declared_statuses_def response_defs)
next
  case Next_review
  then show ?thesis using next_status [OF assms(1,2)] assms(4) by (fastforce simp: declared_statuses_def response_defs)
next
  case Stats_summary
  then show ?thesis using stats_status [OF assms(1)] assms(4) by (fastforce simp: declared_statuses_def response_defs)
qed (use assms(4) in \<open>auto simp: route_defs build_route_def declared_statuses_def response_defs split: sum.splits prod.splits option.splits\<close>)

lemma body_422: "\<not> body_ok req \<Longrightarrow> 422 \<in> set (declared_statuses req)"
  by (cases req) (simp_all add: declared_statuses_def)

lemma declares_401: "401 \<in> set (declared_statuses req)"
  by (cases req) (simp_all add: declared_statuses_def response_defs)

lemma login_declared:
  "fst (fst (login_route verify dummy jwt cfg now fresh clock later latest host username password th)) \<in> set login_statuses"
proof -
  obtain res th' where r: "login_route verify dummy jwt cfg now fresh clock later latest host username password th = (res, th')"
    by fastforce
  obtain code headers body where "res = (code, headers, body)" by (metis prod_cases3)
  with r have "login_route verify dummy jwt cfg now fresh clock later latest host username password th = ((code, headers, body), th')"
    by simp
  from login_answered [OF this] this show ?thesis by (auto simp: login_statuses_def response_defs)
qed

text \<open>The answer of a logout does not tell whether its token was valid, except when the revocation cannot be written.\<close>

lemma logout_tells:
  "fst (logout_route env tok s) =
     (if \<not> ae_write_ok env \<and> (\<exists>c. decode_token (ae_jwt env) (svc_auth s) (store_is_revoked (svc_store s)) (ae_now env) tok Auth.Refresh = Inr c)
      then Problem 500 else Reply 204 Empty_body)"
  by (auto simp: logout_route_def logout_session_def revoke_session_def store_revoke_def split: sum.splits)

section \<open>Properties\<close>



end
