(* ===== verification/ConcurrentAnswers.thy ===== *)
theory ConcurrentAnswers
  imports ApiProperties
begin

text \<open>
  \<^verbatim>\<open>ReviewSessionOrchestrator.answer\<close> (\<^verbatim>\<open>orchestration/review_session.py\<close>) as it runs beside other requests: a
  coroutine that gives up control at each of its awaits, while other answers, settings that are saved and content that
  is rebuilt change what it reads next.  \<open>proceed\<close> is the code between two awaits, \<open>desk_step\<close> lets any call
  in flight go on; what \<open>answer\<close> computes in one piece is the run of a call that nothing disturbs.  A transaction of the
  store is one step: it commits or changes nothing; a database that stays locked or cannot be opened is left out.
\<close>

section \<open>A call between its awaits\<close>

record answer_call =
  call_key :: card_key
  call_grade :: card_grade
  call_expected :: "instant option"
  call_duration :: "int option"
  call_now :: instant

text \<open>Where a call is: what it has read so far.\<close>

datatype answer_phase =
  Arrived
| Gated content_repo
| Found content_db
| Configured content_db review_settings
| Decided content_db review_settings card_schedule card_schedule
| Written content_db review_settings
| Surveyed content_db review_settings instant instant states
| Counted content_db review_settings states "(item_type \<times> int) list"
| Finished "session_error + review_counts"

text \<open>From the card that was read to the schedules before and after the review.\<close>

definition decide ::
  "'r session_env \<Rightarrow> answer_call \<Rightarrow> review_settings \<Rightarrow> progress_db \<Rightarrow> session_error + card_schedule \<times> card_schedule" where
  "decide env c s db =
     (let sch = env_scheduler env s in
      and_then (raise_as SRepo (get_card db (call_key c))) (\<lambda>st.
      and_then (case st of Some sc \<Rightarrow> Inr (stored_schedule sc) | None \<Rightarrow> raise_as SNaive (initial_of sch (Aware (call_now c)))) (\<lambda>before.
        if sched_last_review before \<noteq> call_expected c then Inl (SStale (call_key c))
        else and_then (raise_as SNaive (schedule_of sch before (call_grade c) (Aware (call_now c)))) (\<lambda>after.
          Inr (before, after)))))"

text \<open>The window and the states that \<^verbatim>\<open>_plan\<close> begins with, and the plan it ends with.\<close>

definition survey ::
  "'r session_env \<Rightarrow> instant \<Rightarrow> review_settings \<Rightarrow> progress_db \<Rightarrow> session_error + (instant \<times> instant) \<times> states" where
  "survey env now s db =
     and_then (raise_as SDay (study_day_window (Aware now) (rollover_hour s) (env_tz env))) (\<lambda>window.
     and_then (raise_as SRepo (card_states db)) (\<lambda>sts. Inr (window, sts)))"

definition plan_from ::
  "'r session_env \<Rightarrow> content_db \<Rightarrow> review_settings \<Rightarrow> states \<Rightarrow> (item_type \<times> int) list \<Rightarrow> (item_type \<times> int) list \<Rightarrow> session_plan" where
  "plan_from env cdb s sts introduced due =
     (let kana_entries = (if gate_kanji (kana_gate s) \<or> gate_vocab (kana_gate s) then catalog_entries cdb KANA else []);
          avail = type_availability s kana_entries sts
      in \<lparr>plan_settings = s, plan_introduced = introduced, plan_due = due,
          plan_new = map (\<lambda>ty. (ty, select_new env cdb s sts introduced avail ty)) TYPE_ORDER\<rparr>)"

fun proceed ::
  "'r session_env \<Rightarrow> app_context \<Rightarrow> answer_call \<Rightarrow> answer_phase \<times> nat option \<times> progress_db \<Rightarrow> answer_phase \<times> nat option \<times> progress_db" where
  "proceed env ctx c (Arrived, v, db) =
     (case gate_repository ctx v of
        (Inl e, v) \<Rightarrow> (Finished (Inl (SNotReady e)), v, db)
      | (Inr repo, v) \<Rightarrow> (Gated repo, v, db))"
| "proceed env ctx c (Gated repo, v, db) =
     ((case repo_db repo of
         Inl e \<Rightarrow> Finished (Inl e)
       | Inr cdb \<Rightarrow> if load_item cdb (call_key c) = None then Finished (Inl (SUnknownItem (call_key c))) else Found cdb), v, db)"
| "proceed env ctx c (Found cdb, v, db) = (Configured cdb (stored_settings (env_decode env) db), v, db)"
| "proceed env ctx c (Configured cdb s, v, db) =
     ((case decide env c s db of Inl e \<Rightarrow> Finished (Inl e) | Inr (b, a) \<Rightarrow> Decided cdb s b a), v, db)"
| "proceed env ctx c (Decided cdb s b a, v, db) =
     (case raise_as record_error (record_review (call_key c) b a (call_grade c) REVIEW_MODE (call_duration c) db) of
        Inl e \<Rightarrow> (Finished (Inl e), v, db)
      | Inr db' \<Rightarrow> (Written cdb s, v, db'))"
| "proceed env ctx c (Written cdb s, v, db) =
     ((case survey env (call_now c) s db of
         Inl e \<Rightarrow> Finished (Inl e)
       | Inr ((start, stop), sts) \<Rightarrow> Surveyed cdb s start stop sts), v, db)"
| "proceed env ctx c (Surveyed cdb s start stop sts, v, db) =
     ((case raise_as SRepo (new_cards_introduced db start stop) of
         Inl e \<Rightarrow> Finished (Inl e)
       | Inr introduced \<Rightarrow> Counted cdb s sts introduced), v, db)"
| "proceed env ctx c (Counted cdb s sts introduced, v, db) =
     (Finished (and_then (raise_as SRepo (due_counts db (call_now c))) (\<lambda>due.
        Inr (plan_counts (plan_from env cdb s sts introduced due)))), v, db)"
| "proceed env ctx c (Finished r, v, db) = (Finished r, v, db)"

section \<open>Alone\<close>

lemma write_answer_split:
  "load_item cdb (call_key c) \<noteq> None \<Longrightarrow>
   write_answer env (call_now c) cdb (call_key c) (call_grade c) (call_expected c) (call_duration c) db =
     and_then (decide env c (stored_settings (env_decode env) db) db) (\<lambda>(b, a).
       raise_as record_error (record_review (call_key c) b a (call_grade c) REVIEW_MODE (call_duration c) db))"
  by (auto simp: write_answer_def decide_def Let_def and_then_def split: sum.split option.split)

lemma make_plan_split:
  "make_plan env now cdb s db =
     and_then (survey env now s db) (\<lambda>((start, stop), sts).
     and_then (raise_as SRepo (new_cards_introduced db start stop)) (\<lambda>introduced.
     and_then (raise_as SRepo (due_counts db now)) (\<lambda>due. Inr (plan_from env cdb s sts introduced due))))"
  by (auto simp: make_plan_def survey_def plan_from_def Let_def and_then_def split: sum.split)

lemma eight: "(f ^^ 8) x = f (f (f (f (f (f (f (f x)))))))"
  by (simp add: numeral_eq_Suc)

section \<open>Side by side\<close>

text \<open>The state the calls share, the calls in the order they arrived, and every time that was taken from the clock.\<close>

record desk =
  desk_ctx :: app_context
  desk_verified :: "nat option"
  desk_store :: progress_db
  desk_calls :: "(answer_call \<times> answer_phase) list"
  desk_times :: "instant list"

text \<open>Two calls never take the same time: the clock counts microseconds and is not set back.\<close>

inductive desk_step :: "'r session_env \<Rightarrow> desk \<Rightarrow> desk \<Rightarrow> bool" for env where
  arrives: "call_now c \<notin> set (desk_times d) \<Longrightarrow> times_fit env (call_now c) \<Longrightarrow>
    desk_step env d (d\<lparr>desk_calls := desk_calls d @ [(c, Arrived)], desk_times := call_now c # desk_times d\<rparr>)"
| goes_on: "i < length (desk_calls d) \<Longrightarrow> desk_calls d ! i = (c, p) \<Longrightarrow>
    proceed env (desk_ctx d) c (p, desk_verified d, desk_store d) = (p', v, db) \<Longrightarrow>
    desk_step env d (d\<lparr>desk_verified := v, desk_store := db, desk_calls := (desk_calls d)[i := (c, p')]\<rparr>)"
| saves: "desk_step env d (d\<lparr>desk_store := set_setting k x (desk_store d)\<rparr>)"
| rebuilds: "desk_step env d (d\<lparr>desk_ctx := refresh_content_repo found (desk_ctx d)\<rparr>)"

text \<open>A desk that opens: no calls yet, and the reviews in the store lie in the past.\<close>

definition opened_desk :: "desk \<Rightarrow> bool" where
  "opened_desk d \<longleftrightarrow> desk_calls d = [] \<and> db_ok (desk_store d) \<and> gate_sound (desk_ctx d, desk_verified d)
     \<and> (\<forall>k t. last_review_of (desk_store d) k = Some t \<longrightarrow> t \<in> set (desk_times d))"

inductive desk_reach :: "'r session_env \<Rightarrow> progress_db \<Rightarrow> desk \<Rightarrow> bool" for env db where
  opens: "opened_desk d \<Longrightarrow> desk_store d = db \<Longrightarrow> desk_reach env db d"
| later: "desk_reach env db d \<Longrightarrow> desk_step env d d' \<Longrightarrow> desk_reach env db d'"

text \<open>Whether the review of a call is in the store.\<close>

fun written :: "answer_phase \<Rightarrow> bool" where
  "written (Written cdb s) \<longleftrightarrow> True"
| "written (Surveyed cdb s start stop sts) \<longleftrightarrow> True"
| "written (Counted cdb s sts introduced) \<longleftrightarrow> True"
| "written (Finished (Inr cnts)) \<longleftrightarrow> True"
| "written p \<longleftrightarrow> False"

section \<open>What stays true\<close>

text \<open>Which calls have written, and the times that no write can bring any more: taken, and not by a call that may still write.\<close>

definition summary :: "(answer_call \<times> answer_phase) list \<Rightarrow> (answer_call \<times> bool) list" where
  "summary cs = map (\<lambda>(c, p). (c, written p)) cs"

definition spent :: "instant list \<Rightarrow> (answer_call \<times> bool) list \<Rightarrow> instant set" where
  "spent ts ss = {t \<in> set ts. \<forall>c. (c, False) \<in> set ss \<longrightarrow> call_now c \<noteq> t}"

definition old_token :: "instant set \<Rightarrow> answer_call \<Rightarrow> bool" where
  "old_token S c \<longleftrightarrow> (\<forall>t. call_expected c = Some t \<longrightarrow> t \<in> S)"

text \<open>What a call has computed is still right if its token is.\<close>

definition decided_ok :: "'r session_env \<Rightarrow> progress_db \<Rightarrow> answer_call \<Rightarrow> review_settings \<Rightarrow> card_schedule \<Rightarrow> card_schedule \<Rightarrow> bool" where
  "decided_ok env db c s b a \<longleftrightarrow>
     sched_last_review b = call_expected c
     \<and> schedule_of (env_scheduler env s) b (call_grade c) (Aware (call_now c)) = Inr a
     \<and> (if sched_state b = NEW then call_expected c = None else \<exists>u. call_expected c = Some u \<and> stamp_ok u)
     \<and> (last_review_of db (call_key c) = call_expected c \<longrightarrow> b = base_schedule db (call_key c) (call_now c))"

fun phase_ok :: "'r session_env \<Rightarrow> progress_db \<Rightarrow> instant set \<Rightarrow> answer_call \<Rightarrow> answer_phase \<Rightarrow> bool" where
  "phase_ok env db S c Arrived \<longleftrightarrow> True"
| "phase_ok env db S c (Gated repo) \<longleftrightarrow> (\<exists>cdb. repo_db repo = Inr cdb)"
| "phase_ok env db S c (Found cdb) \<longleftrightarrow> load_item cdb (call_key c) \<noteq> None"
| "phase_ok env db S c (Configured cdb s) \<longleftrightarrow> load_item cdb (call_key c) \<noteq> None \<and> settings_ok s"
| "phase_ok env db S c (Decided cdb s b a) \<longleftrightarrow> load_item cdb (call_key c) \<noteq> None \<and> settings_ok s
     \<and> old_token S c \<and> decided_ok env db c s b a"
| "phase_ok env db S c (Finished (Inl e)) \<longleftrightarrow>
     (\<exists>n. e = SNotReady n) \<or> e = SUnknownItem (call_key c) \<or> e = SStale (call_key c)"
| "phase_ok env db S c (Finished (Inr cnts)) \<longleftrightarrow> old_token S c \<and> last_review_of db (call_key c) \<noteq> call_expected c"
| "phase_ok env db S c (Written cdb s) \<longleftrightarrow> settings_ok s \<and> old_token S c \<and> last_review_of db (call_key c) \<noteq> call_expected c"
| "phase_ok env db S c (Surveyed cdb s start stop sts) \<longleftrightarrow> old_token S c \<and> last_review_of db (call_key c) \<noteq> call_expected c"
| "phase_ok env db S c (Counted cdb s sts introduced) \<longleftrightarrow> old_token S c \<and> last_review_of db (call_key c) \<noteq> call_expected c"

lemma phase_ok_written: "phase_ok env db S c p \<Longrightarrow> written p \<Longrightarrow> old_token S c \<and> last_review_of db (call_key c) \<noteq> call_expected c"
  by (cases p rule: written.cases) auto

lemma phase_ok_mono: "phase_ok env db S c p \<Longrightarrow> S \<subseteq> T \<Longrightarrow> phase_ok env db T c p"
  by (cases "(env, db, S, c, p)" rule: phase_ok.cases) (auto simp: old_token_def)

lemma same_cards: "card_of db' = card_of db \<Longrightarrow> phase_ok env db' S c p = phase_ok env db S c p"
  by (cases "(env, db, S, c, p)" rule: phase_ok.cases)
    (simp_all add: decided_ok_def last_review_of_def base_schedule_def)

text \<open>A write at a time that is not spent leaves what the other calls know right.\<close>

lemma phase_ok_write:
  assumes "phase_ok env db S c p" and "last_review_of db' k = Some t" and "t \<notin> S"
    and "\<And>j. j \<noteq> k \<Longrightarrow> card_of db' j = card_of db j" and "S \<subseteq> T"
  shows "phase_ok env db' T c p"
proof (cases "call_key c = k")
  case True
  have new: "old_token T c \<and> last_review_of db' (call_key c) \<noteq> call_expected c" if "old_token S c"
    using that True assms(2,3,5) by (auto simp: old_token_def)
  then have "decided_ok env db' c s b a" if "decided_ok env db c s b a" "old_token S c" for s b a
    using that unfolding decided_ok_def by blast
  then show ?thesis using assms(1) new
    by (cases "(env, db, S, c, p)" rule: phase_ok.cases) simp_all
next
  case False
  then have same: "last_review_of db' (call_key c) = last_review_of db (call_key c)"
      "base_schedule db' (call_key c) (call_now c) = base_schedule db (call_key c) (call_now c)"
    using assms(4) by (simp_all add: last_review_of_def base_schedule_def)
  then have "decided_ok env db' c s b a = decided_ok env db c s b a" for s b a
    unfolding decided_ok_def by simp
  then have "phase_ok env db' S c p"
    using assms(1) same(1) by (cases "(env, db, S, c, p)" rule: phase_ok.cases) simp_all
  then show ?thesis using assms(5) by (rule phase_ok_mono)
qed

section \<open>One step of a call\<close>

text \<open>A review that is based on another last review than the stored one is refused.\<close>

lemma record_stale:
  assumes ok: "db_ok db" and time: "sched_last_review a \<noteq> None" and moved: "last_review_of db k \<noteq> sched_last_review b"
    and base: "if sched_state b = NEW then sched_last_review b = None else \<exists>u. sched_last_review b = Some u \<and> stamp_ok u"
  shows "record_review k b a g mode dur db = Inl (StaleRow k)"
proof -
  show ?thesis
  proof (cases "sched_state b = NEW")
    case True
    then have "card_of db k \<noteq> None" using base moved by (simp add: last_review_of_def split: option.splits)
    then obtain sc where "card_of db k = Some sc" by blast
    then obtain r where "r \<in> set (card_rows db)" "row_key r = key_columns k" by (rule card_ofE [OF ok])
    then have "key_columns k \<in> set (map row_key (card_rows db))" by (metis image_eqI image_set)
    then show ?thesis using True time by (auto simp: record_review_def write_card_def)
  next
    case False
    then obtain u where u: "sched_last_review b = Some u" "stamp_ok u" using base by auto
    have "\<not> hit_row k (stamp u) r" if r: "r \<in> set (card_rows db)" for r
    proof
      assume hit: "hit_row k (stamp u) r"
      obtain sc t where sc: "stored r = Some sc" "sched_last_review (stored_schedule sc) = Some t"
          "row_last_review r = Some (stamp t)" "stamp_ok t" "row_key r = key_columns (stored_key sc)"
        using db_ok_rows [OF ok r] by (rule row_ok_stored)
      have "t = u" using hit sc(3,4) u(2) by (simp add: hit_row_def stamp_inject)
      moreover have "stored_key sc = k" using hit sc(5) by (simp add: hit_row_def)
      ultimately have "last_review_of db k = Some u"
        using card_of_row [OF ok r] sc(1,2) by (simp add: last_review_of_def the_card_def)
      then show False using moved u by simp
    qed
    then have "filter (hit_row k (stamp u)) (card_rows db) = []" by (simp add: filter_empty_conv)
    then show ?thesis using False u time
      by (auto simp: record_review_def write_card_def Let_def hit_row_def [abs_def])
  qed
qed

lemma map_sum_Pair: "map_sum f (Pair x) r = Inr (y, z) \<longleftrightarrow> y = x \<and> r = Inr z"
  by (cases r) auto

lemma naive_not_stale [simp]: "map_sum SNaive g r \<noteq> Inl (SStale k)"
  by (cases r) auto

lemma base_schedule_fresh:
  assumes "db_ok db"
  shows "if sched_state (base_schedule db k now) = NEW then last_review_of db k = None
    else \<exists>u. last_review_of db k = Some u \<and> stamp_ok u"
proof (cases "card_of db k")
  case None
  then show ?thesis by (simp add: base_schedule_def last_review_of_def new_schedule_def)
next
  case (Some sc)
  then show ?thesis using assms
    by (elim card_ofE row_ok_stored) (auto simp: base_schedule_def last_review_of_def)
qed

context study_session begin

lemma decide_eq:
  assumes "db_ok db"
  shows "decide env c s db =
    (if last_review_of db (call_key c) \<noteq> call_expected c then Inl (SStale (call_key c))
     else map_sum SNaive (Pair (base_schedule db (call_key c) (call_now c)))
       (schedule_of (env_scheduler env s) (base_schedule db (call_key c) (call_now c)) (call_grade c) (Aware (call_now c))))"
  using get_card_eq [OF assms, of "call_key c"] scheduling.initial_new [OF scheduler]
  by (cases "card_of db (call_key c)")
    (auto simp: decide_def Let_def base_schedule_def last_review_of_def new_schedule_def and_then_def raise_as_def split: sum.split)

lemma decide_decided_ok:
  assumes "db_ok db" and "decide env c s db = Inr (b, a)"
  shows "decided_ok env db c s b a" "last_review_of db (call_key c) = call_expected c"
proof -
  have *: "last_review_of db (call_key c) = call_expected c" "b = base_schedule db (call_key c) (call_now c)"
      "schedule_of (env_scheduler env s) b (call_grade c) (Aware (call_now c)) = Inr a"
    using assms(2) unfolding decide_eq [OF assms(1)]
    by (auto simp: map_sum_Pair split: if_splits)
  then show "last_review_of db (call_key c) = call_expected c" by simp
  show "decided_ok env db c s b a"
    using * base_schedule_fresh [OF assms(1), of "call_key c" "call_now c"]
    unfolding decided_ok_def by (metis base_last_review)
qed

lemma decide_error:
  assumes "db_ok db" and "decide env c s db = Inl e"
  shows "e = SStale (call_key c)"
  using assms(2) scheduling.schedule_total [OF scheduler, of s "base_schedule db (call_key c) (call_now c)" "call_grade c" "call_now c"]
  unfolding decide_eq [OF assms(1)] by (auto split: if_splits)

text \<open>The write compares with the card as it is now.\<close>

lemma decided_write:
  assumes ok: "db_ok db" and doc: documented and d: "decided_ok env db c s b a"
  shows "case record_review (call_key c) b a g mode dur db of
      Inr db' \<Rightarrow> last_review_of db (call_key c) = call_expected c \<and> b = base_schedule db (call_key c) (call_now c)
    | Inl e \<Rightarrow> e = StaleRow (call_key c) \<and> last_review_of db (call_key c) \<noteq> call_expected c"
proof (cases "last_review_of db (call_key c) = call_expected c")
  case True
  then have b: "b = base_schedule db (call_key c) (call_now c)" using d by (simp add: decided_ok_def)
  have "sched_last_review a \<noteq> None"
    using d scheduling.schedule_time [OF scheduler doc] unfolding decided_ok_def by fastforce
  moreover have "card_of db (call_key c) = None \<and> sched_state b = NEW \<or> (\<exists>sc. card_of db (call_key c) = Some sc \<and> b = stored_schedule sc)"
    by (auto simp: b base_schedule_def new_schedule_def split: option.split)
  ultimately obtain db' where "record_review (call_key c) b a g mode dur db = Inr db'"
    using record_succeeds [OF ok] by blast
  then show ?thesis using True b by simp
next
  case False
  have "sched_last_review a \<noteq> None"
    using d scheduling.schedule_time [OF scheduler doc] unfolding decided_ok_def by fastforce
  then have "record_review (call_key c) b a g mode dur db = Inl (StaleRow (call_key c))"
    using d False by (intro record_stale [OF ok]) (auto simp: decided_ok_def)
  then show ?thesis using False by simp
qed

text \<open>A step of a call either leaves the store alone or is its write.\<close>

lemma survey_total:
  assumes "db_ok db" and "settings_ok s"
  shows "\<exists>start stop sts. survey env now s db = Inr ((start, stop), sts)"
  using study_day_window_eq [OF settings_okD(5,6) [OF assms(2)], of now "env_tz env"] card_states_eq [OF assms(1)]
  by (auto simp: survey_def)

lemma proceed_cases:
  assumes ok: "db_ok db" and gate: "gate_sound (ctx, v)" and doc: documented
    and past: "\<And>k t. last_review_of db k = Some t \<Longrightarrow> t \<in> S"
    and p: "phase_ok env db S c p" and step: "proceed env ctx c (p, v, db) = (p', v', db')"
  shows "gate_sound (ctx, v') \<and>
    (db' = db \<and> written p' = written p \<and> phase_ok env db S c p'
     \<or> (\<exists>cdb s b a. p = Decided cdb s b a \<and> p' = Written cdb s
          \<and> record_review (call_key c) b a (call_grade c) REVIEW_MODE (call_duration c) db = Inr db'))"
proof (cases p)
  case Arrived
  then show ?thesis using step gate_usable [OF gate] gate_stays_sound [OF gate]
    by (auto split: prod.splits sum.splits option.splits)
next
  case (Configured cdb s)
  show ?thesis
  proof (cases "decide env c s db")
    case (Inl e)
    then show ?thesis using step gate p Configured decide_error [OF ok Inl] by auto
  next
    case (Inr ba)
    obtain b a where ba: "ba = (b, a)" by (cases ba)
    have "old_token S c" using decide_decided_ok(2) [OF ok Inr [unfolded ba]] past by (auto simp: old_token_def)
    then show ?thesis using step gate p Configured Inr ba decide_decided_ok(1) [OF ok Inr [unfolded ba]] by auto
  qed
next
  case (Decided cdb s b a)
  then have "decided_ok env db c s b a" using p by simp
  from decided_write [OF ok doc this, of "call_grade c" REVIEW_MODE "call_duration c"]
  show ?thesis using step gate Decided by (auto simp: record_error_def split: sum.splits)
next
  case (Written cdb s)
  then have s: "settings_ok s" using p by simp
  obtain start stop sts where "survey env (call_now c) s db = Inr ((start, stop), sts)" using survey_total [OF ok s] by blast
  then show ?thesis using step gate p Written by auto
next
  case (Surveyed cdb s start stop sts)
  obtain m where "new_cards_introduced db start stop = Inr m" using new_cards_introduced_eq [OF ok] by blast
  then show ?thesis using step gate p Surveyed by auto
next
  case (Counted cdb s sts introduced)
  obtain due where "due_counts db (call_now c) = Inr due" using due_counts_eq [OF ok] by blast
  then show ?thesis using step gate p Counted by auto
qed (use step gate p in \<open>auto split: sum.splits if_splits\<close>)

end

end
