(* ===== verification/ConcurrentProperties.thy ===== *)
theory ConcurrentProperties
  imports ConcurrentAnswers
begin

text \<open>
  The invariant of the desk, by rule induction over \<open>desk_reach\<close>, and what it says about answers side by side: each
  is atomic, none is lost or counted twice, and one is refused only for another that used its token.
\<close>

section \<open>Every reachable desk\<close>

text \<open>No token has been used twice, and the log has one new entry of a card for each call that has written it.\<close>

definition used_once :: "(answer_call \<times> bool) list \<Rightarrow> bool" where
  "used_once ss \<longleftrightarrow> (\<forall>i j c e. i < length ss \<and> j < length ss \<and> ss ! i = (c, True) \<and> ss ! j = (e, True)
     \<and> call_key c = call_key e \<and> call_expected c = call_expected e \<longrightarrow> i = j)"

definition reviews_of :: "card_key \<Rightarrow> (answer_call \<times> bool) list \<Rightarrow> nat" where
  "reviews_of k ss = length (filter (\<lambda>(c, w). w \<and> call_key c = k) ss)"

definition logged :: "progress_db \<Rightarrow> progress_db \<Rightarrow> (answer_call \<times> bool) list \<Rightarrow> bool" where
  "logged db db' ss \<longleftrightarrow> (\<exists>ls. log_rows db' = log_rows db @ ls \<and> (\<forall>k. length (history (key_columns k) ls) = reviews_of k ss))"

text \<open>The tokens of a card that clients can hold: its last review at the start, and the time of every answer since.  A token
  that is not the current one any more was used.\<close>

definition issued :: "progress_db \<Rightarrow> (answer_call \<times> bool) list \<Rightarrow> card_key \<Rightarrow> instant option \<Rightarrow> bool" where
  "issued db ss k e \<longleftrightarrow> e = last_review_of db k \<or> (\<exists>c. (c, True) \<in> set ss \<and> call_key c = k \<and> e = Some (call_now c))"

definition used_up :: "progress_db \<Rightarrow> progress_db \<Rightarrow> (answer_call \<times> bool) list \<Rightarrow> bool" where
  "used_up db db' ss \<longleftrightarrow> (\<forall>k e. issued db ss k e \<and> last_review_of db' k \<noteq> e
     \<longrightarrow> (\<exists>c. (c, True) \<in> set ss \<and> call_key c = k \<and> call_expected c = e))"

definition desk_ok :: "'r session_env \<Rightarrow> progress_db \<Rightarrow> desk \<Rightarrow> bool" where
  "desk_ok env db d \<longleftrightarrow>
     db_ok (desk_store d) \<and> gate_sound (desk_ctx d, desk_verified d)
     \<and> (\<forall>(c, p) \<in> set (desk_calls d). call_now c \<in> set (desk_times d) \<and> times_fit env (call_now c)
          \<and> phase_ok env (desk_store d) (spent (desk_times d) (summary (desk_calls d))) c p)
     \<and> distinct (map (call_now \<circ> fst) (desk_calls d))
     \<and> (\<forall>k t. last_review_of (desk_store d) k = Some t \<longrightarrow> t \<in> spent (desk_times d) (summary (desk_calls d)))
     \<and> used_once (summary (desk_calls d)) \<and> logged db (desk_store d) (summary (desk_calls d))
     \<and> used_up db (desk_store d) (summary (desk_calls d))
     \<and> (\<forall>k. issued db (summary (desk_calls d)) k (last_review_of (desk_store d) k))"

lemma summary_nth [simp]: "i < length cs \<Longrightarrow> summary cs ! i = (fst (cs ! i), written (snd (cs ! i)))"
  by (simp add: summary_def split_beta)

lemma length_summary [simp]: "length (summary cs) = length cs"
  by (simp add: summary_def)

lemma summary_update: "i < length cs \<Longrightarrow> summary (cs[i := (c, p)]) = (summary cs)[i := (c, written p)]"
  by (simp add: summary_def map_update)

lemma summary_same: "i < length cs \<Longrightarrow> cs ! i = (c, p) \<Longrightarrow> written q = written p \<Longrightarrow> summary (cs[i := (c, q)]) = summary cs"
  by (rule nth_equalityI) (auto simp: nth_list_update)

lemma spent_write:
  assumes i: "i < length cs" "cs ! i = (c, p)" "\<not> written p" "written q" and times: "call_now c \<in> set ts"
    and distinct: "distinct (map (call_now \<circ> fst) cs)"
  shows "call_now c \<notin> spent ts (summary cs)" "spent ts (summary cs) \<subseteq> spent ts (summary (cs[i := (c, q)]))"
    "call_now c \<in> spent ts (summary (cs[i := (c, q)]))"
proof -
  have "summary cs ! i = (c, False)" using i by simp
  then have "(c, False) \<in> set (summary cs)" using i(1) by (metis length_summary nth_mem)
  then show "call_now c \<notin> spent ts (summary cs)" by (auto simp: spent_def)
  have others: "\<exists>j < length cs. j \<noteq> i \<and> summary cs ! j = (e, False)" if "(e, False) \<in> set (summary (cs[i := (c, q)]))" for e
    using that i(1,4) by (auto simp: in_set_conv_nth summary_update nth_list_update split: if_splits)
  then have "(e, False) \<in> set (summary cs)" if "(e, False) \<in> set (summary (cs[i := (c, q)]))" for e
    using that by (metis length_summary nth_mem)
  then show "spent ts (summary cs) \<subseteq> spent ts (summary (cs[i := (c, q)]))" by (auto simp: spent_def)
  have "call_now e \<noteq> call_now c" if e: "(e, False) \<in> set (summary (cs[i := (c, q)]))" for e
  proof -
    obtain j where j: "j < length cs" "j \<noteq> i" "fst (cs ! j) = e" using others [OF e] by auto
    then have "map (call_now \<circ> fst) cs ! j \<noteq> map (call_now \<circ> fst) cs ! i"
      using distinct i(1) by (simp only: nth_eq_iff_index_eq length_map) simp
    then show ?thesis using j i by simp
  qed
  then show "call_now c \<in> spent ts (summary (cs[i := (c, q)]))" using times by (auto simp: spent_def)
qed

lemma length_filter_update:
  "i < length xs \<Longrightarrow> \<not> P (xs ! i) \<Longrightarrow> length (filter P (xs[i := y])) = length (filter P xs) + (if P y then 1 else 0)"
  by (induction xs arbitrary: i) (auto split: nat.split)

lemma reviews_of_write:
  "i < length ss \<Longrightarrow> ss ! i = (c, False) \<Longrightarrow> reviews_of k (ss[i := (c, True)]) = reviews_of k ss + (if call_key c = k then 1 else 0)"
  unfolding reviews_of_def by (subst length_filter_update) auto

lemma used_onceD:
  "used_once ss \<Longrightarrow> i < length ss \<Longrightarrow> j < length ss \<Longrightarrow> ss ! i = (c, True) \<Longrightarrow> ss ! j = (e, True) \<Longrightarrow>
     call_key c = call_key e \<Longrightarrow> call_expected c = call_expected e \<Longrightarrow> i = j"
  unfolding used_once_def by blast

lemma used_once_write:
  assumes "used_once ss" and "i < length ss" and "\<And>e. (e, True) \<in> set ss \<Longrightarrow> call_key e = call_key c \<Longrightarrow> call_expected e \<noteq> call_expected c"
  shows "used_once (ss[i := (c, True)])"
  using assms unfolding used_once_def by (auto simp: nth_list_update) (metis nth_mem)+

lemma refresh_sound: "gate_sound (ctx, v) \<Longrightarrow> gate_sound (refresh_content_repo found ctx, v)"
  using gate_sound_step [of "(ctx, v)" "Refresh found"] by simp

lemma summary_arrival [simp]: "summary (cs @ [(c, Arrived)]) = summary cs @ [(c, False)]"
  by (simp add: summary_def)

lemma spent_arrival: "call_now c \<notin> set ts \<Longrightarrow> spent (call_now c # ts) (ss @ [(c, False)]) = spent ts ss"
  by (auto simp: spent_def)

lemma desk_ok_arrival:
  assumes ok: "desk_ok env db d" and new: "call_now c \<notin> set (desk_times d)" "times_fit env (call_now c)"
  shows "desk_ok env db (d\<lparr>desk_calls := desk_calls d @ [(c, Arrived)], desk_times := call_now c # desk_times d\<rparr>)"
proof -
  have "used_once (summary (desk_calls d @ [(c, Arrived)]))"
    using ok by (auto simp: desk_ok_def used_once_def nth_append less_Suc_eq split: if_splits)
  moreover have "reviews_of k (summary (desk_calls d @ [(c, Arrived)])) = reviews_of k (summary (desk_calls d))" for k
    by (simp add: reviews_of_def)
  moreover have "call_now c \<notin> set (map (call_now \<circ> fst) (desk_calls d))" using ok new(1) by (auto simp: desk_ok_def)
  ultimately show ?thesis using ok new by (auto simp: desk_ok_def spent_arrival logged_def used_up_def issued_def)
qed

lemma list_update_ball:
  "\<forall>x \<in> set xs. P x \<Longrightarrow> P y \<Longrightarrow> \<forall>x \<in> set (xs[i := y]). P x"
  using set_update_subset_insert by fastforce

lemma history_append: "history k (xs @ ys) = history k xs @ history k ys"
  by (simp add: history_def)

context study_session begin

lemma schedule_written:
  assumes documented and "times_fit env now" and "schedule_of (env_scheduler env s) b g (Aware now) = Inr a"
  shows "schedule_ok a" "sched_last_review a = Some now"
  using assms scheduling.schedule_not_new [OF scheduler assms(3)] scheduling.schedule_time [OF scheduler assms(1,3)]
  by (auto simp: schedule_ok_def times_fit_def)

lemma desk_ok_write:
  assumes ok: "desk_ok env db d" and doc: documented
    and i: "i < length (desk_calls d)" "desk_calls d ! i = (c, Decided cdb s b a)"
    and rec: "record_review (call_key c) b a (call_grade c) REVIEW_MODE (call_duration c) (desk_store d) = Inr db'"
    and gate: "gate_sound (desk_ctx d, v)"
  shows "desk_ok env db (d\<lparr>desk_verified := v, desk_store := db', desk_calls := (desk_calls d)[i := (c, Written cdb s)]\<rparr>)"
proof -
  let ?cs = "desk_calls d" and ?ts = "desk_times d" and ?db = "desk_store d"
  let ?S = "spent ?ts (summary ?cs)" and ?cs' = "(desk_calls d)[i := (c, Written cdb s)]"
  let ?S' = "spent ?ts (summary ?cs')"
  have store: "db_ok ?db" and past: "\<And>k t. last_review_of ?db k = Some t \<Longrightarrow> t \<in> ?S" and dist: "distinct (map (call_now \<circ> fst) ?cs)"
    and calls: "\<forall>(e, p) \<in> set ?cs. call_now e \<in> set ?ts \<and> times_fit env (call_now e) \<and> phase_ok env ?db ?S e p"
    and once: "used_once (summary ?cs)" and log: "logged db ?db (summary ?cs)"
    and used: "used_up db ?db (summary ?cs)" and current: "\<And>k. issued db (summary ?cs) k (last_review_of ?db k)"
    using ok by (auto simp: desk_ok_def)
  have mem: "(c, Decided cdb s b a) \<in> set ?cs" using i by (metis nth_mem)
  have mine: "call_now c \<in> set ?ts" "times_fit env (call_now c)" "settings_ok s" "old_token ?S c" "decided_ok env ?db c s b a"
    using calls mem by fastforce+
  note spent = spent_write [OF i(1,2) _ _ mine(1) dist, of "Written cdb s", simplified]
  have token: "last_review_of ?db (call_key c) = call_expected c"
    using decided_write [OF store doc mine(5), of "call_grade c" REVIEW_MODE "call_duration c"] rec by simp
  have sched: "schedule_of (env_scheduler env s) b (call_grade c) (Aware (call_now c)) = Inr a" using mine(5) by (simp add: decided_ok_def)
  note a = schedule_written [OF doc mine(2) sched]
  note card = card_of_record [OF store a(1) rec]
  have last: "last_review_of db' (call_key c) = Some (call_now c)"
    using a(2) by (simp add: last_review_of_def card reviewed_card_def split: option.split)
  have same: "card_of db' j = card_of ?db j" if "j \<noteq> call_key c" for j using that by (simp add: card)
  have mono: "phase_ok env ?db ?S e p \<Longrightarrow> phase_ok env db' ?S' e p" for e p
    by (rule phase_ok_write [OF _ last spent(1)]) (simp_all add: same spent(2))
  have "last_review_of db' (call_key c) \<noteq> call_expected c" using last mine(4) spent(1) by (auto simp: old_token_def)
  then have "phase_ok env db' ?S' c (Written cdb s)" using mine(3,4) spent(2) by (auto simp: old_token_def)
  then have "\<forall>(e, p) \<in> set ?cs'. call_now e \<in> set ?ts \<and> times_fit env (call_now e) \<and> phase_ok env db' ?S' e p"
    using calls mine(1,2) mono by (intro list_update_ball) auto
  moreover have "last_review_of db' k = Some t \<Longrightarrow> t \<in> ?S'" for k t
    using last spent(2,3) past same by (cases "k = call_key c") (auto simp: last_review_of_def)
  moreover have "map (call_now \<circ> fst) ?cs' = map (call_now \<circ> fst) ?cs"
    using i by (intro nth_equalityI) (auto simp: nth_list_update)
  moreover have "used_once (summary ?cs')"
  proof -
    have "call_expected e \<noteq> call_expected c" if e: "(e, True) \<in> set (summary ?cs)" "call_key e = call_key c" for e
    proof -
      obtain p where "(e, p) \<in> set ?cs" "written p" using e(1) by (auto simp: summary_def)
      then have "last_review_of ?db (call_key e) \<noteq> call_expected e" using calls phase_ok_written by fastforce
      then show ?thesis using token e(2) by simp
    qed
    then show ?thesis using used_once_write [OF once, of i c] i(1) by (simp add: summary_update)
  qed
  moreover have "logged db db' (summary ?cs')"
  proof -
    obtain ls where ls: "log_rows ?db = log_rows db @ ls" "\<And>k. length (history (key_columns k) ls) = reviews_of k (summary ?cs)"
      using log by (auto simp: logged_def)
    obtain l where l: "log_rows db' = log_rows ?db @ [l]" "log_key l = key_columns (call_key c)" using record_review_log [OF rec] by blast
    have "length (history (key_columns k) (ls @ [l])) = reviews_of k (summary ?cs')" for k
      using i ls(2) l(2) reviews_of_write [of i "summary ?cs" c k] by (simp add: summary_update history_append) (simp add: history_def)
    then show ?thesis using ls(1) l(1) unfolding logged_def by (intro exI [of _ "ls @ [l]"]) simp
  qed
  moreover have members: "(e, True) \<in> set (summary ?cs') \<longleftrightarrow> e = c \<or> (e, True) \<in> set (summary ?cs)" for e
  proof -
    have "(summary ?cs) ! i = (c, False)" using i by simp
    then show ?thesis using i(1) by (auto simp: summary_update in_set_conv_nth nth_list_update)
  qed
  moreover have "used_up db db' (summary ?cs')"
    using used last token same unfolding used_up_def issued_def members by (metis last_review_of_def)
  moreover have "issued db (summary ?cs') k (last_review_of db' k)" for k
    using current [of k] last same [of k] unfolding issued_def members
    by (cases "k = call_key c") (auto simp: last_review_of_def)
  ultimately show ?thesis
    using record_review_preserves [OF store a(1) rec] gate dist unfolding desk_ok_def by simp
qed

lemma call_outcome:
  assumes ok: "desk_ok env db d" and doc: documented and i: "i < length (desk_calls d)" "desk_calls d ! i = (c, p)"
    and step: "proceed env (desk_ctx d) c (p, desk_verified d, desk_store d) = (p', v, db')"
  shows "gate_sound (desk_ctx d, v) \<and>
    (db' = desk_store d \<and> written p' = written p \<and> phase_ok env (desk_store d) (spent (desk_times d) (summary (desk_calls d))) c p'
     \<or> (\<exists>cdb s b a. p = Decided cdb s b a \<and> p' = Written cdb s
          \<and> record_review (call_key c) b a (call_grade c) REVIEW_MODE (call_duration c) (desk_store d) = Inr db'))"
proof -
  let ?S = "spent (desk_times d) (summary (desk_calls d))"
  have "(c, p) \<in> set (desk_calls d)" using i by (metis nth_mem)
  then have facts: "db_ok (desk_store d)" "gate_sound (desk_ctx d, desk_verified d)" "phase_ok env (desk_store d) ?S c p"
      "\<And>k t. last_review_of (desk_store d) k = Some t \<Longrightarrow> t \<in> ?S"
    using ok by (fastforce simp: desk_ok_def)+
  show ?thesis by (rule proceed_cases [OF facts(1,2) doc _ facts(3) step]) (rule facts(4))
qed

lemma desk_ok_step:
  assumes "desk_step env d d'" and ok: "desk_ok env db d" and doc: documented
  shows "desk_ok env db d'"
  using assms(1)
proof (cases rule: desk_step.cases)
  case (arrives c)
  then show ?thesis using desk_ok_arrival [OF ok] by simp
next
  case (goes_on i c p p' v db')
  let ?S = "spent (desk_times d) (summary (desk_calls d))"
  have mem: "(c, p) \<in> set (desk_calls d)" using goes_on(2,3) by (metis nth_mem)
  note outcome = call_outcome [OF ok doc goes_on(2,3,4)]
  show ?thesis
  proof (cases "\<exists>cdb s b a. p = Decided cdb s b a \<and> p' = Written cdb s
      \<and> record_review (call_key c) b a (call_grade c) REVIEW_MODE (call_duration c) (desk_store d) = Inr db'")
    case True
    then show ?thesis using desk_ok_write [OF ok doc goes_on(2)] goes_on(1,3) outcome by auto
  next
    case False
    then have read: "db' = desk_store d" "written p' = written p" "phase_ok env (desk_store d) ?S c p'" "gate_sound (desk_ctx d, v)"
      using outcome False by blast+
    note same = summary_same [OF goes_on(2,3) read(2)]
    have "\<forall>(e, q) \<in> set ((desk_calls d)[i := (c, p')]). call_now e \<in> set (desk_times d) \<and> times_fit env (call_now e)
        \<and> phase_ok env (desk_store d) ?S e q"
      using ok read(3) mem by (intro list_update_ball) (auto simp: desk_ok_def)
    moreover have "map (call_now \<circ> fst) ((desk_calls d)[i := (c, p')]) = map (call_now \<circ> fst) (desk_calls d)"
      using goes_on(2,3) by (intro nth_equalityI) (auto simp: nth_list_update)
    ultimately show ?thesis using ok read(4) unfolding goes_on(1) read(1) by (simp add: desk_ok_def same)
  qed
next
  case (saves k x)
  have "last_review_of (set_setting k x (desk_store d)) j = last_review_of (desk_store d) j" for j
    by (simp add: last_review_of_def)
  then show ?thesis using ok unfolding saves by (simp add: desk_ok_def logged_def used_up_def same_cards [OF card_of_set_setting])
next
  case (rebuilds found)
  then show ?thesis using ok refresh_sound by (simp add: desk_ok_def)
qed

lemma issued_step:
  assumes "desk_step env d d'" and ok: "desk_ok env db d" and doc: documented and "issued db (summary (desk_calls d)) k e"
  shows "issued db (summary (desk_calls d')) k e"
proof -
  have "(c, True) \<in> set (summary (desk_calls d'))" if c: "(c, True) \<in> set (summary (desk_calls d))" for c
    using assms(1)
  proof (cases rule: desk_step.cases)
    case (goes_on i e p p' v db')
    then have "written p \<Longrightarrow> written p'" using call_outcome [OF ok doc goes_on(2,3,4)] by auto
    moreover obtain j where "j < length (desk_calls d)" "summary (desk_calls d) ! j = (c, True)"
      using c by (auto simp: in_set_conv_nth)
    ultimately have "summary (desk_calls d') ! j = (c, True)" "j < length (summary (desk_calls d'))"
      using goes_on(1-3) by (auto simp: summary_update nth_list_update)
    then show ?thesis by (metis nth_mem)
  qed (use c in auto)
  then show ?thesis using assms(4) by (auto simp: issued_def)
qed

lemma issued_later:
  assumes "(desk_step env)\<^sup>*\<^sup>* d d'" and "desk_ok env db d" and documented and "issued db (summary (desk_calls d)) k e"
  shows "desk_ok env db d' \<and> issued db (summary (desk_calls d')) k e"
  using assms(1) by (induction rule: rtranclp_induct) (use assms issued_step desk_ok_step in blast)+

lemma desk_reach_ok: "desk_reach env db d \<Longrightarrow> documented \<Longrightarrow> desk_ok env db d"
proof (induction rule: desk_reach.induct)
  case (opens d)
  then show ?case
    by (auto simp: opened_desk_def desk_ok_def used_once_def logged_def reviews_of_def used_up_def issued_def spent_def summary_def history_def)
next
  case (later d d')
  then show ?case using desk_ok_step by blast
qed

end

lemma desk_reach_steps:
  assumes "desk_reach env db d" and "i < length (desk_calls d)" and "desk_calls d ! i = (c, p)"
    and "(proceed env (desk_ctx d) c ^^ n) (p, desk_verified d, desk_store d) = (p', v, db')"
  shows "desk_reach env db (d\<lparr>desk_verified := v, desk_store := db', desk_calls := (desk_calls d)[i := (c, p')]\<rparr>)"
  using assms(4)
proof (induction n arbitrary: p' v db')
  case 0
  have "(desk_calls d)[i := (c, p)] = desk_calls d" using assms(3) by (metis list_update_id)
  then show ?case using assms(1) 0 by (cases d) simp
next
  case (Suc n)
  obtain q w db1 where q: "(proceed env (desk_ctx d) c ^^ n) (p, desk_verified d, desk_store d) = (q, w, db1)"
    by (metis prod_cases3)
  let ?e = "d\<lparr>desk_verified := w, desk_store := db1, desk_calls := (desk_calls d)[i := (c, q)]\<rparr>"
  have "desk_step env ?e (?e\<lparr>desk_verified := v, desk_store := db', desk_calls := (desk_calls ?e)[i := (c, p')]\<rparr>)"
    using assms(2) Suc.prems q by (intro desk_step.goes_on) auto
  then show ?case using desk_reach.later [OF Suc.IH [OF q]] by simp
qed

section \<open>Answers side by side\<close>

text \<open>A call that nothing disturbs computes in its eight steps exactly what \<open>answer\<close> does in one piece: the same
  result, the same state of the gate and the same store, on every branch.\<close>
theorem undisturbed_call_is_answer:
  "(proceed env ctx c ^^ 8) (Arrived, v, db) =
    (case answer env (call_now c) ctx v (call_key c) (call_grade c) (call_expected c) (call_duration c) db of
       (res, v', db') \<Rightarrow> (Finished res, v', db'))"
  by (auto simp: eight answer_def answer_in_def write_answer_split make_plan_split
      split: sum.split prod.split)
    (auto simp: write_answer_def and_then_def split: sum.splits)

text \<open>C9: Concurrent answers are atomic: however other calls were interleaved with it, the write of a call finds what the
  whole of \<open>answer\<close> would find if it ran at that moment.  It is refused as stale exactly when its token is not the
  card's last review any more, it is otherwise based on the card as it is stored then, and it has the same outcome as the
  undivided answer under the settings it has read.\<close>
theorem interleaved_answers_are_atomic:
  assumes "desk_reach (app_env rc z rnk below rng decode) db d" and "fsrs_documented rc"
    and "(c, Decided cdb s b a) \<in> set (desk_calls d)"
  shows "(case record_review (call_key c) b a (call_grade c) REVIEW_MODE (call_duration c) (desk_store d) of
        Inr db' \<Rightarrow> last_review_of (desk_store d) (call_key c) = call_expected c
          \<and> b = base_schedule (desk_store d) (call_key c) (call_now c) \<and> last_review_of db' (call_key c) = Some (call_now c)
      | Inl e \<Rightarrow> e = StaleRow (call_key c) \<and> last_review_of (desk_store d) (call_key c) \<noteq> call_expected c)
    \<and> (stored_settings decode (desk_store d) = s \<longrightarrow>
        raise_as record_error (record_review (call_key c) b a (call_grade c) REVIEW_MODE (call_duration c) (desk_store d))
        = write_answer (app_env rc z rnk below rng decode) (call_now c) cdb (call_key c) (call_grade c) (call_expected c)
            (call_duration c) (desk_store d))"
proof -
  let ?env = "app_env rc z rnk below rng decode" and ?db = "desk_store d"
  let ?outcome = "record_review (call_key c) b a (call_grade c) REVIEW_MODE (call_duration c) ?db"
  have "desk_ok ?env db d" using assms(1,2) by (rule app.desk_reach_ok)
  then have ok: "db_ok ?db" and fit: "times_fit ?env (call_now c)" and item: "load_item cdb (call_key c) \<noteq> None"
    and dec: "decided_ok ?env ?db c s b a"
    using assms(3) by (fastforce simp: desk_ok_def)+
  have sched: "schedule_of (env_scheduler ?env s) b (call_grade c) (Aware (call_now c)) = Inr a" using dec by (simp add: decided_ok_def)
  note outcome = app.decided_write [OF ok assms(2) dec, of "call_grade c" REVIEW_MODE "call_duration c"]
  have same: "raise_as record_error ?outcome = write_answer ?env (call_now c) cdb (call_key c) (call_grade c) (call_expected c) (call_duration c) ?db"
    if "stored_settings decode ?db = s"
    using outcome sched item that
    by (auto simp: app.write_answer_eq [OF ok] record_error_def split: sum.splits)
  have "schedule_ok a" "sched_last_review a = Some (call_now c)" if "b = base_schedule ?db (call_key c) (call_now c)"
    using app.schedule_written [OF assms(2) fit sched] by auto
  then have "last_review_of db' (call_key c) = Some (call_now c)"
    if "?outcome = Inr db'" "b = base_schedule ?db (call_key c) (call_now c)" for db'
    using that card_of_record [OF ok _ that(1)] by (simp add: last_review_of_def reviewed_card_def split: option.split)
  then show ?thesis using outcome same by (auto split: sum.splits)
qed

text \<open>Two answers to the card of the sample content with the token of a new card, one day apart, both in flight.\<close>

definition sample_call :: "instant \<Rightarrow> answer_call" where
  "sample_call t = \<lparr>call_key = sample_key, call_grade = GOOD, call_expected = None, call_duration = None, call_now = t\<rparr>"

definition sample_desk :: "(answer_call \<times> answer_phase) list \<Rightarrow> instant list \<Rightarrow> nat option \<Rightarrow> desk" where
  "sample_desk cs ts v = \<lparr>desk_ctx = sample_ctx, desk_verified = v, desk_store = empty_db, desk_calls = cs, desk_times = ts\<rparr>"

lemma sample_decides:
  assumes "v = None \<or> v = Some 0"
  shows "\<exists>a. (proceed sample_env sample_ctx (sample_call t) ^^ 4) (Arrived, v, empty_db)
    = (Decided sample_content default_settings (new_schedule t) a, Some 0, empty_db)"
proof -
  have gate: "gate_repository sample_ctx v = (Inr \<lparr>repo_handle = 0, repo_file = Readable sample_content\<rparr>, Some 0)"
    using assms by (auto simp: gate_repository_def sample_ctx_def schema_verified_def sample_content_def)
  have s: "stored_settings (env_decode sample_env) empty_db = default_settings"
    by (simp add: stored_settings_def load_settings_def get_setting_def empty_db_def)
  have base: "base_schedule empty_db sample_key t = new_schedule t"
    by (simp add: base_schedule_def card_of_def empty_db_def)
  have "\<exists>a. schedule_of (env_scheduler sample_env default_settings) (new_schedule t) GOOD (Aware t) = Inr a"
    unfolding sample_env_def by (rule scheduling.schedule_total [OF app.scheduler])
  then obtain a where a: "schedule_of (env_scheduler sample_env default_settings) (new_schedule t) GOOD (Aware t) = Inr a" ..
  have "decide sample_env (sample_call t) default_settings empty_db = Inr (new_schedule t, a)"
    using a unfolding sample_env_def app.decide_eq [OF db_ok_empty] by (simp add: sample_call_def base)
  then show ?thesis by (simp add: numeral_eq_Suc gate repo_db_def s) (simp add: sample_call_def)
qed

lemma sample_race:
  "\<exists>a b. desk_reach sample_env empty_db (sample_desk
      [(sample_call T0, Decided sample_content default_settings (new_schedule T0) a),
       (sample_call (T0 + DAY), Decided sample_content default_settings (new_schedule (T0 + DAY)) b)] [T0 + DAY, T0] (Some 0))"
proof -
  let ?first = "sample_call T0" and ?second = "sample_call (T0 + DAY)"
  have now: "call_now ?first = T0" "call_now ?second = T0 + DAY" by (simp_all add: sample_call_def)
  have day: "T0 + DAY \<noteq> T0" by (simp add: DAY_def)
  have "desk_reach sample_env empty_db (sample_desk [] [] None)"
    by (rule desk_reach.opens) (simp_all add: sample_desk_def opened_desk_def gate_sound_def sample_ctx_def)
  from desk_reach.later [OF this desk_step.arrives, of ?first]
  have "desk_reach sample_env empty_db (sample_desk [(?first, Arrived)] [T0] None)" by (simp add: sample_desk_def now)
  from desk_reach.later [OF this desk_step.arrives, of ?second]
  have both: "desk_reach sample_env empty_db (sample_desk [(?first, Arrived), (?second, Arrived)] [T0 + DAY, T0] None)"
    using day by (simp add: sample_desk_def now)
  obtain a where a: "(proceed sample_env sample_ctx ?first ^^ 4) (Arrived, None, empty_db)
      = (Decided sample_content default_settings (new_schedule T0) a, Some 0, empty_db)"
    using sample_decides by blast
  obtain b where b: "(proceed sample_env sample_ctx ?second ^^ 4) (Arrived, Some 0, empty_db)
      = (Decided sample_content default_settings (new_schedule (T0 + DAY)) b, Some 0, empty_db)"
    using sample_decides by blast
  from desk_reach_steps [OF both, of 0 ?first Arrived 4] a
  have "desk_reach sample_env empty_db (sample_desk
      [(?first, Decided sample_content default_settings (new_schedule T0) a), (?second, Arrived)] [T0 + DAY, T0] (Some 0))"
    by (simp add: sample_desk_def)
  from desk_reach_steps [OF this, of 1 ?second Arrived 4] b
  show ?thesis by (auto simp: sample_desk_def)
qed

theorem interleaved_answers_are_atomic_witness:
  "\<exists>d a b db'. desk_reach sample_env empty_db d \<and> length (desk_calls d) = 2
     \<and> (sample_call T0, Decided sample_content default_settings (new_schedule T0) a) \<in> set (desk_calls d)
     \<and> record_review sample_key (new_schedule T0) a GOOD REVIEW_MODE None (desk_store d) = Inr db'
     \<and> last_review_of db' sample_key = Some T0"
proof -
  obtain d a b where d: "desk_reach sample_env empty_db d" "length (desk_calls d) = 2" "last_review_of (desk_store d) sample_key = None"
      "(sample_call T0, Decided sample_content default_settings (new_schedule T0) a) \<in> set (desk_calls d)"
    using sample_race by (force simp: sample_desk_def)
  from interleaved_answers_are_atomic [OF d(1) [unfolded sample_env_def] sample_documented d(4)] show ?thesis
    using d by (auto simp: sample_call_def split: sum.splits)
qed

lemma sample_first_writes:
  "\<exists>d0 d b. desk_reach sample_env empty_db d0 \<and> desk_store d0 = empty_db \<and> (desk_step sample_env)\<^sup>*\<^sup>* d0 d
     \<and> desk_reach sample_env empty_db d \<and> desk_calls d = [(sample_call T0, Written sample_content default_settings),
       (sample_call (T0 + DAY), Decided sample_content default_settings (new_schedule (T0 + DAY)) b)]
     \<and> proceed sample_env (desk_ctx d) (sample_call (T0 + DAY))
         (Decided sample_content default_settings (new_schedule (T0 + DAY)) b, desk_verified d, desk_store d)
       = (Finished (Inl (SStale sample_key)), desk_verified d, desk_store d)"
proof -
  let ?first = "sample_call T0" and ?second = "sample_call (T0 + DAY)"
  let ?p = "Decided sample_content default_settings (new_schedule T0)"
  let ?q = "Decided sample_content default_settings (new_schedule (T0 + DAY))"
  obtain a b where race: "desk_reach sample_env empty_db (sample_desk [(?first, ?p a), (?second, ?q b)] [T0 + DAY, T0] (Some 0))"
    using sample_race by blast
  have ok: "desk_ok sample_env empty_db d" if "desk_reach sample_env empty_db d" for d
    using that unfolding sample_env_def by (rule app.desk_reach_ok) simp
  have first: "decided_ok sample_env empty_db ?first default_settings (new_schedule T0) a"
    using ok [OF race] by (simp add: desk_ok_def sample_desk_def)
  obtain db where db: "record_review sample_key (new_schedule T0) a GOOD REVIEW_MODE None empty_db = Inr db"
    using app.decided_write [OF db_ok_empty sample_documented first [unfolded sample_env_def], of GOOD REVIEW_MODE None]
    by (auto simp: sample_call_def split: sum.splits)
  let ?d = "(sample_desk [(?first, Written sample_content default_settings), (?second, ?q b)] [T0 + DAY, T0] (Some 0))\<lparr>desk_store := db\<rparr>"
  have "desk_step sample_env (sample_desk [(?first, ?p a), (?second, ?q b)] [T0 + DAY, T0] (Some 0)) ?d"
    using desk_step.goes_on [of 0 "sample_desk [(?first, ?p a), (?second, ?q b)] [T0 + DAY, T0] (Some 0)" ?first "?p a" sample_env
        "Written sample_content default_settings" "Some 0" db] db
    by (simp add: sample_desk_def sample_call_def)
  note one = this and reach = desk_reach.later [OF race this]
  have now: "db_ok db" "decided_ok sample_env db ?second default_settings (new_schedule (T0 + DAY)) b"
      "last_review_of db sample_key \<noteq> None"
    using ok [OF reach] by (simp_all add: desk_ok_def sample_desk_def sample_call_def)
  have "record_review sample_key (new_schedule (T0 + DAY)) b GOOD REVIEW_MODE None db = Inl (StaleRow sample_key)"
    using app.decided_write [OF now(1) sample_documented now(2) [unfolded sample_env_def], of GOOD REVIEW_MODE None] now(3)
    by (auto simp: sample_call_def split: sum.splits)
  then have "proceed sample_env (desk_ctx ?d) ?second (?q b, desk_verified ?d, desk_store ?d)
      = (Finished (Inl (SStale sample_key)), desk_verified ?d, desk_store ?d)"
    by (simp add: sample_desk_def sample_call_def record_error_def)
  moreover have "desk_calls ?d = [(?first, Written sample_content default_settings), (?second, ?q b)]"
      "desk_store (sample_desk [(?first, ?p a), (?second, ?q b)] [T0 + DAY, T0] (Some 0)) = empty_db"
    by (simp_all add: sample_desk_def)
  ultimately show ?thesis using race reach r_into_rtranclp [of "desk_step sample_env", OF one] by blast
qed

text \<open>C11: No answer is lost and none is counted twice, whatever is in flight at the same time: the store stays consistent, the
  log has exactly one new entry of a card for every call that has written it, no token was used by two calls, and a call
  ends with an error only when there is no content, no such item, or its token is stale.\<close>
theorem concurrent_answers_counted:
  assumes "desk_reach (app_env rc z rnk below rng decode) db d" and "fsrs_documented rc"
  shows "db_ok (desk_store d)
    \<and> (\<exists>ls. log_rows (desk_store d) = log_rows db @ ls
         \<and> (\<forall>k. length (history (key_columns k) ls) = length (filter (\<lambda>(c, p). written p \<and> call_key c = k) (desk_calls d))))
    \<and> (\<forall>i < length (desk_calls d). \<forall>j < length (desk_calls d). \<forall>c p e q.
         desk_calls d ! i = (c, p) \<and> desk_calls d ! j = (e, q) \<and> written p \<and> written q
         \<and> call_key c = call_key e \<and> call_expected c = call_expected e \<longrightarrow> i = j)
    \<and> (\<forall>c e. (c, Finished (Inl e)) \<in> set (desk_calls d)
         \<longrightarrow> (\<exists>n. e = SNotReady n) \<or> e = SUnknownItem (call_key c) \<or> e = SStale (call_key c))"
proof -
  have ok: "desk_ok (app_env rc z rnk below rng decode) db d" using assms by (rule app.desk_reach_ok)
  have "reviews_of k (summary (desk_calls d)) = length (filter (\<lambda>(c, p). written p \<and> call_key c = k) (desk_calls d))" for k
    by (simp add: reviews_of_def summary_def filter_map comp_def case_prod_unfold)
  then have log: "\<exists>ls. log_rows (desk_store d) = log_rows db @ ls
      \<and> (\<forall>k. length (history (key_columns k) ls) = length (filter (\<lambda>(c, p). written p \<and> call_key c = k) (desk_calls d)))"
    using ok by (simp add: desk_ok_def logged_def)
  have once: "\<forall>i < length (desk_calls d). \<forall>j < length (desk_calls d). \<forall>c p e q.
         desk_calls d ! i = (c, p) \<and> desk_calls d ! j = (e, q) \<and> written p \<and> written q
         \<and> call_key c = call_key e \<and> call_expected c = call_expected e \<longrightarrow> i = j"
  proof (intro allI impI)
    fix i j c p e q
    assume "i < length (desk_calls d)" "j < length (desk_calls d)" and pair: "desk_calls d ! i = (c, p) \<and> desk_calls d ! j = (e, q)
      \<and> written p \<and> written q \<and> call_key c = call_key e \<and> call_expected c = call_expected e"
    then show "i = j" using ok by (intro used_onceD [of "summary (desk_calls d)" i j c e]) (simp_all add: desk_ok_def)
  qed
  have "(\<exists>n. e = SNotReady n) \<or> e = SUnknownItem (call_key c) \<or> e = SStale (call_key c)"
    if "(c, Finished (Inl e)) \<in> set (desk_calls d)" for c e
    using ok that by (fastforce simp: desk_ok_def)
  then have errors: "\<forall>c e. (c, Finished (Inl e)) \<in> set (desk_calls d)
      \<longrightarrow> (\<exists>n. e = SNotReady n) \<or> e = SUnknownItem (call_key c) \<or> e = SStale (call_key c)" by blast
  have "db_ok (desk_store d)" using ok by (simp add: desk_ok_def)
  then show ?thesis using log once errors by (intro conjI)
qed

theorem concurrent_answers_counted_witness:
  "\<exists>d. desk_reach sample_env empty_db d \<and> length (desk_calls d) = 2 \<and> db_ok (desk_store d)
     \<and> length (history (key_columns sample_key) (log_rows (desk_store d))) = 1"
proof -
  obtain d p where d: "desk_reach sample_env empty_db d" "\<not> written p"
      "desk_calls d = [(sample_call T0, Written sample_content default_settings), (sample_call (T0 + DAY), p)]"
    using sample_first_writes by (metis written.simps(9))
  from concurrent_answers_counted [OF d(1) [unfolded sample_env_def] sample_documented] have
    "db_ok (desk_store d)" "\<exists>ls. log_rows (desk_store d) = log_rows empty_db @ ls
      \<and> (\<forall>k. length (history (key_columns k) ls) = length (filter (\<lambda>(c, p). written p \<and> call_key c = k) (desk_calls d)))"
    by blast+
  then show ?thesis using d by (auto simp: empty_db_def sample_call_def)
qed

text \<open>C10: An answer is refused only for another answer.  A call whose token was the card's last review at any moment before,
  as the token of every card that was served is, is refused as stale only if exactly one other call has used that token:
  its review is in the store, and the refused call has changed nothing.\<close>
theorem refused_for_one_answer:
  assumes "desk_reach (app_env rc z rnk below rng decode) db d0" and "fsrs_documented rc"
    and token: "last_review_of (desk_store d0) (call_key c) = call_expected c"
    and "(desk_step (app_env rc z rnk below rng decode))\<^sup>*\<^sup>* d0 d"
    and i: "i < length (desk_calls d)" "desk_calls d ! i = (c, p)" "\<forall>r. p \<noteq> Finished r"
    and refused: "proceed (app_env rc z rnk below rng decode) (desk_ctx d) c (p, desk_verified d, desk_store d)
      = (Finished (Inl (SStale k)), v, db')"
  shows "db' = desk_store d \<and> (\<exists>!j. j < length (desk_calls d) \<and> written (snd (desk_calls d ! j))
    \<and> call_key (fst (desk_calls d ! j)) = call_key c \<and> call_expected (fst (desk_calls d ! j)) = call_expected c)"
proof -
  let ?env = "app_env rc z rnk below rng decode" and ?db = "desk_store d"
  have "desk_ok ?env db d0" using assms(1,2) by (rule app.desk_reach_ok)
  then have "issued db (summary (desk_calls d0)) (call_key c) (call_expected c)" by (simp add: desk_ok_def token [symmetric])
  from app.issued_later [OF assms(4) \<open>desk_ok ?env db d0\<close> assms(2) this]
  have ok: "desk_ok ?env db d" and issued: "issued db (summary (desk_calls d)) (call_key c) (call_expected c)" by blast+
  have store: "db_ok ?db" and phase: "phase_ok ?env ?db (spent (desk_times d) (summary (desk_calls d))) c p"
    using ok i by (fastforce simp: desk_ok_def dest: nth_mem)+
  have stale: "db' = ?db \<and> last_review_of ?db (call_key c) \<noteq> call_expected c"
  proof (cases p)
    case (Configured cdb s)
    then show ?thesis using refused by (auto simp: app.decide_eq [OF store] split: sum.splits if_splits)
  next
    case (Decided cdb s b a)
    then have "decided_ok ?env ?db c s b a" using phase by simp
    from app.decided_write [OF store assms(2) this, of "call_grade c" REVIEW_MODE "call_duration c"]
    show ?thesis using refused Decided by (auto split: sum.splits)
  qed (use refused i(3) in \<open>auto simp: survey_def repo_db_def and_then_def raise_as_def split: prod.splits sum.splits if_splits content_file.splits\<close>)
  then obtain e where "(e, True) \<in> set (summary (desk_calls d))" "call_key e = call_key c" "call_expected e = call_expected c"
    using ok issued unfolding desk_ok_def used_up_def by metis
  then obtain j where j: "j < length (desk_calls d)" "summary (desk_calls d) ! j = (e, True)" "call_key e = call_key c"
      "call_expected e = call_expected c" by (auto simp: in_set_conv_nth)
  show ?thesis
  proof (intro conjI ex1I [of _ j])
    fix m
    assume m: "m < length (desk_calls d) \<and> written (snd (desk_calls d ! m)) \<and> call_key (fst (desk_calls d ! m)) = call_key c
      \<and> call_expected (fst (desk_calls d ! m)) = call_expected c"
    then have "summary (desk_calls d) ! m = (fst (desk_calls d ! m), True)" by simp
    then show "m = j" using ok j m by (intro used_onceD [of "summary (desk_calls d)" m j "fst (desk_calls d ! m)" e]) (simp_all add: desk_ok_def)
  qed (use j stale in auto)
qed

theorem refused_for_one_answer_witness:
  "\<exists>d c p v. desk_reach sample_env empty_db d \<and> desk_calls d ! 1 = (c, p)
     \<and> proceed sample_env (desk_ctx d) c (p, desk_verified d, desk_store d) = (Finished (Inl (SStale sample_key)), v, desk_store d)
     \<and> (\<exists>!j. j < length (desk_calls d) \<and> written (snd (desk_calls d ! j))
          \<and> call_key (fst (desk_calls d ! j)) = call_key c \<and> call_expected (fst (desk_calls d ! j)) = call_expected c)"
proof -
  let ?second = "sample_call (T0 + DAY)" and ?p = "Decided sample_content default_settings (new_schedule (T0 + DAY))"
  obtain d0 d b where d: "desk_reach sample_env empty_db d0" "desk_store d0 = empty_db" "desk_reach sample_env empty_db d"
      "(desk_step sample_env)\<^sup>*\<^sup>* d0 d" "1 < length (desk_calls d)" "desk_calls d ! 1 = (?second, ?p b)"
      "proceed sample_env (desk_ctx d) ?second (?p b, desk_verified d, desk_store d)
       = (Finished (Inl (SStale sample_key)), desk_verified d, desk_store d)"
    using sample_first_writes by fastforce
  have "last_review_of (desk_store d0) (call_key ?second) = call_expected ?second" by (simp add: d(2) sample_call_def)
  from refused_for_one_answer [OF d(1) [unfolded sample_env_def] sample_documented this d(4) [unfolded sample_env_def] d(5,6) _
      d(7) [unfolded sample_env_def]]
  show ?thesis using d by blast
qed

end
