(* ===== verification/StreamLife.thy ===== *)
theory StreamLife
  imports StreamProperties BuildProperties
begin

text \<open>
  The rest of \<^verbatim>\<open>task_stream\<close> in \<^verbatim>\<open>api/routers/ws.py\<close>: a connection from the moment it is authenticated, over
  \<^verbatim>\<open>_stream\<close> with its two workers (\<^verbatim>\<open>_forward\<close>, \<^verbatim>\<open>_drain\<close>), to the end of its handler.  \<open>stream_step\<close> has one
  rule per stretch of code between two awaits; the builds go on beside it as steps of \<open>run_step\<close>.
\<close>

section \<open>A handler between its awaits\<close>

text \<open>Why a stream ends: the client is gone (or has been closed), a defect, a cancellation of the handler.\<close>

datatype stream_end = Gone | Bug | Stopped

text \<open>
  Not there yet; sending \<^verbatim>\<open>ready\<close> with the snapshot in hand; sending the snapshot; both workers running, with the
  event the forwarder is sending; waiting for the cancelled workers; sending the close code 1011; over.
\<close>

datatype stage =
  Idle
| Greeting ustr "build_task option"
| Showing ustr build_task
| Live ustr "build_event option"
| Clearing ustr stream_end
| Failing ustr
| Done

fun stage_session :: "stage \<Rightarrow> ustr option" where
  "stage_session Idle = None"
| "stage_session (Greeting sid snap) = Some sid"
| "stage_session (Showing sid t) = Some sid"
| "stage_session (Live sid x) = Some sid"
| "stage_session (Clearing sid e) = Some sid"
| "stage_session (Failing sid) = Some sid"
| "stage_session Done = None"

fun subscribed :: "stage \<Rightarrow> bool" where
  "subscribed (Greeting sid snap) \<longleftrightarrow> True"
| "subscribed (Showing sid t) \<longleftrightarrow> True"
| "subscribed (Live sid x) \<longleftrightarrow> True"
| "subscribed (Clearing sid e) \<longleftrightarrow> True"
| "subscribed _ \<longleftrightarrow> False"

record 'c stream_world =
  sw_run :: "'c run_state"
  sw_sockets :: "'c session_sockets"
  sw_stage :: "'c \<Rightarrow> stage"
  sw_sent :: "'c \<Rightarrow> ws_message list"

definition send_message :: "'c \<Rightarrow> ws_message \<Rightarrow> stage \<Rightarrow> 'c stream_world \<Rightarrow> 'c stream_world" where
  "send_message c msg st w = w\<lparr>sw_sent := (sw_sent w)(c := sw_sent w c @ [msg]), sw_stage := (sw_stage w)(c := st)\<rparr>"

text \<open>Registering the socket, subscribing its queue and reading the latest build happen in one stretch.\<close>

definition enter_stream :: "ustr \<Rightarrow> 'c \<Rightarrow> 'c stream_world \<Rightarrow> 'c stream_world" where
  "enter_stream sid c w =
     (let r = sw_run w in
      w\<lparr>sw_sockets := register_socket sid c (sw_sockets w), sw_stage := (sw_stage w)(c := Greeting sid (latest_task (rs_manager r))),
        sw_run := r\<lparr>rs_manager := snd (open_stream c (rs_manager r)), rs_published := (rs_published r)(c := []),
                    rs_read := (rs_read r)(c := []), rs_snapshot := (rs_snapshot r)(c := latest_task (rs_manager r))\<rparr>\<rparr>)"

text \<open>The forwarder takes the next event of its queue.\<close>

definition forward_next :: "ustr \<Rightarrow> 'c \<Rightarrow> 'c stream_world \<Rightarrow> 'c stream_world option" where
  "forward_next sid c w =
     (let r = sw_run w in
      case take_event c (rs_manager r) of
        Some (WsEvent ev, m) \<Rightarrow>
          Some (w\<lparr>sw_run := r\<lparr>rs_manager := m, rs_read := (rs_read r)(c := rs_read r c @ [ev])\<rparr>,
                  sw_stage := (sw_stage w)(c := Live sid (Some ev))\<rparr>)
      | _ \<Rightarrow> None)"

text \<open>The last of the cleanup, and what the handler does then: a defect closes the socket first.\<close>

definition leave_stream :: "ustr \<Rightarrow> stream_end \<Rightarrow> 'c \<Rightarrow> 'c stream_world \<Rightarrow> 'c stream_world" where
  "leave_stream sid e c w =
     (let w = w\<lparr>sw_run := (sw_run w)\<lparr>rs_manager := unsubscribe c (rs_manager (sw_run w))\<rparr>\<rparr> in
      if e = Bug then w\<lparr>sw_stage := (sw_stage w)(c := Failing sid)\<rparr>
      else w\<lparr>sw_sockets := unregister_socket sid c (sw_sockets w), sw_stage := (sw_stage w)(c := Done)\<rparr>)"

text \<open>\<^verbatim>\<open>_drain\<close>: whatever the client sends is ignored until it disconnects; \<open>None\<close> while it is still waiting.\<close>

fun drain :: "frame list \<Rightarrow> frame list option" where
  "drain [] = None"
| "drain (Disconnect # frames) = Some frames"
| "drain (Frame text # frames) = drain frames"

text \<open>A step of the builds that no stream takes part in.\<close>

definition builds_only :: "'c run_state \<Rightarrow> 'c run_state \<Rightarrow> bool" where
  "builds_only r r' \<longleftrightarrow> fst ` set (bm_queues (rs_manager r')) = fst ` set (bm_queues (rs_manager r))
     \<and> rs_read r' = rs_read r \<and> rs_snapshot r' = rs_snapshot r"

inductive stream_step :: "'c stream_world \<Rightarrow> 'c stream_world \<Rightarrow> bool" where
  entered: "sw_stage w c = Idle \<Longrightarrow> stream_step w (enter_stream sid c w)"
| greeted: "sw_stage w c = Greeting sid None \<Longrightarrow> stream_step w (send_message c WsReady (Live sid None) w)"
| greeted_on: "sw_stage w c = Greeting sid (Some t) \<Longrightarrow> stream_step w (send_message c WsReady (Showing sid t) w)"
| shown: "sw_stage w c = Showing sid t \<Longrightarrow> stream_step w (send_message c (WsSnapshot t) (Live sid None) w)"
| taken: "sw_stage w c = Live sid None \<Longrightarrow> forward_next sid c w = Some w' \<Longrightarrow> stream_step w w'"
| forwarded: "sw_stage w c = Live sid (Some ev) \<Longrightarrow> stream_step w (send_message c (WsEvent ev) (Live sid None) w)"
| drained: "sw_stage w c = Live sid x \<Longrightarrow> drain frames = Some rest \<Longrightarrow>
    stream_step w (w\<lparr>sw_stage := (sw_stage w)(c := Clearing sid Gone)\<rparr>)"
| broken: "sw_stage w c = st \<Longrightarrow> st \<in> {Greeting sid snap, Showing sid t, Live sid x} \<Longrightarrow>
    stream_step w (w\<lparr>sw_stage := (sw_stage w)(c := Clearing sid e)\<rparr>)"
| cleared: "sw_stage w c = Clearing sid e \<Longrightarrow> e' \<in> {e, Stopped} \<Longrightarrow> stream_step w (leave_stream sid e' c w)"
| closed: "sw_stage w c = Failing sid \<Longrightarrow>
    stream_step w (w\<lparr>sw_sockets := unregister_socket sid c (sw_sockets w), sw_stage := (sw_stage w)(c := Done)\<rparr>)"
| builds: "run_step (sw_run w) r \<Longrightarrow> builds_only (sw_run w) r \<Longrightarrow> stream_step w (w\<lparr>sw_run := r\<rparr>)"

definition quiet_world :: "'c run_state \<Rightarrow> 'c stream_world" where
  "quiet_world r = \<lparr>sw_run = r, sw_sockets = [], sw_stage = (\<lambda>_. Idle), sw_sent = (\<lambda>_. [])\<rparr>"

inductive stream_reach :: "nat \<Rightarrow> nat \<Rightarrow> 'c stream_world \<Rightarrow> bool" for max_history queue_size :: nat where
  opens: "run_reach max_history queue_size r \<Longrightarrow> bm_queues (rs_manager r) = [] \<Longrightarrow> stream_reach max_history queue_size (quiet_world r)"
| later: "stream_reach max_history queue_size w \<Longrightarrow> stream_step w w' \<Longrightarrow> stream_reach max_history queue_size w'"

section \<open>The invariant\<close>

definition greeting :: "build_task option \<Rightarrow> ws_message list" where
  "greeting snap = WsReady # (case snap of None \<Rightarrow> [] | Some t \<Rightarrow> [WsSnapshot t])"

text \<open>What a connection has been sent, from the snapshot it was given and the events it took from its queue.\<close>

fun sent_ok :: "stage \<Rightarrow> build_task option \<Rightarrow> build_event list \<Rightarrow> ws_message list \<Rightarrow> bool" where
  "sent_ok Idle snap rd out \<longleftrightarrow> out = []"
| "sent_ok (Greeting sid s) snap rd out \<longleftrightarrow> out = [] \<and> s = snap \<and> rd = []"
| "sent_ok (Showing sid t) snap rd out \<longleftrightarrow> out = [WsReady] \<and> snap = Some t \<and> rd = []"
| "sent_ok (Live sid None) snap rd out \<longleftrightarrow> out = greeting snap @ map WsEvent rd"
| "sent_ok (Live sid (Some ev)) snap rd out \<longleftrightarrow> (\<exists>es. rd = es @ [ev] \<and> out = greeting snap @ map WsEvent es)"
| "sent_ok st snap rd out \<longleftrightarrow> prefix out (greeting snap @ map WsEvent rd)"

definition registered :: "'c session_sockets \<Rightarrow> ('c \<Rightarrow> stage) \<Rightarrow> bool" where
  "registered reg f \<longleftrightarrow> (\<forall>sid. distinct (sockets_of reg sid) \<and> set (sockets_of reg sid) = {c. stage_session (f c) = Some sid})"

definition world_ok :: "nat \<Rightarrow> nat \<Rightarrow> 'c stream_world \<Rightarrow> bool" where
  "world_ok max_history queue_size w \<longleftrightarrow> run_reach max_history queue_size (sw_run w)
     \<and> fst ` set (bm_queues (rs_manager (sw_run w))) = {c. subscribed (sw_stage w c)}
     \<and> registered (sw_sockets w) (sw_stage w)
     \<and> (\<forall>c. sent_ok (sw_stage w c) (rs_snapshot (sw_run w) c) (rs_read (sw_run w) c) (sw_sent w c))"

lemma sent_ok_prefix: "sent_ok st snap rd out \<Longrightarrow> prefix out (greeting snap @ map WsEvent rd)"
  by (cases "(st, snap, rd, out)" rule: sent_ok.cases) (auto simp: greeting_def)

lemma drain_ends: "drain frames = None \<longleftrightarrow> Disconnect \<notin> set frames"
  by (induction frames rule: drain.induct) auto

lemma unsubscribe_keys: "fst ` set (bm_queues (unsubscribe c m)) = fst ` set (bm_queues m) - {c}"
  by (auto simp: unsubscribe_def image_iff)

lemma open_stream_keys: "fst ` set (bm_queues (snd (open_stream c m))) = insert c (fst ` set (bm_queues m))"
  by (simp add: open_stream_def Let_def subscribe_def)

lemma forward_nextE:
  assumes "forward_next sid c w = Some w'"
  obtains ev m where "take_event c (rs_manager (sw_run w)) = Some (WsEvent ev, m)"
    "w' = w\<lparr>sw_run := (sw_run w)\<lparr>rs_manager := m, rs_read := (rs_read (sw_run w))(c := rs_read (sw_run w) c @ [ev])\<rparr>,
            sw_stage := (sw_stage w)(c := Live sid (Some ev))\<rparr>"
    "fst ` set (bm_queues m) = fst ` set (bm_queues (rs_manager (sw_run w)))"
proof -
  obtain ev m where *: "take_event c (rs_manager (sw_run w)) = Some (WsEvent ev, m)"
    "w' = w\<lparr>sw_run := (sw_run w)\<lparr>rs_manager := m, rs_read := (rs_read (sw_run w))(c := rs_read (sw_run w) c @ [ev])\<rparr>,
            sw_stage := (sw_stage w)(c := Live sid (Some ev))\<rparr>"
    using assms by (auto simp: forward_next_def Let_def split: option.splits prod.splits ws_message.splits)
  then have "fst ` set (bm_queues m) = fst ` set (bm_queues (rs_manager (sw_run w)))"
    by (force simp: take_event_def split: option.splits list.splits)
  then show thesis using that * by blast
qed

text \<open>Every step of a stream is a step of the builds it listens to, or leaves them alone.\<close>

lemma entered_run:
  assumes "world_ok h q w" and "sw_stage w c = Idle"
  shows "run_step (sw_run w) (sw_run (enter_stream sid c w))"
proof -
  have "c \<notin> fst ` set (bm_queues (rs_manager (sw_run w)))" using assms by (simp add: world_ok_def)
  from run_step.joined [OF this, of "fst (open_stream c (rs_manager (sw_run w)))" "snd (open_stream c (rs_manager (sw_run w)))"]
  show ?thesis by (simp add: enter_stream_def Let_def)
qed

lemma registered_enter:
  "registered reg f \<Longrightarrow> stage_session (f c) = None \<Longrightarrow> stage_session st = Some x \<Longrightarrow> registered (register_socket x c reg) (f(c := st))"
  by (auto simp: registered_def sockets_of_register)

lemma registered_leave:
  "registered reg f \<Longrightarrow> stage_session (f c) = Some x \<Longrightarrow> stage_session st = None \<Longrightarrow> registered (unregister_socket x c reg) (f(c := st))"
  by (auto simp: registered_def sockets_of_unregister distinct_removeAll)

lemma registered_stay: "registered reg f \<Longrightarrow> stage_session (f c) = x \<Longrightarrow> stage_session st = x \<Longrightarrow> registered reg (f(c := st))"
  by (auto simp: registered_def)

lemma subscribed_stay: "S = {d. subscribed (f d)} \<Longrightarrow> subscribed st = subscribed (f c) \<Longrightarrow> S = {d. subscribed ((f(c := st)) d)}"
  by auto

lemma world_sent: "world_ok h q w \<Longrightarrow> sent_ok (sw_stage w c) (rs_snapshot (sw_run w) c) (rs_read (sw_run w) c) (sw_sent w c)"
  by (simp add: world_ok_def)

text \<open>A change of one handler that keeps its session and its subscription.\<close>

lemma world_ok_stage:
  assumes "world_ok h q w" and "stage_session st = stage_session (sw_stage w c)" and "subscribed st = subscribed (sw_stage w c)"
    and "sent_ok st (rs_snapshot (sw_run w) c) (rs_read (sw_run w) c) out"
  shows "world_ok h q (w\<lparr>sw_sent := (sw_sent w)(c := out), sw_stage := (sw_stage w)(c := st)\<rparr>)"
  using assms registered_stay [of "sw_sockets w" "sw_stage w" c "stage_session st" st] subscribed_stay [of _ "sw_stage w" st c]
  unfolding world_ok_def by simp

lemma world_ok_clearing:
  assumes ok: "world_ok h q w" and "sw_stage w c = st" and "subscribed st" and "stage_session st = Some sid"
  shows "world_ok h q (w\<lparr>sw_stage := (sw_stage w)(c := Clearing sid e)\<rparr>)"
  using world_ok_stage [OF ok, of "Clearing sid e" c "sw_sent w c"] sent_ok_prefix [OF world_sent [OF ok]] assms(2-4) by simp

lemma world_ok_left:
  assumes ok: "world_ok h q w" and st: "sw_stage w c = Clearing sid e"
  shows "world_ok h q (leave_stream sid e' c w)"
proof -
  have "run_step (sw_run w) ((sw_run w)\<lparr>rs_manager := unsubscribe c (rs_manager (sw_run w))\<rparr>)" by (rule run_step.parted)
  then have run: "run_reach h q ((sw_run w)\<lparr>rs_manager := unsubscribe c (rs_manager (sw_run w))\<rparr>)"
    using ok run_reach.step unfolding world_ok_def by blast
  have sent: "prefix (sw_sent w c) (greeting (rs_snapshot (sw_run w) c) @ map WsEvent (rs_read (sw_run w) c))"
    using ok st by (metis sent_ok_prefix world_ok_def)
  have reg: "registered (sw_sockets w) (sw_stage w)" using ok by (simp add: world_ok_def)
  show ?thesis
  proof (cases "e' = Bug")
    case True
    then show ?thesis using ok run sent st registered_stay [OF reg, of c "Some sid" "Failing sid"]
      by (auto simp: leave_stream_def Let_def world_ok_def unsubscribe_keys)
  next
    case False
    then show ?thesis using ok run sent st registered_leave [OF reg, of c sid Done]
      by (auto simp: leave_stream_def Let_def world_ok_def unsubscribe_keys)
  qed
qed

lemma stream_step_ok: "stream_step w w' \<Longrightarrow> world_ok h q w \<Longrightarrow> world_ok h q w'"
proof (induction rule: stream_step.induct)
  case (entered w c sid)
  note run = entered_run [OF entered.prems entered.hyps, of sid]
  have "sw_sent w c = []" using world_sent [OF entered.prems, of c] entered.hyps by simp
  moreover have "registered (sw_sockets w) (sw_stage w)" using entered.prems by (simp add: world_ok_def)
  note registered_enter [OF this, of c "Greeting sid (latest_task (rs_manager (sw_run w)))" sid]
  ultimately show ?case using entered run run_reach.step [OF _ run, of h q]
    by (auto simp: enter_stream_def Let_def world_ok_def open_stream_keys)
next
  case (greeted w c sid)
  then show ?case unfolding send_message_def by (intro world_ok_stage) (use world_sent [of h q w c] in \<open>auto simp: greeting_def\<close>)
next
  case (greeted_on w c sid t)
  then show ?case unfolding send_message_def by (intro world_ok_stage) (use world_sent [of h q w c] in \<open>auto simp: greeting_def\<close>)
next
  case (shown w c sid t)
  then show ?case unfolding send_message_def by (intro world_ok_stage) (use world_sent [of h q w c] in \<open>auto simp: greeting_def\<close>)
next
  case (taken w c sid w')
  obtain ev m where w': "take_event c (rs_manager (sw_run w)) = Some (WsEvent ev, m)"
    "w' = w\<lparr>sw_run := (sw_run w)\<lparr>rs_manager := m, rs_read := (rs_read (sw_run w))(c := rs_read (sw_run w) c @ [ev])\<rparr>,
            sw_stage := (sw_stage w)(c := Live sid (Some ev))\<rparr>"
    "fst ` set (bm_queues m) = fst ` set (bm_queues (rs_manager (sw_run w)))"
    using taken.hyps(2) by (rule forward_nextE)
  have "run_reach h q ((sw_run w)\<lparr>rs_manager := m, rs_read := (rs_read (sw_run w))(c := rs_read (sw_run w) c @ [ev])\<rparr>)"
    using taken.prems run_reach.step [OF _ run_step.consumed [OF w'(1)]] by (simp add: world_ok_def)
  moreover have "sw_sent w c = greeting (rs_snapshot (sw_run w) c) @ map WsEvent (rs_read (sw_run w) c)"
    using world_sent [OF taken.prems, of c] taken.hyps by simp
  ultimately show ?case
    using taken registered_stay [of "sw_sockets w" "sw_stage w" c "Some sid" "Live sid (Some ev)"] w'(3) unfolding w'(2) world_ok_def by auto
next
  case (forwarded w c sid ev)
  then have "sent_ok (Live sid (Some ev)) (rs_snapshot (sw_run w) c) (rs_read (sw_run w) c) (sw_sent w c)"
    by (metis world_ok_def)
  then show ?case using forwarded unfolding send_message_def by (intro world_ok_stage) auto
next
  case (drained w c sid x frames rest)
  then show ?case using world_ok_clearing [of h q w c "Live sid x" sid Gone] by simp
next
  case (broken w c st sid snap t x e)
  then show ?case using world_ok_clearing [of h q w c st sid e] by auto
next
  case (cleared w c sid e e')
  show ?case by (rule world_ok_left [OF cleared.prems cleared.hyps(1)])
next
  case (closed w c sid)
  then show ?case using registered_leave [of "sw_sockets w" "sw_stage w" c sid Done] world_sent [OF closed.prems, of c]
    by (auto simp: world_ok_def)
next
  case (builds w r)
  then show ?case using run_reach.step by (auto simp: world_ok_def builds_only_def)
qed

lemma stream_reach_ok: "stream_reach h q w \<Longrightarrow> world_ok h q w"
proof (induction rule: stream_reach.induct)
  case (opens r)
  then show ?case by (simp add: world_ok_def quiet_world_def registered_def sockets_of_def)
next
  case (later w w')
  then show ?case using stream_step_ok by blast
qed

section \<open>A sample stream\<close>

text \<open>A connection joins an idle service, a build starts and fails, the client is sent all of it and goes.\<close>

definition sample_world :: "unit run_state \<Rightarrow> stage \<Rightarrow> ws_message list \<Rightarrow> unit stream_world" where
  "sample_world r st out = \<lparr>sw_run = r, sw_sockets = [(lit ''sid'', [()])], sw_stage = (\<lambda>_. st), sw_sent = (\<lambda>_. out)\<rparr>"

abbreviation "sample_joined \<equiv> sample_run (sample_manager [] None []) [] []"

lemma world_eqI: "sw_run v = sw_run w \<Longrightarrow> sw_sockets v = sw_sockets w \<Longrightarrow> sw_stage v = sw_stage w \<Longrightarrow> sw_sent v = sw_sent w \<Longrightarrow> v = (w :: 'c stream_world)"
  by (cases v; cases w) simp

lemma sample_greeted: "stream_reach 10 512 (sample_world sample_joined (Live (lit ''sid'') None) [WsReady])"
proof -
  let ?idle = "\<lparr>rs_manager = new_manager 10 512, rs_published = (\<lambda>_. []), rs_read = (\<lambda>_. []), rs_snapshot = (\<lambda>_. None)\<rparr> :: unit run_state"
  have "stream_reach 10 512 (quiet_world ?idle)" by (rule stream_reach.opens [OF run_reach.idle]) (simp add: new_manager_def)
  from stream_reach.later [OF this stream_step.entered, of "()" "lit ''sid''"]
  have "stream_reach 10 512 (enter_stream (lit ''sid'') () (quiet_world ?idle))" by (simp add: quiet_world_def)
  moreover have "enter_stream (lit ''sid'') () (quiet_world ?idle) = sample_world sample_joined (Greeting (lit ''sid'') None) []"
    by (rule world_eqI)
      (simp_all add: enter_stream_def quiet_world_def sample_world_def register_socket_def sockets_of_def open_stream_def subscribe_def
        new_manager_def latest_task_def sample_run_def sample_manager_def Let_def fun_eq_iff)
  ultimately have "stream_reach 10 512 (sample_world sample_joined (Greeting (lit ''sid'') None) [])" by simp
  from stream_reach.later [OF this stream_step.greeted, of "()" "lit ''sid''"] show ?thesis
    by (simp add: sample_world_def send_message_def fun_upd_def)
qed

lemma sample_builds:
  assumes "stream_reach 10 512 (sample_world r st out)" and "run_step r r'" and "builds_only r r'"
  shows "stream_reach 10 512 (sample_world r' st out)"
proof -
  have "stream_step (sample_world r st out) ((sample_world r st out)\<lparr>sw_run := r'\<rparr>)"
    using assms(2,3) by (intro stream_step.builds) (simp_all add: sample_world_def)
  then show ?thesis using stream_reach.later [OF assms(1)] by (simp add: sample_world_def)
qed

lemma sample_forward:
  assumes "stream_reach 10 512 (sample_world (sample_done (ev # es) rd) (Live (lit ''sid'') None) out)"
  shows "stream_reach 10 512 (sample_world (sample_done es (rd @ [ev])) (Live (lit ''sid'') None) (out @ [WsEvent ev]))"
proof -
  have "forward_next (lit ''sid'') () (sample_world (sample_done (ev # es) rd) (Live (lit ''sid'') None) out)
      = Some (sample_world (sample_done es (rd @ [ev])) (Live (lit ''sid'') (Some ev)) out)"
    by (simp add: forward_next_def Let_def take_event_def sample_world_def sample_run_def sample_manager_def fun_upd_def)
  then have "stream_reach 10 512 (sample_world (sample_done es (rd @ [ev])) (Live (lit ''sid'') (Some ev)) out)"
    using assms by (intro stream_reach.later [OF assms] stream_step.taken) (simp_all add: sample_world_def)
  from stream_reach.later [OF this stream_step.forwarded, of "()" "lit ''sid''" ev] show ?thesis
    by (simp add: sample_world_def send_message_def fun_upd_def)
qed

abbreviation "sample_told \<equiv> [WsReady, WsEvent (state_event sample_task), WsEvent (state_event sample_failed)]"

lemma sample_shown:
  "stream_reach 10 512 (sample_world (sample_done [] [state_event sample_task, state_event sample_failed]) (Live (lit ''sid'') None) sample_told)"
proof -
  have "stream_reach 10 512 (sample_world sample_running (Live (lit ''sid'') None) [WsReady])"
    by (rule sample_builds [OF sample_greeted sample_begins]) (simp add: builds_only_def sample_run_def sample_manager_def)
  then have "stream_reach 10 512 (sample_world (sample_done [state_event sample_task, state_event sample_failed] []) (Live (lit ''sid'') None) [WsReady])"
    by (rule sample_builds [OF _ sample_fails]) (simp add: builds_only_def sample_run_def sample_manager_def)
  from sample_forward [OF sample_forward [OF this]] show ?thesis by simp
qed

lemma sample_over:
  "stream_reach 10 512 ((sample_world (sample_run \<lparr>bm_max_history = 10, bm_queue_size = 512, bm_tasks = [(lit ''t'', sample_failed)],
       bm_active = None, bm_queues = []\<rparr> [state_event sample_task, state_event sample_failed] [state_event sample_task, state_event sample_failed])
     Done sample_told)\<lparr>sw_sockets := []\<rparr>)"
proof -
  let ?r = "sample_done [] [state_event sample_task, state_event sample_failed]"
  have "stream_step (sample_world ?r (Live (lit ''sid'') None) sample_told) (sample_world ?r (Clearing (lit ''sid'') Gone) sample_told)"
    using stream_step.broken [of "sample_world ?r (Live (lit ''sid'') None) sample_told" "()" "Live (lit ''sid'') None" "lit ''sid''" None sample_task None Gone]
    by (simp add: sample_world_def fun_upd_def)
  from stream_reach.later [OF sample_shown this]
  have "stream_reach 10 512 (sample_world ?r (Clearing (lit ''sid'') Gone) sample_told)" .
  from stream_reach.later [OF this stream_step.cleared, of "()" "lit ''sid''" Gone Gone] show ?thesis
    by (simp add: sample_world_def leave_stream_def Let_def unsubscribe_def unregister_socket_def sample_run_def sample_manager_def fun_upd_def)
qed

section \<open>Properties\<close>

text \<open>C22: No stream leaves anything behind: however connections begin, fail, are closed or cancelled beside running builds,
  exactly the handlers that have not finished their cleanup hold a queue and exactly those not over yet are registered under
  their session; once every handler is over there is no subscriber and no registered socket.\<close>
theorem streams_leave_nothing:
  assumes "stream_reach max_history queue_size w"
  shows "subscriber_count (rs_manager (sw_run w)) = Finite_Set.card {c. subscribed (sw_stage w c)}
    \<and> fst ` set (bm_queues (rs_manager (sw_run w))) = {c. subscribed (sw_stage w c)}
    \<and> (\<forall>sid. set (sockets_of (sw_sockets w) sid) = {c. stage_session (sw_stage w c) = Some sid})
    \<and> ((\<forall>c. sw_stage w c \<in> {Idle, Done}) \<longrightarrow> bm_queues (rs_manager (sw_run w)) = [] \<and> (\<forall>sid. sockets_of (sw_sockets w) sid = []))"
proof -
  let ?m = "rs_manager (sw_run w)"
  have ok: "world_ok max_history queue_size w" using assms by (rule stream_reach_ok)
  then have keys: "fst ` set (bm_queues ?m) = {c. subscribed (sw_stage w c)}"
    and reg: "\<And>sid. set (sockets_of (sw_sockets w) sid) = {c. stage_session (sw_stage w c) = Some sid}"
    by (simp_all add: world_ok_def registered_def)
  have "distinct (map fst (bm_queues ?m))" using ok run_reach_inv by (auto simp: world_ok_def queues_inv_def)
  then have "subscriber_count ?m = Finite_Set.card (fst ` set (bm_queues ?m))"
    using distinct_card [of "map fst (bm_queues ?m)"] by (simp add: subscriber_count_def)
  moreover have "bm_queues ?m = [] \<and> (\<forall>sid. sockets_of (sw_sockets w) sid = [])" if over: "\<forall>c. sw_stage w c \<in> {Idle, Done}"
  proof -
    have "\<not> subscribed (sw_stage w c) \<and> stage_session (sw_stage w c) = None" for c
      using over [THEN spec, of c] by auto
    then show ?thesis using keys reg by simp
  qed
  ultimately show ?thesis using keys reg by simp
qed

theorem streams_leave_nothing_witness:
  "subscriber_count (rs_manager (sw_run (sample_world sample_joined (Live (lit ''sid'') None) [WsReady]))) = 1
     \<and> (\<exists>w :: unit stream_world. stream_reach 10 512 w \<and> sw_sent w () = sample_told \<and> bm_queues (rs_manager (sw_run w)) = [])"
  using streams_leave_nothing [OF sample_greeted] streams_leave_nothing [OF sample_over] sample_over
  by (auto simp: sample_world_def)

text \<open>C21: A stream shows what happened: a client is sent \<open>ready\<close>, the latest build when it joined and then events of
  its queue in the order they were published, without repetition; and while no build runs, a live stream with nothing left to
  forward has shown the end of the latest build as its last message, although a full queue drops events.\<close>
theorem streams_show_the_end:
  assumes "stream_reach max_history queue_size w"
  shows "prefix (sw_sent w c) (greeting (rs_snapshot (sw_run w) c) @ map WsEvent (rs_read (sw_run w) c))
    \<and> (subscribed (sw_stage w c) \<longrightarrow> subseq (rs_read (sw_run w) c) (rs_published (sw_run w) c))
    \<and> (\<forall>sid. sw_stage w c = Live sid None \<and> take_event c (rs_manager (sw_run w)) = None \<and> bm_active (rs_manager (sw_run w)) = None
         \<longrightarrow> (case latest_task (rs_manager (sw_run w)) of
                None \<Rightarrow> sw_sent w c = [WsReady]
              | Some t \<Rightarrow> last (sw_sent w c) \<in> {WsSnapshot t, WsEvent (state_event t)}))"
proof -
  let ?r = "sw_run w" and ?m = "rs_manager (sw_run w)"
  have ok: "world_ok max_history queue_size w" using assms by (rule stream_reach_ok)
  note sent = world_sent [OF ok, of c]
  have queue: "\<exists>es. map_of (bm_queues ?m) c = Some es
      \<and> queue_ok (bm_queue_size ?m) (bm_active ?m) (latest_task ?m) (rs_snapshot ?r c) (rs_published ?r c) (rs_read ?r c) es"
    if sub: "subscribed (sw_stage w c)"
  proof -
    have "queues_inv ?r" using ok run_reach_inv by (auto simp: world_ok_def)
    moreover have "c \<in> fst ` set (bm_queues ?m)" using ok sub by (simp add: world_ok_def)
    ultimately show ?thesis by (force simp: queues_inv_def)
  qed
  have order: "subseq (rs_read ?r c) (rs_published ?r c)" if "subscribed (sw_stage w c)"
    using queue [OF that] by (auto simp: queue_ok_def intro: subseq_order.trans [rotated])
  have shown: "case latest_task ?m of None \<Rightarrow> sw_sent w c = [WsReady] | Some t \<Rightarrow> last (sw_sent w c) \<in> {WsSnapshot t, WsEvent (state_event t)}"
    if live: "sw_stage w c = Live sid None" and idle: "take_event c ?m = None" "bm_active ?m = None" for sid
  proof -
    obtain es where es: "map_of (bm_queues ?m) c = Some es"
      and q: "queue_ok (bm_queue_size ?m) None (latest_task ?m) (rs_snapshot ?r c) (rs_published ?r c) (rs_read ?r c) es"
      using queue live idle(2) by auto
    have "es = []" using idle(1) es by (auto simp: take_event_def split: list.splits)
    moreover have "sw_sent w c = greeting (rs_snapshot ?r c) @ map WsEvent (rs_read ?r c)" using sent live by simp
    ultimately show ?thesis using q
      by (cases "rs_published ?r c = []") (auto simp: queue_ok_def greeting_def last_map split: option.splits if_splits)
  qed
  show ?thesis using sent_ok_prefix [OF sent] order shown by (intro conjI allI impI) auto
qed

theorem streams_show_the_end_witness:
  "stream_reach 10 512 (sample_world (sample_done [] [state_event sample_task, state_event sample_failed]) (Live (lit ''sid'') None) sample_told)
     \<and> last sample_told = WsEvent (state_event sample_failed)"
  using streams_show_the_end [OF sample_shown, of "()"] sample_shown
  by (auto simp: sample_world_def sample_run_def sample_manager_def take_event_def latest_task_def)

end
