(* ===== verification/BuildRunner.thy ===== *)
theory BuildRunner
  imports BuildProperties
begin

text \<open>
  \<^verbatim>\<open>BuildTaskManager._run\<close> in \<^verbatim>\<open>orchestration/build_tasks.py\<close> with its worker thread: a thread cannot be interrupted, so a
  runner that is cancelled, once or again and again, waits for its thread before it gives the slot of the build back.
  \<open>runner_step\<close> has one rule per stretch between two awaits of the runner and one for the end of a thread.  A runner is
  cancelled at its awaits only; nothing in the program cancels one that has not begun.
\<close>

section \<open>The runner and its thread\<close>

text \<open>Created and not begun; waiting for the shielded worker; cancelled and waiting for the worker all the same.\<close>

datatype runner_phase = Preparing | Awaiting | Draining

record 'q runner_world =
  rw_manager :: "'q build_manager"
  rw_runner :: "(ustr \<times> runner_phase) option"
  rw_threads :: "ustr list"

definition start_runner :: "ustr \<Rightarrow> int \<Rightarrow> bool \<Rightarrow> 'q runner_world \<Rightarrow> ustr + 'q runner_world" where
  "start_runner i now dry w =
     (case start_build i now dry (rw_manager w) of
        Inl j \<Rightarrow> Inl j
      | Inr (t, m) \<Rightarrow> Inr (w\<lparr>rw_manager := m, rw_runner := Some (i, Preparing)\<rparr>))"

text \<open>The \<^verbatim>\<open>finally\<close> of the runner: the slot is free and the end is published.\<close>

definition release_runner :: "ustr \<Rightarrow> int \<Rightarrow> run_end \<Rightarrow> 'q runner_world \<Rightarrow> 'q runner_world" where
  "release_runner i now e w = w\<lparr>rw_manager := finish_build i now e (rw_manager w), rw_runner := None\<rparr>"

text \<open>The first stretch of the runner: the factory fails, or the thread is started and awaited.\<close>

definition begin_runner :: "ustr \<Rightarrow> int \<Rightarrow> ustr option \<Rightarrow> 'q runner_world \<Rightarrow> 'q runner_world" where
  "begin_runner i now factory_error w =
     (case factory_error of
        Some e \<Rightarrow> release_runner i now (Raised e) w
      | None \<Rightarrow> w\<lparr>rw_runner := Some (i, Awaiting), rw_threads := i # rw_threads w\<rparr>)"

text \<open>A cancellation at the await of the worker, or during the wait of \<^verbatim>\<open>_wait_for_worker\<close>, which goes on waiting.\<close>

definition cancel_runner :: "ustr \<Rightarrow> runner_phase \<Rightarrow> 'q runner_world \<Rightarrow> 'q runner_world" where
  "cancel_runner i ph w =
     (if ph = Awaiting then w\<lparr>rw_manager := cancel_build i (rw_manager w), rw_runner := Some (i, Draining)\<rparr> else w)"

text \<open>What the runner does when it goes on: nothing while its thread is alive.\<close>

definition resume_runner :: "ustr \<Rightarrow> int \<Rightarrow> runner_phase \<Rightarrow> run_end \<Rightarrow> 'q runner_world \<Rightarrow> 'q runner_world" where
  "resume_runner i now ph outcome w =
     (if i \<in> set (rw_threads w) then w
      else release_runner i now (if ph = Draining then Cancelled else outcome) w)"

text \<open>\<^verbatim>\<open>aclose\<close>: whether a build that is still running at the end of its patience is logged.\<close>

definition aclose_warns :: "bool \<Rightarrow> 'q runner_world \<Rightarrow> bool" where
  "aclose_warns ended_in_time w \<longleftrightarrow> rw_runner w \<noteq> None \<and> \<not> ended_in_time"

inductive runner_step :: "'q runner_world \<Rightarrow> 'q runner_world \<Rightarrow> bool" where
  started: "i \<notin> fst ` set (bm_tasks (rw_manager w)) \<Longrightarrow> start_runner i now dry w = Inr w' \<Longrightarrow> runner_step w w'"
| began: "rw_runner w = Some (i, Preparing) \<Longrightarrow> runner_step w (begin_runner i now factory_error w)"
| cancelled: "rw_runner w = Some (i, ph) \<Longrightarrow> ph \<noteq> Preparing \<Longrightarrow> runner_step w (cancel_runner i ph w)"
| resumed: "rw_runner w = Some (i, ph) \<Longrightarrow> ph \<noteq> Preparing \<Longrightarrow> outcome \<noteq> Cancelled \<Longrightarrow>
    runner_step w (resume_runner i now ph outcome w)"
| thread_ended: "runner_step w (w\<lparr>rw_threads := remove1 i (rw_threads w)\<rparr>)"
| reported: "runner_step w (w\<lparr>rw_manager := on_progress i p (rw_manager w)\<rparr>)"

inductive runner_reach :: "nat \<Rightarrow> nat \<Rightarrow> 'q runner_world \<Rightarrow> bool" for max_history queue_size :: nat where
  idle: "runner_reach max_history queue_size \<lparr>rw_manager = new_manager max_history queue_size, rw_runner = None, rw_threads = []\<rparr>"
| next_step: "runner_reach max_history queue_size w \<Longrightarrow> runner_step w w' \<Longrightarrow> runner_reach max_history queue_size w'"

section \<open>The invariant\<close>

definition runner_ok :: "'q runner_world \<Rightarrow> bool" where
  "runner_ok w \<longleftrightarrow> tasks_inv (rw_manager w) \<and> bm_active (rw_manager w) = map_option fst (rw_runner w)
     \<and> (case rw_runner w of
          None \<Rightarrow> rw_threads w = []
        | Some (i, ph) \<Rightarrow>
            rw_threads w \<in> {[], [i]} \<and> (ph = Preparing \<longrightarrow> rw_threads w = [])
            \<and> (\<exists>t. get_task i (rw_manager w) = Some t \<and> (ph = Draining \<or> bt_state t = RUNNING)))"

lemma runner_ok_release:
  assumes ok: "runner_ok w" and run: "rw_runner w = Some (i, ph)" and free: "rw_threads w = []" and e: "ph \<noteq> Draining \<or> e = Cancelled"
  shows "runner_ok (release_runner i now e w)"
proof -
  obtain t where t: "get_task i (rw_manager w) = Some t" "ph = Draining \<or> bt_state t = RUNNING"
    using ok run by (auto simp: runner_ok_def)
  have "tasks_inv (finish_build i now e (rw_manager w))"
    using ok run t e by (intro tasks_finish) (auto simp: runner_ok_def)
  then show ?thesis using free by (simp add: release_runner_def runner_ok_def finish_build_eq [OF t(1)])
qed

lemma tasks_inv_progress:
  assumes "tasks_inv m"
  shows "tasks_inv (on_progress i p m)"
proof (cases "\<exists>t. get_task i m = Some t \<and> bt_state t = RUNNING")
  case True
  let ?f = "\<lambda>t. t\<lparr>bt_progress := Some p\<rparr>"
  show ?thesis
  proof (rule tasks_inv_update [OF assms, where f = ?f and i = i and act = "bm_active m"])
    show "\<forall>q \<in> set (bm_tasks m). task_ok (bm_active m) (fst q, if fst q = i then ?f (snd q) else snd q)"
      using assms by (fastforce simp: tasks_inv_def)
  qed (use True in \<open>auto simp: on_progress_def\<close>)
qed (use assms in \<open>auto simp: on_progress_def split: option.split\<close>)

lemma get_task_publish [simp]: "get_task j (publish ev m) = get_task j m"
  by (simp add: get_task_def)

lemma get_task_progress:
  "get_task j (on_progress i p m) = map_option (\<lambda>t. if j = i \<and> bt_state t = RUNNING then t\<lparr>bt_progress := Some p\<rparr> else t) (get_task j m)"
  by (cases "get_task j m"; cases "get_task i m")
    (auto simp: on_progress_def get_task_update)

lemma progress_keeps_state:
  "get_task j m = Some t \<Longrightarrow> \<exists>t'. get_task j (on_progress i p m) = Some t' \<and> bt_state t' = bt_state t"
  by (simp add: get_task_progress)

lemma active_progress [simp]: "bm_active (on_progress i p m) = bm_active m"
  by (auto simp: on_progress_def split: option.split)

lemma runner_step_ok: "runner_step w w' \<Longrightarrow> runner_ok w \<Longrightarrow> runner_ok w'"
proof (induction rule: runner_step.induct)
  case (started i w now dry w')
  then obtain t m where m: "start_build i now dry (rw_manager w) = Inr (t, m)"
    and w': "w' = w\<lparr>rw_manager := m, rw_runner := Some (i, Preparing)\<rparr>"
    by (auto simp: start_runner_def split: sum.splits prod.splits)
  have inv: "tasks_inv (rw_manager w)" using started.prems by (simp add: runner_ok_def)
  note c = start_build_cases [OF m inv started.hyps(1)] and l = tasks_step_start [OF m inv started.hyps(1)]
  have "(i, t) \<in> set (bm_tasks m)"
    using l c by (auto simp: latest_task_def tasks_inv_def split: if_splits)
  then have "get_task i m = Some t" using l get_task_unique by blast
  moreover have "rw_threads w = []" using started.prems c by (auto simp: runner_ok_def split: option.splits)
  ultimately show ?case using c l by (simp add: runner_ok_def w')
next
  case (began w i now factory_error)
  then have free: "rw_threads w = []" by (simp add: runner_ok_def)
  show ?case
  proof (cases factory_error)
    case None
    then show ?thesis using began free by (auto simp: begin_runner_def runner_ok_def)
  next
    case (Some e)
    then show ?thesis using runner_ok_release [OF began.prems began.hyps free] by (simp add: begin_runner_def)
  qed
next
  case (cancelled w i ph)
  show ?case
  proof (cases "ph = Awaiting")
    case True
    have inv: "tasks_inv (rw_manager w)" using cancelled.prems by (simp add: runner_ok_def)
    have "tasks_inv (cancel_build i (rw_manager w))"
      unfolding cancel_build_def
    proof (rule tasks_inv_update [OF inv, where f = "settle Cancelled" and i = i and act = "bm_active (rw_manager w)"])
      show "\<forall>p \<in> set (bm_tasks (rw_manager w)). task_ok (bm_active (rw_manager w)) (fst p, if fst p = i then settle Cancelled (snd p) else snd p)"
        using inv by (fastforce simp: tasks_inv_def simp del: settle.simps)
    qed simp_all
    then show ?thesis using True cancelled
      by (auto simp: cancel_runner_def runner_ok_def cancel_build_def get_task_update)
  qed (use cancelled in \<open>simp add: cancel_runner_def\<close>)
next
  case (resumed w i ph outcome now)
  show ?case
  proof (cases "i \<in> set (rw_threads w)")
    case False
    then have "rw_threads w = []" using resumed by (auto simp: runner_ok_def)
    then show ?thesis using runner_ok_release [OF resumed.prems resumed.hyps(1)] by (simp add: resume_runner_def)
  qed (use resumed in \<open>simp add: resume_runner_def\<close>)
next
  case (thread_ended w i)
  have "remove1 i [k] = [] \<or> remove1 i [k] = [k]" for k by simp
  then show ?case using thread_ended by (auto simp: runner_ok_def split: option.splits if_splits)
next
  case (reported w i p)
  then show ?case using progress_keeps_state [of _ "rw_manager w" _ i p]
    by (fastforce simp: runner_ok_def tasks_inv_progress split: option.splits)
qed

lemma runner_reach_ok: "runner_reach h q w \<Longrightarrow> runner_ok w"
proof (induction rule: runner_reach.induct)
  case idle
  then show ?case by (simp add: runner_ok_def tasks_inv_def new_manager_def)
next
  case (next_step w w')
  then show ?case using runner_step_ok by blast
qed

section \<open>One writer\<close>

text \<open>C20: At most one thread builds content at any time, also when runners are cancelled while their thread writes: as long as
  a thread is alive its build is the active one and another is refused, a cancelled build is reported as failed at once but
  keeps its slot, and a build can start again exactly when no runner is left.\<close>
theorem one_thread_at_a_time:
  assumes "runner_reach max_history queue_size w"
  shows "length (rw_threads w) \<le> 1
    \<and> (\<forall>i \<in> set (rw_threads w). start_runner j now dry w = Inl i \<and> (\<exists>ph. rw_runner w = Some (i, ph) \<and> ph \<noteq> Preparing))
    \<and> (\<forall>i ph. rw_runner w = Some (i, ph) \<longrightarrow> (\<exists>t. get_task i (rw_manager w) = Some t \<and> bt_finished_at t = None
         \<and> (ph \<noteq> Draining \<longrightarrow> bt_state t = RUNNING)))
    \<and> ((\<exists>w'. start_runner j now dry w = Inr w') \<longleftrightarrow> rw_runner w = None)"
proof -
  have ok: "runner_ok w" using assms by (rule runner_reach_ok)
  have start: "(case rw_runner w of None \<Rightarrow> \<exists>w'. start_runner j now dry w = Inr w' | Some (i, ph) \<Rightarrow> start_runner j now dry w = Inl i)"
  proof (cases "rw_runner w")
    case None
    then have "bm_active (rw_manager w) = None" using ok by (simp add: runner_ok_def)
    then show ?thesis using None by (simp add: start_runner_def start_build_def Let_def)
  next
    case (Some r)
    then have "bm_active (rw_manager w) = Some (fst r)" using ok by (simp add: runner_ok_def)
    then show ?thesis using Some by (simp add: start_runner_def start_build_def case_prod_unfold)
  qed
  have unfinished: "bt_finished_at t = None" if "rw_runner w = Some (i, ph)" "get_task i (rw_manager w) = Some t" for i ph t
  proof -
    have active: "bm_active (rw_manager w) = Some i" and inv: "tasks_inv (rw_manager w)" using ok that(1) by (simp_all add: runner_ok_def)
    then have "task_ok (Some i) (i, t)" using get_task_mem [OF that(2)] by (auto simp: tasks_inv_def)
    then show ?thesis by (simp add: task_ok_def)
  qed
  show ?thesis
  proof (cases "rw_runner w")
    case None
    then show ?thesis using ok start by (simp add: runner_ok_def)
  next
    case (Some r)
    obtain i ph where r: "r = (i, ph)" by (cases r)
    then have run: "rw_runner w = Some (i, ph)" using Some by simp
    then have threads: "rw_threads w = [] \<or> rw_threads w = [i] \<and> ph \<noteq> Preparing"
      and task: "\<exists>t. get_task i (rw_manager w) = Some t \<and> (ph = Draining \<or> bt_state t = RUNNING)"
      using ok by (auto simp: runner_ok_def)
    have refused: "start_runner j now dry w = Inl i" using start run by simp
    have alive: "\<forall>k \<in> set (rw_threads w). start_runner j now dry w = Inl k \<and> (\<exists>ph. rw_runner w = Some (k, ph) \<and> ph \<noteq> Preparing)"
      using threads refused run by auto
    have one: "length (rw_threads w) \<le> 1" using threads by auto
    obtain t where t: "get_task i (rw_manager w) = Some t" "ph = Draining \<or> bt_state t = RUNNING" using task by blast
    then have "\<exists>t. get_task i (rw_manager w) = Some t \<and> bt_finished_at t = None \<and> (ph \<noteq> Draining \<longrightarrow> bt_state t = RUNNING)"
      using unfinished [OF run t(1)] by blast
    then have active: "\<forall>k ph'. rw_runner w = Some (k, ph') \<longrightarrow> (\<exists>t. get_task k (rw_manager w) = Some t \<and> bt_finished_at t = None
        \<and> (ph' \<noteq> Draining \<longrightarrow> bt_state t = RUNNING))"
      by (simp add: run)
    have "(\<exists>w'. start_runner j now dry w = Inr w') \<longleftrightarrow> rw_runner w = None" by (simp add: refused run)
    with one alive active show ?thesis by (intro conjI)
  qed
qed

text \<open>A build that was cancelled while its thread is still writing.\<close>

definition cancelled_world :: "unit runner_world" where
  "cancelled_world = \<lparr>rw_manager = cancel_build (lit ''t'') (sample_manager [(lit ''t'', sample_task)] (Some (lit ''t'')) []) \<lparr>bm_queues := []\<rparr>,
     rw_runner = Some (lit ''t'', Draining), rw_threads = [lit ''t'']\<rparr>"

lemma cancelled_world_reached: "runner_reach 10 512 cancelled_world"
proof -
  let ?idle = "\<lparr>rw_manager = new_manager 10 512, rw_runner = None, rw_threads = []\<rparr> :: unit runner_world"
  let ?m = "(sample_manager [(lit ''t'', sample_task)] (Some (lit ''t'')) [])\<lparr>bm_queues := []\<rparr>"
  have "start_runner (lit ''t'') 5 False ?idle = Inr \<lparr>rw_manager = ?m, rw_runner = Some (lit ''t'', Preparing), rw_threads = []\<rparr>"
    by (simp add: start_runner_def start_build_def new_manager_def trim_history_def publish_def sample_manager_def sample_task_def Let_def)
  then have one: "runner_reach 10 512 \<lparr>rw_manager = ?m, rw_runner = Some (lit ''t'', Preparing), rw_threads = []\<rparr>"
    by (intro runner_reach.next_step [OF runner_reach.idle] runner_step.started) (simp_all add: new_manager_def)
  have two: "runner_reach 10 512 \<lparr>rw_manager = ?m, rw_runner = Some (lit ''t'', Awaiting), rw_threads = [lit ''t'']\<rparr>"
    using runner_reach.next_step [OF one runner_step.began, of "lit ''t''" 5 None] by (simp add: begin_runner_def)
  show ?thesis
    using runner_reach.next_step [OF two runner_step.cancelled, of "lit ''t''" Awaiting]
    by (simp add: cancel_runner_def cancelled_world_def cancel_build_def update_task_def sample_manager_def)
qed

theorem one_thread_at_a_time_witness:
  "start_runner (lit ''u'') 7 True cancelled_world = Inl (lit ''t'') \<and> rw_threads cancelled_world = [lit ''t'']"
  using one_thread_at_a_time [OF cancelled_world_reached, of "lit ''u''" 7 True] by (simp add: cancelled_world_def)

end
