(* ===== verification/Spec2Isabelle.thy ===== *)
theory Spec2Isabelle
  imports SessionProperties CoreProperties AuthProperties Throttle StreamProperties ContentBuild BuildProperties ConfigProperties Stats HttpShell Service
    BuildRun Schema JamdictThreads App Documented ConcurrentProperties StreamLife BuildRunner
begin

text \<open>
  Bunsho is a server for studying Japanese: it builds a content database (kana, kanji, vocabulary) from an Anki
  deck and a kanji dictionary, and schedules reviews of its cards for one user over HTTP.  These theories are a
  shallow embedding of the Python package \<^verbatim>\<open>src/src/bunsho\<close>: classes are records, enumerations are
  datatypes, every method is a function on the states it reads and writes, an exception is the \<open>Inl\<close> of a sum
  or a \<open>None\<close>.  Paths below are relative to that directory.

  \<^bold>\<open>How the parts interact.\<close>  A build (\<^verbatim>\<open>orchestration/content_build.py\<close>) imports the
  deck, asks the dictionary about its kanji and writes \<^verbatim>\<open>content.db\<close>.  The review session
  (\<^verbatim>\<open>orchestration/review_session.py\<close>) reads that database through a gate which checks it once, takes
  the settings and the card states from \<^verbatim>\<open>progress.db\<close>, and offers a due card or a new one that the
  policy, the availability of its type and the daily limit allow.  An answer carries the time of the last review as
  a token; the store records it only if that is still the last review.  The HTTP service authenticates, calls these
  operations and turns their errors into statuses; streams report the progress of a build over WebSockets.  At
  start the service takes the lock of the data folder and migrates \<^verbatim>\<open>progress.db\<close>.

  \<^bold>\<open>Foundations.\<close>
  \<^item> \<open>Prelude\<close>: strings as lists of code points (\<open>ustr\<close>, the strings of Python, so that the order is the
    code-point order), result types, minima; the collections \<open>key_facts\<close> and \<open>step_facts\<close>.
  \<^item> \<open>PyFloat\<close>: Python floats as rationals under rounding to 53 bits (\<open>fl\<close>), the locale \<open>rounding\<close>
    and its interpretation \<open>ieee\<close>.  Infinities and overflow do not arise in the arithmetic that is modelled.
  \<^item> \<open>PyTime\<close>: instants in microseconds, zones as a first offset with a list of changes, wall times with
    their fold and gap.  \<open>Timestamps\<close> (\<^verbatim>\<open>db/timestamps.py\<close>): the calendar, the rendered strings, their
    order and the parser.  \<open>StudyDay\<close> (\<^verbatim>\<open>services/study_day.py\<close>).

  \<^bold>\<open>Content.\<close>
  \<^item> \<open>Content\<close> (\<^verbatim>\<open>models/content.py\<close>, \<^verbatim>\<open>text.py\<close>,
    \<^verbatim>\<open>services/kanji_levels.py\<close>), \<open>KanaSource\<close> (\<^verbatim>\<open>services/kana_source.py\<close>),
    \<open>Furigana\<close> (\<^verbatim>\<open>services/furigana.py\<close>), \<open>DeckImport\<close> (\<^verbatim>\<open>services/anki_importer.py\<close>),
    \<open>Jamdict\<close> (\<^verbatim>\<open>services/jamdict_service.py\<close>), \<open>ContentBuild\<close>
    (\<^verbatim>\<open>orchestration/content_build.py\<close>).
  \<^item> \<open>ContentRepo\<close> (\<^verbatim>\<open>services/content_repository.py\<close>, \<^verbatim>\<open>services/content_catalog.py\<close>,
    \<^verbatim>\<open>services/content_access.py\<close>, \<^verbatim>\<open>context.py\<close>): tables as lists of rows, the writer that replaces
    the file in one step, the queries, the gate.
  \<^item> \<open>BuildTasks\<close> (\<^verbatim>\<open>orchestration/build_tasks.py\<close>): tasks, their history and the bounded queues of
    the subscribers; \<open>run_step\<close> interleaves builds, reads and joins.  \<open>BuildProperties\<close>.
    \<open>BuildRunner\<close>: the runner of a build and its thread under cancellation (\<open>runner_step\<close>).

  \<^bold>\<open>Reviews.\<close>
  \<^item> \<open>Review\<close> and \<open>Settings\<close> (\<^verbatim>\<open>models/review.py\<close>, \<^verbatim>\<open>models/review_settings.py\<close>,
    \<^verbatim>\<open>services/review_settings.py\<close>), \<open>Policies\<close> (\<^verbatim>\<open>services/new_card_policies.py\<close>; the locale
    \<open>card_policy\<close> is the protocol, interpreted for each policy and for the one the settings choose),
    \<open>Availability\<close> (\<^verbatim>\<open>services/type_availability.py\<close>), \<open>AnswerKey\<close>, \<open>Distractors\<close>,
    \<open>Scheduler\<close> (\<^verbatim>\<open>services/fsrs_scheduler.py\<close>, \<^verbatim>\<open>services/card_shuffle.py\<close>; the locale
    \<open>scheduling\<close> is the protocol).
  \<^item> \<open>ProgressRepo\<close>, \<open>ProgressQueries\<close> (\<^verbatim>\<open>db/models.py\<close>,
    \<^verbatim>\<open>db/progress_repository.py\<close>): the rows as they are stored, with times as strings, the queries and
    the transaction of a review.  \<open>ProgressLemmas\<close>: the store is an implementation of a map from cards to their
    last review with a log (\<open>abs\<close>-refinement), and the log only grows.  The locale \<open>key_value_store\<close> is what
    the settings service needs of the table of settings.
  \<^item> \<open>Session\<close> (\<^verbatim>\<open>orchestration/review_session.py\<close>, \<^verbatim>\<open>models/review_session.py\<close>), its lemmas
    in the locale \<open>study_session\<close> over any policy and scheduler that keep their contracts
    (\<open>SessionLemmas\<close>), interpreted on the environment that \<^verbatim>\<open>factories.py\<close> builds (\<open>app_env\<close>).
    \<open>Samples\<close> holds the inputs of the witnesses; \<open>SessionProperties\<close>, \<open>CoreProperties\<close>.
  \<^item> \<open>ConcurrentAnswers\<close>, \<open>ConcurrentProperties\<close>: \<^verbatim>\<open>answer\<close> split at its awaits (\<open>proceed\<close>), any
    number of answers in flight beside settings that are saved and content that is rebuilt (\<open>desk_step\<close>).
  \<^item> \<open>Stats\<close> (\<^verbatim>\<open>services/review_stats.py\<close>).

  \<^bold>\<open>Login and streams.\<close>
  \<^item> \<open>Auth\<close> (\<^verbatim>\<open>services/auth.py\<close>, \<^verbatim>\<open>services/session_revocations.py\<close>,
    \<^verbatim>\<open>db/revoked_session_store.py\<close>): tokens and the two stores of ended sessions; the locales
    \<open>session_revocations\<close> and \<open>durable_revocations\<close> are their contract.  \<open>AuthMachine\<close>: the life of
    sessions over time and restarts (\<open>auth_step\<close>).  \<open>AuthProperties\<close>.
  \<^item> \<open>Throttle\<close> (\<^verbatim>\<open>services/login_throttle.py\<close>, the login route): \<open>login_step\<close> interleaves attempts at
    the await inside the handler.
  \<^item> \<open>Sockets\<close> (\<^verbatim>\<open>orchestration/pending_auth_gate.py\<close>, \<^verbatim>\<open>orchestration/session_sockets.py\<close>,
    \<^verbatim>\<open>orchestration/session_logout.py\<close>, \<^verbatim>\<open>api/routers/ws.py\<close>): \<open>ws_step\<close> interleaves connections
    and logouts.  \<open>StreamProperties\<close>.
  \<^item> \<open>StreamLife\<close> (\<^verbatim>\<open>api/routers/ws.py\<close>): a stream from its registration to the end of its handler, with
    its forwarder and its cleanup, beside the builds (\<open>stream_step\<close>).

  \<^bold>\<open>The service.\<close>
  \<^item> \<open>Config\<close>, \<open>ConfigProperties\<close> (\<^verbatim>\<open>config\<close>, \<^verbatim>\<open>frontend_shell.py\<close>, \<^verbatim>\<open>main.py\<close>): layers,
    typed getters, validation.
  \<^item> \<open>Startup\<close> (\<^verbatim>\<open>db/migrate.py\<close>, \<^verbatim>\<open>db/instance_lock.py\<close>, \<^verbatim>\<open>api/services.py\<close>,
    \<^verbatim>\<open>factories.py\<close>).
  \<^item> \<open>HttpShell\<close> (\<^verbatim>\<open>api/csp.py\<close>, \<^verbatim>\<open>api/security_headers.py\<close>, \<^verbatim>\<open>api/static.py\<close>,
    \<^verbatim>\<open>api/error_middleware.py\<close>, \<^verbatim>\<open>api/app.py\<close>): responses, their headers, the interface's files.
  \<^item> \<open>Api\<close>, \<open>ApiProperties\<close> (\<^verbatim>\<open>api/schemas.py\<close>, \<^verbatim>\<open>api/deps.py\<close>, \<^verbatim>\<open>api/routers\<close>,
    \<^verbatim>\<open>services/health.py\<close>, \<^verbatim>\<open>services/config_check.py\<close>): every route over the running server.
  \<^item> \<open>App\<close> (\<^verbatim>\<open>api/app.py\<close>, \<^verbatim>\<open>main.py\<close>, \<^verbatim>\<open>api/routers/auth.py\<close>): the body of a 422, the published OpenAPI
    document, a whole login, the launcher and the proxies it trusts.
  \<^item> \<open>Documented\<close> (\<^verbatim>\<open>api/responses.py\<close>, \<^verbatim>\<open>api/routers\<close>): the statuses each route declares.
  \<^item> \<open>Service\<close>: starts, requests and builds as one machine (\<open>service_step\<close>).
  \<^item> \<open>BuildRun\<close> (\<^verbatim>\<open>factories.py\<close>, \<^verbatim>\<open>orchestration/build_tasks.py\<close>): a build inside the service, from the
    request to the content in use.  \<open>JamdictThreads\<close>: the instances of the dictionary library per thread.
  \<^item> \<open>Schema\<close> (\<^verbatim>\<open>db/migrations/versions\<close>, \<^verbatim>\<open>db/models.py\<close>): the migrations as operations on a schema, the
    declared tables, and the stored rows as values of their columns.

  \<^bold>\<open>What the lemmas show.\<close>  For each state machine an invariant of its reachable states by rule induction
  (\<open>reached\<close>, \<open>auth_reach\<close>, \<open>login_reach\<close>, \<open>ws_reach\<close>, \<open>run_reach\<close>, \<open>runner_reach\<close>, \<open>desk_reach\<close>,
  \<open>stream_reach\<close>, \<open>service_reach\<close>); for
  each operation its result on every branch; that the importer's ids and the dry run of a build equal simpler reference
  definitions; that timestamps, furigana, content and settings read back as written; that the searches end.  The
  properties C1 to C40 stand next to the component they are about.  The last group of each theory of properties is the
  composition: serving then answering, answering beside other answers, logging out then streaming, building while streams
  listen, starting then serving, building then studying, and everything that is ever stored against the schema of the migrations.

  \<^bold>\<open>Bounds and termination.\<close>  No definition uses fuel.  Loops over texts (\<open>Furigana\<close>,
  \<open>HttpShell\<close>), over the blocks of the deck file (\<open>DeckImport\<close>) and over queues of cards
  (\<open>Session\<close>) are functions with a measure; the search for a free name
  of a backup, which the code writes as an endless loop, is a partial function that is proved to return in every
  folder.  Times are restricted where the code is: \<open>stamp_ok\<close> is the years from 1000 to 9999, below which
  \<^verbatim>\<open>strftime\<close> writes fewer digits and the strings would not be ordered.

  \<^bold>\<open>Parameters.\<close>  Code outside the repository is an argument: the review function of \<^verbatim>\<open>fsrs\<close>
  (\<open>fsrs_documented\<close> states what it documents: the new card was reviewed now and is due later), PyJWT, the password hasher,
  random ids, the hash of the shuffle, the random numbers of multiple choice, the JSON codec, zip and SQLite files
  as what reading them yields, Alembic (\<open>alembic_documented\<close>), StaticFiles,
  \<^verbatim>\<open>ipaddress\<close> and TOML.  Witnesses give concrete
  functions for them.

  \<^bold>\<open>Not modelled.\<close>  \<^verbatim>\<open>logging_setup.py\<close>, \<^verbatim>\<open>api/openapi_snapshot.py\<close>
  (files and texts only), \<^verbatim>\<open>db/engine.py\<close> and \<^verbatim>\<open>db/migrations/env.py\<close> (the set-up
  of SQLAlchemy and Alembic), running uvicorn, the field-by-field JSON of the wire schemas and the messages of the log, and the
  user interface in TypeScript.
\<close>
end
